(* ===== verification/Tunnel_Prelude.thy ===== *)
theory Tunnel_Prelude
  imports Main "HOL-Library.Word" "HOL-Library.AList" "HOL-Library.Multiset"
begin

unbundle bit_operations_syntax

text \<open>
  What every component of the tunnel model shares: the names of the base types, the
  decimal conversions of the Go standard library that the sources call
  (\<open>strconv.Itoa\<close>, \<open>strconv.Atoi\<close>), facts on lists, counts and association lists, and
  the two contracts that several components instantiate: a self-delimiting \<open>codec\<close> and
  an \<open>invariant_system\<close> (a step function that keeps an invariant).

  A Go \<open>map[K]V\<close> whose length or whose iteration is used is an association list with
  distinct keys: lookup is \<open>map_of\<close>, an assignment is \<open>AList.update\<close>, \<open>delete\<close> is
  \<open>AList.delete\<close>, \<open>len\<close> is \<open>length\<close>, and the order of the list is the order a \<open>range\<close>
  loop sees. A \<open>time.Duration\<close> and a point in time are \<open>int\<close> (nanoseconds).
\<close>

named_theorems wire_simps "unfolding rules of the wire format"
named_theorems pool_simps "frame rules of the slot pool operations"
named_theorems config_simps "unfolding rules of the configuration model"
named_theorems server_simps "frame rules of the server operations"

type_synonym byte = "8 word"
type_synonym duration = int
type_synonym time = int

definition second :: duration where
  "second = 1000000000"

section \<open>Decimal numbers\<close>

text \<open>\<open>strconv.Itoa\<close> and the part of \<open>strconv.Atoi\<close> the sources rely on: an optional sign,
  at least one decimal digit, nothing else, and a value that fits an \<open>int64\<close>.\<close>

definition digit_char :: "nat \<Rightarrow> char" where
  "digit_char d = char_of (48 + d)"

definition char_digit :: "char \<Rightarrow> nat option" where
  "char_digit c = (let v = of_char c in if 48 \<le> v \<and> v \<le> (57::nat) then Some (v - 48) else None)"

fun digits_of :: "nat \<Rightarrow> string" where
  "digits_of n = (if n < 10 then [digit_char n] else digits_of (n div 10) @ [digit_char (n mod 10)])"

declare digits_of.simps [simp del]

definition itoa :: "int \<Rightarrow> string" where
  "itoa n = (if n < 0 then CHR ''-'' # digits_of (nat (- n)) else digits_of (nat n))"

fun parse_digits :: "nat \<Rightarrow> string \<Rightarrow> nat option" where
  "parse_digits acc [] = Some acc"
| "parse_digits acc (c # cs) =
     (case char_digit c of None \<Rightarrow> None | Some d \<Rightarrow> parse_digits (10 * acc + d) cs)"

definition int64_range :: "int \<Rightarrow> bool" where
  "int64_range v \<longleftrightarrow> - (2 ^ 63) \<le> v \<and> v < 2 ^ 63"

definition atoi_signed :: "bool \<Rightarrow> string \<Rightarrow> int option" where
  "atoi_signed neg ds =
     (if ds = [] then None
      else case parse_digits 0 ds of
             None \<Rightarrow> None
           | Some v \<Rightarrow> (let r = (if neg then - int v else int v) in
                        if int64_range r then Some r else None))"

definition atoi :: "string \<Rightarrow> int option" where
  "atoi s =
     (case s of
        [] \<Rightarrow> None
      | c # cs \<Rightarrow> if c = CHR ''-'' then atoi_signed True cs
                  else if c = CHR ''+'' then atoi_signed False cs
                  else atoi_signed False s)"

lemma char_of_eqI: "of_char c = (n :: nat) \<Longrightarrow> char_of n = c"
  by auto

lemma char_digit_digit_char [simp]: "d < 10 \<Longrightarrow> char_digit (digit_char d) = Some d"
  by (simp add: char_digit_def digit_char_def Let_def)

lemma digit_char_not_sign: "d < 10 \<Longrightarrow> digit_char d \<noteq> CHR ''-'' \<and> digit_char d \<noteq> CHR ''+''"
  by (auto simp: digit_char_def dest!: arg_cong [of _ _ "of_char :: char \<Rightarrow> nat"])

lemma parse_digits_append:
  "parse_digits acc (xs @ ys) =
     (case parse_digits acc xs of None \<Rightarrow> None | Some v \<Rightarrow> parse_digits v ys)"
  by (induction xs arbitrary: acc) (auto split: option.splits)

lemma parse_digits_of: "parse_digits 0 (digits_of n) = Some n"
proof (induction n rule: digits_of.induct)
  case (1 n)
  show ?case
  proof (cases "n < 10")
    case True
    then show ?thesis by (subst digits_of.simps) simp
  next
    case False
    with "1.IH" have "parse_digits 0 (digits_of (n div 10)) = Some (n div 10)" by simp
    with False show ?thesis
      by (subst digits_of.simps) (simp add: parse_digits_append)
  qed
qed

lemma digits_of_Cons: "\<exists>d cs. d < 10 \<and> digits_of n = digit_char d # cs"
proof (induction n rule: digits_of.induct)
  case (1 n)
  show ?case
  proof (cases "n < 10")
    case True
    then show ?thesis by (subst digits_of.simps) auto
  next
    case False
    with "1.IH" obtain d cs where "d < 10" "digits_of (n div 10) = digit_char d # cs" by auto
    with False show ?thesis by (subst digits_of.simps) auto
  qed
qed

lemma digits_of_not_Nil [simp]: "digits_of n \<noteq> []"
  using digits_of_Cons [of n] by auto

lemma atoi_digits_of: "int n < 2 ^ 63 \<Longrightarrow> atoi (digits_of n) = Some (int n)"
proof -
  assume n: "int n < 2 ^ 63"
  obtain d cs where d: "d < 10" "digits_of n = digit_char d # cs"
    using digits_of_Cons by blast
  have "atoi (digits_of n) = atoi_signed False (digits_of n)"
    using d digit_char_not_sign by (simp add: atoi_def)
  then show ?thesis
    using n by (simp add: atoi_signed_def parse_digits_of int64_range_def Let_def)
qed

lemma atoi_itoa: "int64_range n \<Longrightarrow> atoi (itoa n) = Some n"
proof (cases "n < 0")
  case True
  moreover assume "int64_range n"
  ultimately show ?thesis
    by (simp add: itoa_def atoi_def atoi_signed_def parse_digits_of Let_def)
next
  case False
  moreover assume "int64_range n"
  ultimately show ?thesis
    using atoi_digits_of [of "nat n"] by (simp add: itoa_def int64_range_def)
qed

lemma itoa_inject: "int64_range m \<Longrightarrow> int64_range n \<Longrightarrow> itoa m = itoa n \<longleftrightarrow> m = n"
  by (metis atoi_itoa option.inject)

section \<open>Lists, counts and association lists\<close>

abbreviation count_if :: "('a \<Rightarrow> bool) \<Rightarrow> 'a list \<Rightarrow> int" where
  "count_if P xs \<equiv> int (length (filter P xs))"

abbreviation keys :: "('k \<times> 'v) list \<Rightarrow> 'k list" where
  "keys m \<equiv> map fst m"

lemma count_if_update:
  "i < length xs \<Longrightarrow>
     count_if P (xs[i := y]) =
       count_if P xs - (if P (xs ! i) then 1 else 0) + (if P y then 1 else 0)"
proof (induction xs arbitrary: i)
  case Nil
  then show ?case by simp
next
  case (Cons x xs)
  show ?case
  proof (cases i)
    case 0
    then show ?thesis by simp
  next
    case (Suc j)
    with Cons.prems have "j < length xs" by simp
    from Cons.IH [OF this] Suc show ?thesis by (auto split: if_splits)
  qed
qed

lemma count_if_snoc: "count_if P (xs @ [x]) = count_if P xs + (if P x then 1 else 0)"
  by simp

lemma count_if_pos_iff: "0 < count_if P xs \<longleftrightarrow> (\<exists>x \<in> set xs. P x)"
  by (induction xs) auto

lemma count_if_cong: "(\<And>x. x \<in> set xs \<Longrightarrow> P x = Q x) \<Longrightarrow> count_if P xs = count_if Q xs"
  by (induction xs) auto

lemma distinct_keys_update [simp]: "distinct (keys m) \<Longrightarrow> distinct (keys (AList.update k v m))"
  by (rule distinct_update)

lemma distinct_keys_delete [simp]: "distinct (keys m) \<Longrightarrow> distinct (keys (AList.delete k m))"
  by (rule distinct_delete)

lemma distinct_keys_filter [simp]: "distinct (keys m) \<Longrightarrow> distinct (keys (filter P m))"
  by (induction m) auto

lemma update_values: "snd ` set (AList.update k v m) \<subseteq> insert v (snd ` set m)"
  by (induction m) auto

lemma map_of_filter_key:
  "distinct (keys m) \<Longrightarrow>
     map_of (filter (\<lambda>(k, v). P k v) m) k =
       (case map_of m k of None \<Rightarrow> None | Some v \<Rightarrow> if P k v then Some v else None)"
proof (induction m)
  case Nil
  then show ?case by simp
next
  case (Cons kv m)
  then show ?case
    by (cases kv) (auto simp: map_of_eq_None_iff split: option.splits dest: map_of_SomeD)
qed

lemma map_of_Some_iff_mem: "distinct (keys m) \<Longrightarrow> map_of m k = Some v \<longleftrightarrow> (k, v) \<in> set m"
  by (rule map_of_eq_Some_iff)

lemma map_of_same_keys_card:
  assumes "distinct (keys m)" "distinct (keys n)" "length m = length n"
    and "\<And>k v. map_of m k = Some v \<Longrightarrow> map_of n k = Some v"
  shows "map_of m = map_of n"
proof -
  have "set m \<subseteq> set n"
    using assms(1,2,4) by (metis map_of_Some_iff_mem subrelI)
  moreover have "card (set m) = card (set n)"
    using assms(1-3) by (metis distinct_card distinct_map)
  ultimately have "set m = set n"
    by (simp add: card_subset_eq)
  then have "map_of m k = Some v \<longleftrightarrow> map_of n k = Some v" for k v
    using assms(1,2) by (simp add: map_of_Some_iff_mem)
  then show ?thesis
    by (metis (no_types) ext not_None_eq)
qed

lemma append_split:
  assumes "xs @ ys = zs @ ts"
  obtains (inside) us where "us \<noteq> []" "xs = zs @ us" "ts = us @ ys"
    | (beyond) us where "zs = xs @ us" "ys = us @ ts"
proof -
  from assms obtain us where "xs = zs @ us \<and> us @ ys = ts \<or> xs @ us = zs \<and> ys = us @ ts"
    by (auto simp: append_eq_append_conv2)
  then show thesis
    using inside [of us] beyond [of us] beyond [of "[]"] by (cases "us = []") auto
qed

section \<open>Contracts shared by several components\<close>

text \<open>A self-delimiting encoding: decoding an encoded value followed by anything returns
  the value and leaves exactly the rest.\<close>

locale codec =
  fixes ok :: "'a \<Rightarrow> bool"
    and enc :: "'a \<Rightarrow> 'e list"
    and dec :: "'e list \<Rightarrow> ('a \<times> 'e list) option"
  assumes dec_enc: "ok x \<Longrightarrow> dec (enc x @ rest) = Some (x, rest)"
begin

lemma enc_inject: "ok x \<Longrightarrow> ok y \<Longrightarrow> enc x @ r = enc y @ r' \<Longrightarrow> x = y \<and> r = r'"
  using dec_enc [of x r] dec_enc [of y r'] by (metis option.inject prod.inject)

lemma enc_prefix_free: "ok x \<Longrightarrow> ok y \<Longrightarrow> enc x = enc y @ r \<Longrightarrow> x = y \<and> r = []"
  using enc_inject [of x y "[]" r] by (metis append_Nil2)

end

text \<open>A state machine given by a step function, with an invariant that every step keeps.\<close>

locale invariant_system =
  fixes inv :: "'s \<Rightarrow> bool"
    and step :: "'op \<Rightarrow> 's \<Rightarrow> 's"
  assumes step_inv: "inv s \<Longrightarrow> inv (step e s)"
begin

lemma run_inv: "inv s \<Longrightarrow> inv (fold step es s)"
  by (induction es arbitrary: s) (auto intro: step_inv)

end

end
