(* ===== verification/Byte_Stream.thy ===== *)
theory Byte_Stream
  imports Tunnel_Prelude
begin

text \<open>
  The byte level under the wire format (internal/protocol): an \<open>io.Reader\<close> as the
  sources meet it, the \<open>byteReader\<close> adapter of stream.go, and the base-128 varints of
  \<open>encoding/binary\<close> that stream.go and frame.go call.

  A \<open>source\<close> is a reader in full: the bytes still to come, cut into the pieces the
  transport will deliver them in (a piece may be empty: a read of zero bytes without an
  error), the error that ends them, and whether that error comes together with the last
  bytes or in a read of its own; \<open>io.Reader\<close> allows all of these.
\<close>

datatype io_error =
    EOF
  | UnexpectedEOF
  | ClosedPipe
  | VarintOverflow
  | ErrBadVersion
  | ErrBadPortID
  | ErrBadFrame
  | Transport nat

record source =
  pending :: "byte list list"
  final_err :: io_error
  eager :: bool

definition src_bytes :: "source \<Rightarrow> byte list" where
  "src_bytes s = concat (pending s)"

text \<open>One \<open>Read\<close> with a buffer of \<open>k\<close> bytes: the bytes, the error, the reader after it.\<close>

definition src_read :: "nat \<Rightarrow> source \<Rightarrow> (byte list \<times> io_error option) \<times> source" where
  "src_read k s =
     (case pending s of
        [] \<Rightarrow> (([], Some (final_err s)), s)
      | c # cs \<Rightarrow>
          (let left = (if k < length c then drop k c # cs else cs)
           in ((take k c, if eager s \<and> left = [] then Some (final_err s) else None),
               s\<lparr>pending := left\<rparr>)))"

lemma src_read_final [simp]: "final_err (snd (src_read k s)) = final_err s"
  by (simp add: src_read_def Let_def split: list.splits)

lemma src_read_bytes: "src_bytes s = fst (fst (src_read k s)) @ src_bytes (snd (src_read k s))"
  by (auto simp: src_read_def src_bytes_def Let_def split: list.splits)

lemma src_read_length: "length (fst (fst (src_read k s))) \<le> k"
  by (auto simp: src_read_def Let_def split: list.splits)

lemma src_read_error:
  "snd (fst (src_read k s)) = Some e \<Longrightarrow> e = final_err s \<and> src_bytes (snd (src_read k s)) = []"
  by (auto simp: src_read_def src_bytes_def Let_def split: list.splits if_splits)

text \<open>What a read without an error uses up: at least one piece or one byte.\<close>

definition src_size :: "source \<Rightarrow> nat" where
  "src_size s = sum_list (map (\<lambda>c. Suc (length c)) (pending s))"

lemma src_read_size_le: "src_size (snd (src_read k s)) \<le> src_size s"
  by (auto simp: src_read_def src_size_def Let_def split: list.splits)

lemma src_read_size_less:
  "0 < k \<Longrightarrow> snd (fst (src_read k s)) = None \<Longrightarrow> src_size (snd (src_read k s)) < src_size s"
  by (auto simp: src_read_def src_size_def Let_def split: list.splits if_splits)

lemma src_read_empty_size:
  "src_read (Suc 0) s = (([], None), s') \<Longrightarrow> src_size s' < src_size s"
  using src_read_size_less [of "Suc 0" s] by simp

section \<open>byteReader.ReadByte (stream.go)\<close>

text \<open>\<open>io.ReadFull\<close> into a buffer of one byte: read again after an empty read, keep a byte
  even when an error came with it.\<close>

function read_byte :: "source \<Rightarrow> (io_error + byte) \<times> source" where
  "read_byte s =
     (case src_read 1 s of
        ((b # _, _), s') \<Rightarrow> (Inr b, s')
      | (([], Some e), s') \<Rightarrow> (Inl e, s')
      | (([], None), s') \<Rightarrow> read_byte s')"
  by pat_completeness auto
termination
  by (relation "measure src_size") (auto dest!: sym [of _ "src_read (Suc 0) _"] src_read_empty_size)

declare read_byte.simps [simp del]

text \<open>The contract of an \<open>io.ByteReader\<close>: it hands out the bytes one by one, then its
  error. \<open>binary.ReadUvarint\<close> relies on this and on nothing else.\<close>

locale byte_reader =
  fixes rb :: "'s \<Rightarrow> (io_error + byte) \<times> 's"
    and bytes :: "'s \<Rightarrow> byte list"
    and fin :: "'s \<Rightarrow> io_error"
  assumes rb_empty: "bytes s = [] \<Longrightarrow>
      fst (rb s) = Inl (fin s) \<and> bytes (snd (rb s)) = [] \<and> fin (snd (rb s)) = fin s"
    and rb_byte: "bytes s = b # bs \<Longrightarrow>
      fst (rb s) = Inr b \<and> bytes (snd (rb s)) = bs \<and> fin (snd (rb s)) = fin s"

lemma read_byte_spec:
  "fst (read_byte s) = (case src_bytes s of [] \<Rightarrow> Inl (final_err s) | b # _ \<Rightarrow> Inr b) \<and>
   src_bytes (snd (read_byte s)) = tl (src_bytes s) \<and>
   final_err (snd (read_byte s)) = final_err s \<and>
   src_size (snd (read_byte s)) \<le> src_size s"
proof (induction s rule: read_byte.induct)
  case (1 s)
  obtain bs e s' where r: "src_read 1 s = ((bs, e), s')" by (metis surj_pair)
  have facts: "src_bytes s = bs @ src_bytes s'" "final_err s' = final_err s"
    "length bs \<le> 1" "src_size s' \<le> src_size s"
    "e = Some x \<Longrightarrow> x = final_err s \<and> src_bytes s' = []" for x
    using r src_read_bytes [of s 1] src_read_final [of 1 s] src_read_length [of 1 s]
      src_read_size_le [of 1 s] src_read_error [of 1 s] by auto
  show ?case
  proof (cases bs)
    case Nil
    show ?thesis
    proof (cases e)
      case None
      with r Nil have "read_byte s = read_byte s'"
        by (subst read_byte.simps) simp
      moreover note "1.IH" [OF r [symmetric] refl _ None]
      ultimately show ?thesis using facts Nil None by (simp split: list.split)
    next
      case (Some x)
      with r Nil facts show ?thesis by (subst (1 2 3 4) read_byte.simps) auto
    qed
  next
    case (Cons b cs)
    with r facts show ?thesis by (subst (1 2 3 4) read_byte.simps) auto
  qed
qed

interpretation src_rd: byte_reader read_byte src_bytes final_err
  by unfold_locales (use read_byte_spec in \<open>auto split: list.splits\<close>)

text \<open>The simplest byte reader, a list with its final error: what the others are compared to.\<close>

fun list_byte :: "byte list \<times> io_error \<Rightarrow> (io_error + byte) \<times> (byte list \<times> io_error)" where
  "list_byte ([], e) = (Inl e, ([], e))"
| "list_byte (b # bs, e) = (Inr b, (bs, e))"

interpretation list_rd: byte_reader list_byte fst snd
proof (unfold_locales, goal_cases)
  case (1 s)
  then show ?case by (cases s) auto
next
  case (2 s b bs)
  then show ?case by (cases s) auto
qed

section \<open>Base-128 varints (encoding/binary)\<close>

function put_uvarint :: "64 word \<Rightarrow> byte list" where
  "put_uvarint x =
     (if x < 128 then [ucast x] else (ucast x OR 128) # put_uvarint (drop_bit 7 x))"
  by pat_completeness auto
termination
proof (relation "measure unat", simp)
  fix x :: "64 word"
  assume "\<not> x < 128"
  then have "128 \<le> unat x" by (simp add: word_less_nat_alt)
  moreover have "unat x div 128 < unat x" if "128 \<le> unat x"
    using that by (intro div_less_dividend) auto
  ultimately show "(drop_bit 7 x, x) \<in> measure unat"
    by (simp add: drop_bit_eq_div unat_div)
qed

declare put_uvarint.simps [simp del]

text \<open>\<open>binary.ReadUvarint\<close>, as a loop with \<open>k\<close> of its ten iterations left: iteration
  \<open>i = 10 - k\<close> shifts by \<open>7 * i\<close>; running out of iterations, or a tenth byte above 1, is
  an overflow; an end of input after the first byte is unexpected.\<close>

primrec uvarint_loop ::
  "('s \<Rightarrow> (io_error + byte) \<times> 's) \<Rightarrow> nat \<Rightarrow> 64 word \<Rightarrow> 's \<Rightarrow> (io_error + 64 word) \<times> 's" where
  "uvarint_loop rb 0 x s = (Inl VarintOverflow, s)"
| "uvarint_loop rb (Suc k) x s =
     (let i = 9 - k in
      case rb s of
        (Inl e, s') \<Rightarrow> (Inl (if 0 < i \<and> e = EOF then UnexpectedEOF else e), s')
      | (Inr b, s') \<Rightarrow>
          if b < 128 then
            (if k = 0 \<and> 1 < b then (Inl VarintOverflow, s')
             else (Inr (x OR push_bit (7 * i) (ucast b)), s'))
          else uvarint_loop rb k (x OR push_bit (7 * i) (ucast (b AND 127))) s')"

definition read_uvarint :: "('s \<Rightarrow> (io_error + byte) \<times> 's) \<Rightarrow> 's \<Rightarrow> (io_error + 64 word) \<times> 's" where
  "read_uvarint rb s = uvarint_loop rb 10 0 s"

text \<open>Any byte reader gives the result the plain list gives.\<close>

context byte_reader
begin

lemma rb_cases:
  obtains (empty) s' where "bytes s = []" "rb s = (Inl (fin s), s')" "bytes s' = []" "fin s' = fin s"
    | (byte) b s' where "bytes s = b # bytes s'" "rb s = (Inr b, s')" "fin s' = fin s"
proof (cases "bytes s")
  case Nil
  from rb_empty [OF Nil] that(1) [OF Nil, of "snd (rb s)"] show ?thesis
    by (metis prod.collapse)
next
  case (Cons b bs)
  from rb_byte [OF Cons] that(2) [of b "snd (rb s)"] Cons show ?thesis
    by (metis prod.collapse)
qed

lemma uvarint_loop_list:
  "fst (uvarint_loop rb k x s) = fst (uvarint_loop list_byte k x (bytes s, fin s)) \<and>
   (bytes (snd (uvarint_loop rb k x s)), fin (snd (uvarint_loop rb k x s))) =
     snd (uvarint_loop list_byte k x (bytes s, fin s))"
proof (induction k arbitrary: x s)
  case 0
  then show ?case by simp
next
  case (Suc k)
  show ?case
  proof (cases s rule: rb_cases)
    case empty
    then show ?thesis by (simp add: Let_def)
  next
    case (byte b s')
    with Suc.IH [of _ s'] show ?thesis by (simp add: Let_def)
  qed
qed

lemma read_uvarint_list:
  "read_uvarint list_byte (bytes s, fin s) = (r, (bs, e)) \<Longrightarrow>
     \<exists>s'. read_uvarint rb s = (r, s') \<and> bytes s' = bs \<and> fin s' = e"
  using uvarint_loop_list [of 10 0 s]
  by (cases "uvarint_loop rb 10 0 s") (auto simp: read_uvarint_def)

end

lemma drop_bit_7_bound: "unat y < 2 ^ (n + 7) \<Longrightarrow> unat (drop_bit 7 y) < 2 ^ n"
  for y :: "64 word"
  by (simp add: drop_bit_eq_div unat_div less_mult_imp_div_less power_add)

lemma low_byte_small: "y < 128 \<Longrightarrow> ucast (ucast y :: byte) = y" for y :: "64 word"
  by (rule word_unat_eq_iff [THEN iffD2])
     (simp add: unsigned_ucast_eq take_bit_eq_mod word_less_nat_alt unat_mod)

lemma continue_byte: "\<not> (w OR 128 < (128 :: byte))"
proof
  assume "w OR 128 < (128 :: byte)"
  then have "unat (w OR 128) div 2 ^ 7 = 0" by (simp add: word_less_nat_alt)
  then have "\<not> bit (unat (w OR 128)) 7" by (simp add: bit_iff_odd)
  then have "\<not> bit (w OR 2 ^ 7) 7" by (simp add: bit_unsigned_iff)
  then show False by (simp add: bit_or_iff bit_exp_iff del: power_numeral)
qed

lemma continue_byte_low: "ucast ((ucast y OR 128 :: byte) AND 127) = take_bit 7 y" for y :: "64 word"
proof -
  have "w AND 127 = take_bit 7 w" for w :: byte
    by (simp add: take_bit_eq_mask mask_eq_exp_minus_1)
  moreover have "(128 :: byte) = push_bit 7 1"
    by (simp add: push_bit_eq_mult)
  moreover have "ucast (take_bit 7 (ucast y OR push_bit 7 1 :: byte)) = take_bit 7 y"
    by (rule bit_word_eqI) (auto simp: bit_take_bit_iff bit_unsigned_iff bit_or_iff bit_push_bit_iff)
  ultimately show ?thesis by (simp only:)
qed

lemma push_bit_7_split:
  "(x OR push_bit m (take_bit 7 y)) OR push_bit (m + 7) (drop_bit 7 y) = x OR push_bit m y"
  for y :: "64 word"
proof (rule bit_word_eqI)
  fix n
  have "7 + (n - (m + 7)) = n - m" if "\<not> n - m < 7"
    using that by simp
  then show "bit ((x OR push_bit m (take_bit 7 y)) OR push_bit (m + 7) (drop_bit 7 y)) n =
      bit (x OR push_bit m y) n" if "n < LENGTH(64)"
    using that by (cases "n - m < 7") (auto simp: bit_simps)
qed

text \<open>Reading back what \<open>PutUvarint\<close> wrote, whatever follows it.\<close>

lemma uvarint_loop_put:
  assumes "k < 10" "unat y < 2 ^ (64 - 7 * (9 - k))"
  shows "uvarint_loop list_byte (Suc k) x (put_uvarint y @ rest, e) =
    (Inr (x OR push_bit (7 * (9 - k)) y), (rest, e))"
  using assms
proof (induction k arbitrary: x y)
  case 0
  then have small: "y < 128" "\<not> 1 < (ucast y :: byte)"
    by (simp_all add: word_less_nat_alt unsigned_ucast_eq take_bit_eq_mod unat_mod)
  then have "(ucast y :: byte) < 128"
    by (simp add: word_less_nat_alt unsigned_ucast_eq take_bit_eq_mod unat_mod)
  with small show ?case
    by (simp add: put_uvarint.simps [of y] low_byte_small)
next
  case (Suc k)
  show ?case
  proof (cases "y < 128")
    case True
    then have "(ucast y :: byte) < 128"
      by (simp add: word_less_nat_alt unsigned_ucast_eq take_bit_eq_mod unat_mod)
    with True show ?thesis
      by (simp add: put_uvarint.simps [of y] low_byte_small del: uvarint_loop.simps(2)
            add: uvarint_loop.simps(2) [of _ "Suc k"] Let_def)
  next
    case False
    let ?b = "ucast y OR 128 :: byte"
    let ?x = "x OR push_bit (7 * (9 - Suc k)) (take_bit 7 y)"
    have i: "9 - k = Suc (9 - Suc k)" using Suc.prems by simp
    have "uvarint_loop list_byte (Suc (Suc k)) x (put_uvarint y @ rest, e) =
        uvarint_loop list_byte (Suc k) ?x (put_uvarint (drop_bit 7 y) @ rest, e)"
      using False
      by (simp add: put_uvarint.simps [of y] continue_byte continue_byte_low
            uvarint_loop.simps(2) [of _ "Suc k"] Let_def del: uvarint_loop.simps(2))
    also have "\<dots> = (Inr (?x OR push_bit (7 * (9 - k)) (drop_bit 7 y)), (rest, e))"
    proof (rule Suc.IH)
      show "k < 10" using Suc.prems by simp
      have "64 - 7 * (9 - Suc k) = (64 - 7 * (9 - k)) + 7" using i Suc.prems by simp
      with Suc.prems show "unat (drop_bit 7 y) < 2 ^ (64 - 7 * (9 - k))"
        by (metis drop_bit_7_bound)
    qed
    also have "?x OR push_bit (7 * (9 - k)) (drop_bit 7 y) = x OR push_bit (7 * (9 - Suc k)) y"
      using push_bit_7_split [of x "7 * (9 - Suc k)" y] i by (simp add: add.commute)
    finally show ?thesis .
  qed
qed

lemma read_put_uvarint: "read_uvarint list_byte (put_uvarint y @ rest, e) = (Inr y, (rest, e))"
proof -
  have ten: "(10 :: nat) = Suc 9" by simp
  have "unat y < 2 ^ (64 - 7 * (9 - 9))" using unsigned_less [of y] by simp
  from uvarint_loop_put [OF _ this, of 0 rest e] show ?thesis
    unfolding read_uvarint_def ten by simp
qed

text \<open>A varint cut short: the end of input inside it is unexpected, before it is not.\<close>

lemma uvarint_loop_prefix:
  assumes "k < 10" "put_uvarint y = p @ q" "q \<noteq> []"
  shows "uvarint_loop list_byte (Suc k) x (p, e) =
      (Inl (if (p \<noteq> [] \<or> k < 9) \<and> e = EOF then UnexpectedEOF else e), ([], e)) \<or>
    fst (uvarint_loop list_byte (Suc k) x (p, e)) = Inl VarintOverflow"
  using assms
proof (induction k arbitrary: x y p)
  case 0
  then show ?case
    by (cases p) (auto simp: put_uvarint.simps [of y] continue_byte split: if_splits)
next
  case (Suc k)
  show ?case
  proof (cases p)
    case Nil
    with Suc.prems show ?thesis by (simp add: Let_def)
  next
    case (Cons b p')
    with Suc.prems have *: "\<not> y < 128" "b = ucast y OR 128" "put_uvarint (drop_bit 7 y) = p' @ q"
      by (auto simp: put_uvarint.simps [of y] split: if_splits)
    with Suc.IH [OF _ *(3) Suc.prems(3)] Suc.prems(1) Cons show ?thesis
      by (auto simp: continue_byte Let_def simp del: uvarint_loop.simps(2)
          simp: uvarint_loop.simps(2) [of _ "Suc k"])
  qed
qed

lemma length_put_uvarint: "unat y < 2 ^ (7 * Suc m) \<Longrightarrow> length (put_uvarint y) \<le> Suc m"
proof (induction m arbitrary: y)
  case 0
  then show ?case by (simp add: put_uvarint.simps [of y] word_less_nat_alt)
next
  case (Suc m)
  show ?case
  proof (cases "y < 128")
    case True
    then show ?thesis by (simp add: put_uvarint.simps [of y])
  next
    case False
    from Suc.prems have "unat (drop_bit 7 y) < 2 ^ (7 * Suc m)"
      by (intro drop_bit_7_bound) (simp add: add.commute)
    with Suc.IH False show ?thesis by (simp add: put_uvarint.simps [of y])
  qed
qed

lemma uvarint_loop_shrinks:
  "uvarint_loop list_byte k x (bs, e) = (r, (bs', e')) \<Longrightarrow> e' = e \<and> length bs' \<le> length bs"
proof (induction k arbitrary: x bs)
  case 0
  then show ?case by simp
next
  case (Suc k)
  then show ?case
    by (cases bs) (auto simp: Let_def split: if_splits intro: le_SucI)
qed

lemma read_uvarint_shrinks:
  "read_uvarint list_byte (bs, e) = (r, (bs', e')) \<Longrightarrow> e' = e \<and> length bs' \<le> length bs"
  unfolding read_uvarint_def by (rule uvarint_loop_shrinks)

section \<open>Writers\<close>

text \<open>An \<open>io.Writer\<close> as the sources use it: it records each \<open>Write\<close> call, and may have
  room for only so many bytes, after which it keeps a prefix and reports its error.\<close>

record sink =
  written :: "byte list list"
  room :: "(nat \<times> io_error) option"

definition sink_bytes :: "sink \<Rightarrow> byte list" where
  "sink_bytes k = concat (written k)"

definition sink_write :: "byte list \<Rightarrow> sink \<Rightarrow> io_error option \<times> sink" where
  "sink_write bs k =
     (case room k of
        None \<Rightarrow> (None, k\<lparr>written := written k @ [bs]\<rparr>)
      | Some (r, e) \<Rightarrow>
          if length bs \<le> r
          then (None, k\<lparr>written := written k @ [bs], room := Some (r - length bs, e)\<rparr>)
          else (Some e, k\<lparr>written := written k @ [take r bs], room := Some (0, e)\<rparr>))"

lemma sink_write_ok:
  "sink_write bs k = (None, k') \<Longrightarrow> written k' = written k @ [bs] \<and> sink_bytes k' = sink_bytes k @ bs"
  by (auto simp: sink_write_def sink_bytes_def split: option.splits if_splits)

interpretation uvarint_codec: codec "\<lambda>_. True" put_uvarint
  "\<lambda>bs. case read_uvarint list_byte (bs, EOF) of
      (Inr x, (rest, _)) \<Rightarrow> Some (x, rest) | (Inl _, _) \<Rightarrow> None"
  by unfold_locales (simp add: read_put_uvarint)

end
