(* ===== verification/Stream_Header.thy ===== *)
theory Stream_Header
  imports Byte_Stream
begin

text \<open>
  internal/protocol/stream.go: the header that opens every data stream (a version byte and
  the port id as a varint) and the single ack byte that answers it.
\<close>

definition StreamVersion :: byte where
  "StreamVersion = 2"

definition AckOK :: byte where "AckOK = 0"
definition AckPortNotAllowed :: byte where "AckPortNotAllowed = 1"
definition AckDialFailed :: byte where "AckDialFailed = 2"
definition AckRejected :: byte where "AckRejected = 3"

lemmas ack_defs = AckOK_def AckPortNotAllowed_def AckDialFailed_def AckRejected_def

definition AckResult :: "byte \<Rightarrow> string" where
  "AckResult status =
     (if status = AckOK then ''ok''
      else if status = AckPortNotAllowed then ''not_allowed''
      else if status = AckDialFailed then ''dial_failed''
      else if status = AckRejected then ''rejected''
      else ''rejected'')"

definition AckReason :: "byte \<Rightarrow> string" where
  "AckReason status =
     (if status = AckOK then ''ok''
      else if status = AckPortNotAllowed then ''port id not in allow-list''
      else if status = AckDialFailed then ''client failed to dial the local service''
      else if status = AckRejected then ''client refused the stream''
      else ''unknown ack status'')"

definition stream_header :: "int \<Rightarrow> byte list" where
  "stream_header portID = StreamVersion # put_uvarint (word_of_int portID)"

definition WriteStreamHeader :: "int \<Rightarrow> sink \<Rightarrow> io_error option \<times> sink" where
  "WriteStreamHeader portID w = sink_write (stream_header portID) w"

definition ReadStreamHeader :: "source \<Rightarrow> (io_error + int) \<times> source" where
  "ReadStreamHeader r =
     (case read_byte r of
        (Inl e, r1) \<Rightarrow> (Inl e, r1)
      | (Inr ver, r1) \<Rightarrow>
          if ver \<noteq> StreamVersion then (Inl ErrBadVersion, r1)
          else (case read_uvarint read_byte r1 of
                  (Inl e, r2) \<Rightarrow> (Inl e, r2)
                | (Inr i, r2) \<Rightarrow>
                    if i < 1 \<or> 65535 < i then (Inl ErrBadPortID, r2) else (Inr (uint i), r2)))"

definition WriteAck :: "byte \<Rightarrow> sink \<Rightarrow> io_error option \<times> sink" where
  "WriteAck status w = sink_write [status] w"

definition ReadAck :: "source \<Rightarrow> (io_error + byte) \<times> source" where
  "ReadAck r = read_byte r"

definition valid_port :: "int \<Rightarrow> bool" where
  "valid_port p \<longleftrightarrow> 1 \<le> p \<and> p \<le> 65535"

section \<open>Reading a header\<close>

lemma src_read_uvarint_put:
  assumes "src_bytes r = put_uvarint x @ rest"
  shows "\<exists>r'. read_uvarint read_byte r = (Inr x, r') \<and> src_bytes r' = rest \<and> final_err r' = final_err r"
  by (rule src_rd.read_uvarint_list) (simp add: assms read_put_uvarint)

lemma read_byte_Cons:
  assumes "src_bytes r = b # bs"
  obtains r' where "read_byte r = (Inr b, r')" "src_bytes r' = bs" "final_err r' = final_err r"
  using src_rd.rb_byte [OF assms] by (metis prod.collapse)

lemma ReadStreamHeader_header:
  assumes "valid_port p" and "src_bytes r = stream_header p @ rest"
  shows "\<exists>r'. ReadStreamHeader r = (Inr p, r') \<and> src_bytes r' = rest \<and> final_err r' = final_err r"
proof -
  obtain r1 where r1: "read_byte r = (Inr StreamVersion, r1)"
      "src_bytes r1 = put_uvarint (word_of_int p) @ rest" "final_err r1 = final_err r"
    using assms(2) by (auto simp: stream_header_def elim: read_byte_Cons)
  obtain r2 where r2: "read_uvarint read_byte r1 = (Inr (word_of_int p), r2)"
      "src_bytes r2 = rest" "final_err r2 = final_err r1"
    using src_read_uvarint_put [OF r1(2)] by blast
  have u: "uint (word_of_int p :: 64 word) = p"
    using assms(1) by (simp add: valid_port_def uint_word_of_int)
  then have "\<not> (word_of_int p :: 64 word) < 1" "\<not> 65535 < (word_of_int p :: 64 word)"
    using assms(1) by (simp_all add: word_less_def valid_port_def)
  with r1 r2 u show ?thesis by (simp add: ReadStreamHeader_def)
qed

lemma ReadStreamHeader_valid: "ReadStreamHeader r = (Inr p, r') \<Longrightarrow> valid_port p"
  by (auto simp: ReadStreamHeader_def valid_port_def word_less_def not_less
      split: prod.splits sum.splits if_splits)

definition header_source :: "byte list \<Rightarrow> source" where
  "header_source bs = \<lparr>pending = [bs], final_err = EOF, eager = False\<rparr>"

interpretation header_codec: codec valid_port stream_header
  "\<lambda>bs. case ReadStreamHeader (header_source bs) of
      (Inr p, r) \<Rightarrow> Some (p, src_bytes r) | (Inl _, _) \<Rightarrow> None"
proof (unfold_locales, goal_cases)
  case (1 p rest)
  then have "src_bytes (header_source (stream_header p @ rest)) = stream_header p @ rest"
    by (simp add: header_source_def src_bytes_def)
  from ReadStreamHeader_header [OF 1 this] show ?case by auto
qed

section \<open>Properties\<close>

text \<open>What one side writes as a stream header, the other side reads back as the same
  port id, however the transport cuts the bytes up; the payload that follows is left
  untouched in the stream.\<close>

theorem stream_header_roundtrip:
  assumes "valid_port p" and "sink_bytes w = []"
    and "WriteStreamHeader p w = (None, w')"
    and "src_bytes r = sink_bytes w' @ payload"
  shows "\<exists>r'. ReadStreamHeader r = (Inr p, r') \<and> src_bytes r' = payload"
proof -
  have "src_bytes r = stream_header p @ payload"
    using sink_write_ok assms(2-4) by (fastforce simp: WriteStreamHeader_def)
  from ReadStreamHeader_header [OF assms(1) this] show ?thesis by blast
qed

theorem stream_header_roundtrip_witness:
  "\<exists>r r'. src_bytes r = stream_header 19080 @ [1, 2] \<and>
     ReadStreamHeader r = (Inr 19080, r') \<and> src_bytes r' = [1, 2]"
proof -
  let ?w = "\<lparr>written = [], room = None\<rparr> :: sink"
  let ?r = "header_source (stream_header 19080 @ [1, 2])"
  have r: "src_bytes ?r = stream_header 19080 @ [1, 2]"
    by (simp add: header_source_def src_bytes_def)
  have "WriteStreamHeader 19080 ?w = (None, ?w\<lparr>written := [stream_header 19080]\<rparr>)"
    by (simp add: WriteStreamHeader_def sink_write_def)
  from stream_header_roundtrip [OF _ _ this, of ?r "[1, 2]"] r show ?thesis
    by (auto simp: valid_port_def sink_bytes_def)
qed

text \<open>Every way a stream header is refused. The reader accepts a header only with a port id in
  1..65535; it reports the transport's error when nothing arrives, an unsupported version for any
  other version byte, and an id outside the range for a zero or oversized varint.\<close>

theorem stream_header_errors:
  "(fst (ReadStreamHeader r) = Inr p \<longrightarrow> valid_port p) \<and>
   (src_bytes r = [] \<longrightarrow> fst (ReadStreamHeader r) = Inl (final_err r)) \<and>
   (src_bytes r = v # bs \<and> v \<noteq> StreamVersion \<longrightarrow> fst (ReadStreamHeader r) = Inl ErrBadVersion) \<and>
   (src_bytes r = StreamVersion # put_uvarint n @ bs \<and> (n = 0 \<or> 65535 < n) \<longrightarrow>
      fst (ReadStreamHeader r) = Inl ErrBadPortID)"
proof (intro conjI impI)
  assume "fst (ReadStreamHeader r) = Inr p"
  then show "valid_port p" using ReadStreamHeader_valid [of r p] by (metis prod.collapse)
next
  assume "src_bytes r = []"
  then show "fst (ReadStreamHeader r) = Inl (final_err r)"
    using src_rd.rb_empty [of r] by (cases "read_byte r") (simp add: ReadStreamHeader_def)
next
  assume "src_bytes r = v # bs \<and> v \<noteq> StreamVersion"
  then show "fst (ReadStreamHeader r) = Inl ErrBadVersion"
    using src_rd.rb_byte [of r v bs] by (cases "read_byte r") (simp add: ReadStreamHeader_def)
next
  assume h: "src_bytes r = StreamVersion # put_uvarint n @ bs \<and> (n = 0 \<or> 65535 < n)"
  then obtain r1 where "read_byte r = (Inr StreamVersion, r1)" "src_bytes r1 = put_uvarint n @ bs"
    using read_byte_Cons by blast
  moreover from this(2) obtain r2 where "read_uvarint read_byte r1 = (Inr n, r2)"
    using src_read_uvarint_put by blast
  ultimately show "fst (ReadStreamHeader r) = Inl ErrBadPortID"
    using h by (auto simp: ReadStreamHeader_def)
qed

theorem stream_header_errors_witness:
  "fst (ReadStreamHeader (header_source [1, 7])) = Inl ErrBadVersion"
  using stream_header_errors [of "header_source [1, 7]" 0 1 "[7]" 0]
  by (simp add: header_source_def src_bytes_def StreamVersion_def)

end
