(* ===== verification/Payload_Frames.thy ===== *)
theory Payload_Frames
  imports Stream_Header "HOL-Library.Sublist"
begin

text \<open>
  internal/protocol/frame.go: the payload framing of a data stream. \<open>FrameWriter\<close> wraps
  each write in a data frame and turns the end of a direction into a marker byte;
  \<open>FrameReader\<close> decodes that, one bounded read at a time. \<open>frame_copy\<close> is the \<open>io.Copy\<close>
  loop both ends drive the reader with, \<open>decode_payload\<close> the format it implements: a
  function of the bytes alone, blind to how the transport and the buffer cut them.
\<close>

definition frameData :: byte where "frameData = 0"
definition frameEOF :: byte where "frameEOF = 1"

definition maxFrameLen :: nat where
  "maxFrameLen = 2 ^ 20"

section \<open>FrameWriter\<close>

record frame_writer =
  fw_w :: sink
  fw_eof :: bool

datatype write_error = IOError io_error | IndexOutOfRange

definition NewFrameWriter :: "sink \<Rightarrow> frame_writer" where
  "NewFrameWriter w = \<lparr>fw_w = w, fw_eof = False\<rparr>"

definition data_frame :: "byte list \<Rightarrow> byte list" where
  "data_frame p = frameData # put_uvarint (of_nat (length p)) @ p"

text \<open>The header buffer holds five length bytes; a longer varint would panic.\<close>

definition fw_write :: "byte list \<Rightarrow> frame_writer \<Rightarrow> (write_error + nat) \<times> frame_writer" where
  "fw_write p f =
     (if p = [] then (Inr 0, f)
      else if fw_eof f then (Inl (IOError ClosedPipe), f)
      else if 5 < length (put_uvarint (of_nat (length p))) then (Inl IndexOutOfRange, f)
      else (case sink_write (data_frame p) (fw_w f) of
              (Some e, w) \<Rightarrow> (Inl (IOError e), f\<lparr>fw_w := w\<rparr>)
            | (None, w) \<Rightarrow> (Inr (length p), f\<lparr>fw_w := w\<rparr>)))"

definition CloseWrite :: "frame_writer \<Rightarrow> io_error option \<times> frame_writer" where
  "CloseWrite f =
     (if fw_eof f then (None, f)
      else (case sink_write [frameEOF] (fw_w f) of
              (e, w) \<Rightarrow> (e, f\<lparr>fw_eof := True, fw_w := w\<rparr>)))"

text \<open>A whole direction: the chunks an \<open>io.Copy\<close> hands to the writer, then \<open>CloseWrite\<close>,
  stopping at the first write that fails (\<open>CloseWrite\<close> is attempted all the same).\<close>

fun write_all :: "byte list list \<Rightarrow> frame_writer \<Rightarrow> write_error option \<times> frame_writer" where
  "write_all [] f = (None, f)"
| "write_all (p # ps) f =
     (case fw_write p f of (Inl e, f') \<Rightarrow> (Some e, f') | (Inr _, f') \<Rightarrow> write_all ps f')"

definition send_direction :: "byte list list \<Rightarrow> frame_writer \<Rightarrow> frame_writer" where
  "send_direction ps f = snd (CloseWrite (snd (write_all ps f)))"

section \<open>FrameReader\<close>

record frame_reader =
  fr_r :: source
  fr_remain :: nat
  fr_eof :: bool

definition NewFrameReader :: "source \<Rightarrow> frame_reader" where
  "NewFrameReader r = \<lparr>fr_r = r, fr_remain = 0, fr_eof = False\<rparr>"

text \<open>The body of the \<open>for f.remain == 0\<close> loop. It either returns or leaves a positive
  \<open>remain\<close>, so the loop runs it at most once.\<close>

definition next_frame :: "frame_reader \<Rightarrow> io_error option \<times> frame_reader" where
  "next_frame f =
     (case read_byte (fr_r f) of
        (Inl e, r) \<Rightarrow> (Some e, f\<lparr>fr_r := r\<rparr>)
      | (Inr typ, r) \<Rightarrow>
          if typ = frameEOF then (Some EOF, f\<lparr>fr_r := r, fr_eof := True\<rparr>)
          else if typ \<noteq> frameData then (Some ErrBadFrame, f\<lparr>fr_r := r\<rparr>)
          else (case read_uvarint read_byte r of
                  (Inl e, r') \<Rightarrow> (Some e, f\<lparr>fr_r := r'\<rparr>)
                | (Inr n, r') \<Rightarrow>
                    if n = 0 \<or> of_nat maxFrameLen < n then (Some ErrBadFrame, f\<lparr>fr_r := r'\<rparr>)
                    else (None, f\<lparr>fr_r := r', fr_remain := unat n\<rparr>)))"

definition fr_read :: "nat \<Rightarrow> frame_reader \<Rightarrow> (byte list \<times> io_error option) \<times> frame_reader" where
  "fr_read k f =
     (if fr_eof f then (([], Some EOF), f)
      else (case (if fr_remain f = 0 then next_frame f else (None, f)) of
              (Some e, f') \<Rightarrow> (([], Some e), f')
            | (None, f') \<Rightarrow>
                (case src_read (min k (fr_remain f')) (fr_r f') of
                   ((bs, err), r) \<Rightarrow>
                     (let left = fr_remain f' - length bs
                      in ((bs, if err = Some EOF \<and> 0 < left then Some UnexpectedEOF else err),
                          f'\<lparr>fr_r := r, fr_remain := left\<rparr>)))))"

text \<open>\<open>io.Copy\<close> from the reader through a buffer of \<open>k\<close> bytes, into a destination that
  accepts everything: what is copied, and the error, \<open>io.EOF\<close> being none.\<close>

definition copy_end :: "io_error \<Rightarrow> io_error option" where
  "copy_end e = (if e = EOF then None else Some e)"

partial_function (option) frame_copy ::
  "nat \<Rightarrow> frame_reader \<Rightarrow> (byte list \<times> io_error option) option" where
  "frame_copy k f =
     (case fr_read k f of
        ((bs, Some e), _) \<Rightarrow> Some (bs, copy_end e)
      | ((bs, None), f') \<Rightarrow>
          Option.bind (frame_copy k f') (\<lambda>(out, err). Some (bs @ out, err)))"

section \<open>The format\<close>

function decode_payload :: "io_error \<Rightarrow> byte list \<Rightarrow> byte list \<times> io_error option" where
  "decode_payload e [] = ([], copy_end e)"
| "decode_payload e (t # bs) =
     (if t = frameEOF then ([], None)
      else if t \<noteq> frameData then ([], Some ErrBadFrame)
      else (case read_uvarint list_byte (bs, e) of
              (Inl x, _) \<Rightarrow> ([], copy_end x)
            | (Inr n, rest) \<Rightarrow>
                if n = 0 \<or> of_nat maxFrameLen < n then ([], Some ErrBadFrame)
                else if length (fst rest) < unat n
                then (fst rest, Some (if e = EOF then UnexpectedEOF else e))
                else (case decode_payload e (drop (unat n) (fst rest)) of
                        (out, err) \<Rightarrow> (take (unat n) (fst rest) @ out, err))))"
  by pat_completeness auto
termination
  by (relation "measure (\<lambda>(e, bs). length bs)")
     (auto dest!: sym [of _ "read_uvarint _ _"] read_uvarint_shrinks)

declare decode_payload.simps(2) [simp del]

text \<open>What is left to decode when \<open>r\<close> bytes of a data frame are still to come.\<close>

definition decode_from :: "nat \<Rightarrow> io_error \<Rightarrow> byte list \<Rightarrow> byte list \<times> io_error option" where
  "decode_from r e bs =
     (if length bs < r then (bs, Some (if e = EOF then UnexpectedEOF else e))
      else (case decode_payload e (drop r bs) of (out, err) \<Rightarrow> (take r bs @ out, err)))"

lemma decode_from_0 [simp]: "decode_from 0 e bs = decode_payload e bs"
  by (simp add: decode_from_def)

section \<open>The reader implements the format\<close>

lemma decode_payload_frame:
  "read_uvarint list_byte (bs, e) = (Inr n, (bs', e')) \<Longrightarrow> n \<noteq> 0 \<Longrightarrow> \<not> of_nat maxFrameLen < n \<Longrightarrow>
     decode_payload e (frameData # bs) = decode_from (unat n) e bs'"
  by (simp add: decode_payload.simps(2) decode_from_def frameData_def frameEOF_def)

lemma uvarint_loop_size:
  "src_size (snd (uvarint_loop read_byte k x r)) \<le> src_size r"
proof (induction k arbitrary: x r)
  case 0
  then show ?case by simp
next
  case (Suc k)
  obtain b r' where r: "read_byte r = (b, r')" by (metis surj_pair)
  then have "src_size r' \<le> src_size r" using read_byte_spec [of r] by simp
  then show ?case
    using r Suc.IH [of _ r'] by (cases b) (auto simp: Let_def intro: order_trans)
qed

lemma read_uvarint_source:
  obtains r' where "read_uvarint read_byte r = (fst (read_uvarint list_byte (src_bytes r, final_err r)), r')"
    and "src_bytes r' = fst (snd (read_uvarint list_byte (src_bytes r, final_err r)))"
    and "final_err r' = final_err r" and "src_size r' \<le> src_size r"
proof -
  obtain x bs e where l: "read_uvarint list_byte (src_bytes r, final_err r) = (x, (bs, e))"
    by (metis surj_pair)
  from src_rd.read_uvarint_list [OF l] obtain r' where
    r': "read_uvarint read_byte r = (x, r')" "src_bytes r' = bs" "final_err r' = e" by blast
  moreover have "e = final_err r" using read_uvarint_shrinks [OF l] by simp
  moreover have "src_size r' \<le> src_size r"
    using r'(1) uvarint_loop_size [of 10 0 r] by (simp add: read_uvarint_def)
  ultimately show ?thesis using that l by simp
qed

definition reader_rest :: "frame_reader \<Rightarrow> byte list \<times> io_error option" where
  "reader_rest f =
     (if fr_eof f then ([], None)
      else decode_from (fr_remain f) (final_err (fr_r f)) (src_bytes (fr_r f)))"

lemma next_frame_rest:
  assumes "\<not> fr_eof f" "fr_remain f = 0" "next_frame f = (err, f')"
  shows "case err of
      Some x \<Rightarrow> reader_rest f = ([], copy_end x)
    | None \<Rightarrow> reader_rest f' = reader_rest f \<and> 0 < fr_remain f' \<and> \<not> fr_eof f' \<and>
              src_size (fr_r f') \<le> src_size (fr_r f)"
proof -
  let ?e = "final_err (fr_r f)"
  obtain t r where t: "read_byte (fr_r f) = (t, r)" by (metis surj_pair)
  have r: "final_err r = ?e" "src_size r \<le> src_size (fr_r f)"
      "t = (case src_bytes (fr_r f) of [] \<Rightarrow> Inl ?e | b # _ \<Rightarrow> Inr b)"
      "src_bytes r = tl (src_bytes (fr_r f))"
    using read_byte_spec [of "fr_r f"] t by auto
  show ?thesis
  proof (cases "src_bytes (fr_r f)")
    case Nil
    with assms t r show ?thesis by (auto simp: next_frame_def reader_rest_def)
  next
    case (Cons b bs)
    obtain r' where u: "read_uvarint read_byte r = (fst (read_uvarint list_byte (bs, ?e)), r')"
        "src_bytes r' = fst (snd (read_uvarint list_byte (bs, ?e)))"
        "final_err r' = ?e" "src_size r' \<le> src_size r"
      using read_uvarint_source [of r] r Cons by auto
    obtain n bs' e' where n: "read_uvarint list_byte (bs, ?e) = (n, (bs', e'))"
      by (metis surj_pair)
    show ?thesis
    proof (cases "b = frameData \<and> (\<exists>x. n = Inr x \<and> x \<noteq> 0 \<and> \<not> of_nat maxFrameLen < x)")
      case True
      then obtain x where x: "b = frameData" "n = Inr x" "x \<noteq> 0" "\<not> of_nat maxFrameLen < x"
        by blast
      have "reader_rest f = decode_from (unat x) ?e bs'"
        using decode_payload_frame [of bs ?e x bs' e'] x n assms Cons
        by (simp add: reader_rest_def)
      then show ?thesis
        using assms t r u n x Cons
        by (auto simp: next_frame_def reader_rest_def frameData_def frameEOF_def unat_gt_0)
    next
      case False
      then show ?thesis
        using assms t r u n Cons
        by (auto simp: next_frame_def reader_rest_def decode_payload.simps(2) copy_end_def
            split: if_splits sum.splits)
    qed
  qed
qed

lemma src_read_mid:
  assumes "0 < r" "src_read (min k r) s = ((bs, err), s')" "0 < k"
  shows "decode_from r (final_err s) (src_bytes s) =
      (case err of
         None \<Rightarrow> (case decode_from (r - length bs) (final_err s') (src_bytes s') of
                   (out, x) \<Rightarrow> (bs @ out, x))
       | Some x \<Rightarrow> (bs, copy_end (if x = EOF \<and> length bs < r then UnexpectedEOF else x))) \<and>
    final_err s' = final_err s \<and> length bs \<le> r \<and>
    (err = None \<longrightarrow> src_size s' < src_size s)"
proof -
  have f: "final_err s' = final_err s" "src_bytes s = bs @ src_bytes s'" "length bs \<le> r"
      "err = Some x \<Longrightarrow> x = final_err s \<and> src_bytes s' = []" 
      "err = None \<Longrightarrow> src_size s' < src_size s" for x
    using assms src_read_final [of "min k r" s] src_read_bytes [of s "min k r"]
      src_read_length [of "min k r" s] src_read_error [of "min k r" s]
      src_read_size_less [of "min k r" s] by auto
  show ?thesis
  proof (cases err)
    case None
    with f show ?thesis by (auto simp: decode_from_def split: prod.split)
  next
    case (Some x)
    with f show ?thesis by (auto simp: decode_from_def copy_end_def)
  qed
qed

lemma fr_read_rest:
  assumes "0 < k" "fr_read k f = ((bs, err), f')"
  shows "case err of
      Some x \<Rightarrow> reader_rest f = (bs, copy_end x)
    | None \<Rightarrow> reader_rest f = (case reader_rest f' of (out, x) \<Rightarrow> (bs @ out, x)) \<and>
              src_size (fr_r f') < src_size (fr_r f)"
proof (cases "fr_eof f")
  case True
  with assms show ?thesis by (auto simp: fr_read_def reader_rest_def copy_end_def)
next
  case False
  obtain err1 f1 where f1: "(if fr_remain f = 0 then next_frame f else (None, f)) = (err1, f1)"
    by (metis surj_pair)
  show ?thesis
  proof (cases err1)
    case (Some x)
    with False f1 assms next_frame_rest [of f err1 f1] show ?thesis
      by (auto simp: fr_read_def split: if_splits)
  next
    case None
    have g: "reader_rest f1 = reader_rest f" "0 < fr_remain f1" "\<not> fr_eof f1"
        "src_size (fr_r f1) \<le> src_size (fr_r f)"
      using False f1 None next_frame_rest [of f err1 f1] by (auto split: if_splits)
    obtain bs1 err2 s' where s: "src_read (min k (fr_remain f1)) (fr_r f1) = ((bs1, err2), s')"
      by (metis surj_pair)
    have "bs = bs1" "f' = f1\<lparr>fr_r := s', fr_remain := fr_remain f1 - length bs1\<rparr>"
        "err = (if err2 = Some EOF \<and> length bs1 < fr_remain f1 then Some UnexpectedEOF else err2)"
      using assms False f1 None s by (auto simp: fr_read_def Let_def split: if_splits)
    with src_read_mid [OF g(2) s assms(1)] g show ?thesis
      by (auto simp: reader_rest_def split: option.splits prod.splits)
  qed
qed

lemma frame_copy_rest: "0 < k \<Longrightarrow> frame_copy k f = Some (reader_rest f)"
proof (induction "src_size (fr_r f)" arbitrary: f rule: less_induct)
  case less
  obtain bs err f' where r: "fr_read k f = ((bs, err), f')" by (metis surj_pair)
  note * = fr_read_rest [OF less.prems r]
  show ?case
  proof (cases err)
    case None
    with * less have "frame_copy k f' = Some (reader_rest f')" by simp
    with * r None show ?thesis by (subst frame_copy.simps) (auto split: prod.splits)
  next
    case (Some x)
    with * r show ?thesis by (subst frame_copy.simps) simp
  qed
qed

section \<open>Encoding and decoding\<close>

definition frames_of :: "byte list list \<Rightarrow> byte list" where
  "frames_of ps = concat (map data_frame (filter (\<lambda>p. p \<noteq> []) ps))"

definition frame_sized :: "byte list \<Rightarrow> bool" where
  "frame_sized p \<longleftrightarrow> length p \<le> maxFrameLen"

lemma frames_of_simps [wire_simps]:
  "frames_of [] = []"
  "frames_of (p # ps) = (if p = [] then [] else data_frame p) @ frames_of ps"
  by (simp_all add: frames_of_def)

lemma length_word:
  assumes "length p < 2 ^ 64"
  shows "unat (of_nat (length p) :: 64 word) = length p"
  using assms by (simp add: unat_of_nat take_bit_eq_mod)

lemma length_word_nonzero:
  "p \<noteq> [] \<Longrightarrow> length p < 2 ^ 64 \<Longrightarrow> (of_nat (length p) :: 64 word) \<noteq> 0"
  using length_word [of p] by (metis length_0_conv unat_0)

lemma frame_length_ok:
  assumes "frame_sized p" "p \<noteq> []"
  shows "unat (of_nat (length p) :: 64 word) = length p"
    "(of_nat (length p) :: 64 word) \<noteq> 0"
    "\<not> of_nat maxFrameLen < (of_nat (length p) :: 64 word)"
    "length (put_uvarint (of_nat (length p))) \<le> 3"
proof -
  have p: "length p \<le> 1048576" using assms(1) by (simp add: frame_sized_def maxFrameLen_def)
  then show u: "unat (of_nat (length p) :: 64 word) = length p" by (intro length_word) simp
  show "(of_nat (length p) :: 64 word) \<noteq> 0" using assms(2) p by (intro length_word_nonzero) auto
  show "\<not> of_nat maxFrameLen < (of_nat (length p) :: 64 word)"
    using p u by (simp add: word_less_nat_alt maxFrameLen_def)
  have "unat (of_nat (length p) :: 64 word) < 2 ^ (7 * Suc 2)" using p u by simp
  from length_put_uvarint [OF this] show "length (put_uvarint (of_nat (length p))) \<le> 3" by simp
qed

lemma decode_data_frame:
  assumes "frame_sized p" "p \<noteq> []"
  shows "decode_payload e (data_frame p @ rest) = (case decode_payload e rest of (out, x) \<Rightarrow> (p @ out, x))"
  using decode_payload_frame [of "put_uvarint (of_nat (length p)) @ p @ rest" e "of_nat (length p)"
      "p @ rest" e] frame_length_ok [OF assms]
  by (simp add: data_frame_def decode_from_def read_put_uvarint)

lemma decode_frames_of:
  "\<forall>p \<in> set ps. frame_sized p \<Longrightarrow>
     decode_payload e (frames_of ps @ rest) = (case decode_payload e rest of (out, x) \<Rightarrow> (concat ps @ out, x))"
  by (induction ps) (auto simp: wire_simps decode_data_frame split: prod.splits)

lemma decode_marker [simp]: "decode_payload e (frameEOF # rest) = ([], None)"
  by (simp add: decode_payload.simps(2))

lemma fw_write_ok:
  assumes "frame_sized p" "room (fw_w f) = None" "\<not> fw_eof f"
  shows "\<exists>f'. fw_write p f = (Inr (length p), f') \<and> room (fw_w f') = None \<and> \<not> fw_eof f' \<and>
    sink_bytes (fw_w f') = sink_bytes (fw_w f) @ frames_of [p]"
  using assms frame_length_ok(4) [of p]
  by (cases "p = []") (auto simp: fw_write_def sink_write_def sink_bytes_def wire_simps)

lemma write_all_ok:
  "\<forall>p \<in> set ps. frame_sized p \<Longrightarrow> room (fw_w f) = None \<Longrightarrow> \<not> fw_eof f \<Longrightarrow>
     \<exists>f'. write_all ps f = (None, f') \<and> room (fw_w f') = None \<and> \<not> fw_eof f' \<and>
       sink_bytes (fw_w f') = sink_bytes (fw_w f) @ frames_of ps"
proof (induction ps arbitrary: f)
  case Nil
  then show ?case by (simp add: wire_simps)
next
  case (Cons p ps)
  obtain f1 where f1: "fw_write p f = (Inr (length p), f1)" "room (fw_w f1) = None" "\<not> fw_eof f1"
      "sink_bytes (fw_w f1) = sink_bytes (fw_w f) @ frames_of [p]"
    using fw_write_ok [of p f] Cons.prems by auto
  with Cons.IH [of f1] Cons.prems show ?case by (auto simp: wire_simps)
qed

lemma send_direction_bytes:
  assumes "\<forall>p \<in> set ps. frame_sized p" "room w = None"
  shows "sink_bytes (fw_w (send_direction ps (NewFrameWriter w))) =
    sink_bytes w @ frames_of ps @ [frameEOF]"
proof -
  obtain f' where "write_all ps (NewFrameWriter w) = (None, f')" "room (fw_w f') = None"
      "\<not> fw_eof f'" "sink_bytes (fw_w f') = sink_bytes w @ frames_of ps"
    using write_all_ok [OF assms(1), of "NewFrameWriter w"] assms(2) by (auto simp: NewFrameWriter_def)
  then show ?thesis
    by (simp add: send_direction_def CloseWrite_def sink_write_def sink_bytes_def)
qed

section \<open>A stream that dies\<close>

lemma decode_type_byte [simp]: "decode_payload e [frameData] = ([], copy_end e)"
proof -
  have ten: "(10 :: nat) = Suc 9" by simp
  have "read_uvarint list_byte ([], e) = (Inl e, ([], e))"
    by (simp only: read_uvarint_def ten uvarint_loop.simps list_byte.simps) simp
  then show ?thesis by (simp add: decode_payload.simps(2) frameData_def frameEOF_def)
qed

lemma decode_cut_varint:
  assumes "put_uvarint n = p @ q" "q \<noteq> []" "p \<noteq> []"
  shows "\<exists>x. x \<noteq> EOF \<and> decode_payload EOF (frameData # p) = ([], Some x)"
proof -
  have ten: "(10 :: nat) = Suc 9" by simp
  have "\<exists>x s. x \<noteq> EOF \<and> read_uvarint list_byte (p, EOF) = (Inl x, s)"
    using uvarint_loop_prefix [of 9 n p q 0 EOF] assms unfolding read_uvarint_def ten
    by (cases "uvarint_loop list_byte (Suc 9) 0 (p, EOF)") auto
  then show ?thesis
    by (auto simp: decode_payload.simps(2) frameData_def frameEOF_def copy_end_def)
qed

lemma decode_cut_frame:
  assumes "frame_sized p" "p \<noteq> []" "data_frame p = c @ q" "q \<noteq> []"
  shows "c = [] \<or> c = [frameData] \<or>
    (\<exists>d x. decode_payload EOF c = (d, Some x) \<and> x \<noteq> EOF \<and> prefix d p)"
proof (cases c)
  case Nil
  then show ?thesis by simp
next
  case (Cons t v)
  let ?n = "of_nat (length p) :: 64 word"
  from Cons assms(3) have t: "t = frameData" and v: "put_uvarint ?n @ p = v @ q"
    by (auto simp: data_frame_def)
  have whole_varint: ?thesis if "v = put_uvarint ?n @ us" "p = us @ q" for us
  proof -
    have "decode_payload EOF c = (us, Some UnexpectedEOF)"
      using decode_payload_frame [of v EOF ?n us EOF] frame_length_ok [OF assms(1,2)]
        assms(4) Cons t that
      by (simp add: decode_from_def read_put_uvarint)
    with that show ?thesis by auto
  qed
  from v show ?thesis
  proof (cases rule: append_split)
    case (inside us)
    with decode_cut_varint [of ?n v us] Cons t show ?thesis by (cases "v = []") auto
  next
    case (beyond us)
    then show ?thesis by (rule whole_varint)
  qed
qed

lemma decode_cut:
  assumes "\<forall>p \<in> set ps. frame_sized p" "frames_of ps @ [frameEOF] = c @ q"
    "decode_payload EOF c = (d, err)"
  shows "prefix d (concat ps) \<and>
    (err = None \<longrightarrow> (\<exists>qs. prefix qs ps \<and> d = concat qs))"
  using assms
proof (induction ps arbitrary: c d)
  case Nil
  then show ?case by (cases c) (auto simp: wire_simps copy_end_def split: if_splits)
next
  case (Cons p ps)
  show ?case
  proof (cases "p = []")
    case True
    have "prefix d (concat ps) \<and> (err = None \<longrightarrow> (\<exists>qs. prefix qs ps \<and> d = concat qs))"
      using Cons.IH [OF _ _ Cons.prems(3)] Cons.prems(1,2) True by (simp add: wire_simps)
    moreover have "\<exists>qs'. prefix qs' (p # ps) \<and> d = concat qs'" if "prefix qs ps" "d = concat qs" for qs
      using that True by (intro exI [of _ "p # qs"]) simp
    ultimately show ?thesis using True by auto
  next
    case False
    then have "data_frame p @ frames_of ps @ [frameEOF] = c @ q"
      using Cons.prems(2) by (simp add: wire_simps)
    then show ?thesis
    proof (cases rule: append_split)
      case (inside us)
      then show ?thesis
        using decode_cut_frame [of p c us] Cons.prems(1,3) False
        by (auto simp: copy_end_def intro!: exI [of _ "[]"])
    next
      case (beyond us)
      obtain d' where d': "decode_payload EOF us = (d', err)" "d = p @ d'"
        using beyond decode_data_frame [of p EOF us] Cons.prems(1,3) False
        by (auto split: prod.splits)
      have "prefix d' (concat ps) \<and> (err = None \<longrightarrow> (\<exists>qs. prefix qs ps \<and> d' = concat qs))"
        using Cons.IH [OF _ beyond(2) d'(1)] Cons.prems(1) by simp
      moreover have "\<exists>qs'. prefix qs' (p # ps) \<and> p @ d' = concat qs'"
        if "prefix qs ps" "d' = concat qs" for qs
        using that by (intro exI [of _ "p # qs"]) simp
      ultimately show ?thesis using d'(2) by auto
    qed
  qed
qed

section \<open>Properties\<close>

text \<open>C17: decoding is a function of the bytes on the wire alone. Whatever pieces the transport
  delivers, empty reads and early errors included, and whatever the size of the copy buffer, the
  copy loop over a \<open>FrameReader\<close> terminates and returns what the reference decoder returns.\<close>

theorem frame_copy_decodes:
  "0 < k \<Longrightarrow> frame_copy k (NewFrameReader r) = Some (decode_payload (final_err r) (src_bytes r))"
  using frame_copy_rest [of k "NewFrameReader r"] by (simp add: NewFrameReader_def reader_rest_def)

definition sample_source :: source where
  "sample_source = \<lparr>pending = [[0], [], [2, 7], [9, 1]], final_err = EOF, eager = True\<rparr>"

theorem frame_copy_decodes_witness:
  "(0 :: nat) < 3 \<and>
   frame_copy 3 (NewFrameReader sample_source) =
     Some (decode_payload (final_err sample_source) (src_bytes sample_source))"
  using frame_copy_decodes [of 3 sample_source] by simp

text \<open>C18: one direction of a stream is transparent. The bytes one side copies into a
  \<open>FrameWriter\<close> and ends with \<open>CloseWrite\<close>, in chunks of at most 1 MiB, are exactly the bytes
  the other side's copy loop produces, followed by a clean end, whatever follows the marker.\<close>

theorem payload_roundtrip:
  assumes "\<forall>p \<in> set ps. frame_sized p" and "room w = None" and "sink_bytes w = []" and "0 < k"
    and "src_bytes r = sink_bytes (fw_w (send_direction ps (NewFrameWriter w))) @ rest"
  shows "frame_copy k (NewFrameReader r) = Some (concat ps, None)"
  using frame_copy_rest [OF assms(4), of "NewFrameReader r"] assms(3,5)
    send_direction_bytes [OF assms(1,2)] decode_frames_of [OF assms(1)]
  by (simp add: NewFrameReader_def reader_rest_def)

definition empty_sink :: sink where
  "empty_sink = \<lparr>written = [], room = None\<rparr>"

theorem payload_roundtrip_witness:
  "\<exists>r. src_bytes r = sink_bytes (fw_w (send_direction [[1, 2], [3]] (NewFrameWriter empty_sink))) @ [] \<and>
     frame_copy 1 (NewFrameReader r) = Some ([1, 2, 3], None)"
proof -
  let ?r = "header_source (sink_bytes (fw_w (send_direction [[1, 2], [3]] (NewFrameWriter empty_sink))))"
  have r: "src_bytes ?r = sink_bytes (fw_w (send_direction [[1, 2], [3]] (NewFrameWriter empty_sink))) @ []"
    by (simp add: header_source_def src_bytes_def)
  have "\<forall>p \<in> set [[1, 2], [3]]. frame_sized p" "room empty_sink = None" "sink_bytes empty_sink = []"
    by (simp_all add: frame_sized_def maxFrameLen_def empty_sink_def sink_bytes_def)
  from payload_roundtrip [OF this _ r, of 1] r show ?thesis by (intro exI [of _ ?r]) simp
qed

text \<open>A stream that dies is never mistaken for data. If the transport ends anywhere inside an
  encoded direction, the copy yields a prefix of the data that was sent, and it reports a clean
  end only after whole chunks, never in the middle of one.\<close>

theorem truncated_payload:
  assumes "\<forall>p \<in> set ps. frame_sized p" and "0 < k" and "final_err r = EOF"
    and "frames_of ps @ [frameEOF] = src_bytes r @ lost"
  shows "\<exists>d err. frame_copy k (NewFrameReader r) = Some (d, err) \<and> prefix d (concat ps) \<and>
    (err = None \<longrightarrow> (\<exists>qs. prefix qs ps \<and> d = concat qs))"
proof -
  obtain d err where "decode_payload EOF (src_bytes r) = (d, err)" by (metis surj_pair)
  with decode_cut [OF assms(1,4) this] frame_copy_rest [OF assms(2), of "NewFrameReader r"] assms(3)
  show ?thesis by (auto simp: NewFrameReader_def reader_rest_def)
qed

definition cut_source :: source where
  "cut_source = \<lparr>pending = [[0, 2], [7]], final_err = EOF, eager = False\<rparr>"

theorem truncated_payload_witness:
  "\<exists>d err. frame_copy 8 (NewFrameReader cut_source) = Some (d, err) \<and> prefix d [7, 9]"
proof -
  have "frames_of [[7, 9]] @ [frameEOF] = src_bytes cut_source @ [9, 1]"
    by (simp add: frames_of_def data_frame_def frameData_def frameEOF_def put_uvarint.simps
        cut_source_def src_bytes_def)
  moreover have "\<forall>p \<in> set [[7, 9]]. frame_sized p"
    by (simp add: frame_sized_def maxFrameLen_def)
  moreover have "final_err cut_source = EOF" by (simp add: cut_source_def)
  ultimately show ?thesis using truncated_payload [of "[[7, 9]]" 8 cut_source "[9, 1]"] by auto
qed

text \<open>C40: two departures from the comments of frame.go. A transport that ends right after a frame's
  type byte is reported as a clean end of data, and bytes that arrive after the end marker are
  dropped in silence instead of being reported as a malformed frame.\<close>

theorem clean_ends_of_broken_streams:
  assumes "0 < k"
  shows "(src_bytes r = [frameData] \<and> final_err r = EOF \<longrightarrow>
      frame_copy k (NewFrameReader r) = Some ([], None)) \<and>
    (src_bytes r = frameEOF # trailing \<longrightarrow> frame_copy k (NewFrameReader r) = Some ([], None))"
  using frame_copy_rest [OF assms, of "NewFrameReader r"]
  by (auto simp: NewFrameReader_def reader_rest_def copy_end_def)

theorem clean_ends_of_broken_streams_witness:
  "frame_copy 4 (NewFrameReader (header_source [frameData])) = Some ([], None) \<and>
   frame_copy 4 (NewFrameReader (header_source [frameEOF, 0, 0])) = Some ([], None)"
  using clean_ends_of_broken_streams [of 4 "header_source [frameData]" "[]"]
    clean_ends_of_broken_streams [of 4 "header_source [frameEOF, 0, 0]" "[0, 0]"]
  by (simp add: header_source_def src_bytes_def)

text \<open>The writer does not enforce the bound the reader checks. One write of more than 1 MiB is
  accepted and reported as sent in full, and the peer refuses its frame without delivering a byte
  of it.\<close>

theorem oversized_write_is_lost:
  assumes "maxFrameLen < length p" and "length p < 2 ^ 32" and "room w = None" and "sink_bytes w = []"
    and "src_bytes r = sink_bytes (fw_w (snd (fw_write p (NewFrameWriter w))))" and "0 < k"
  shows "fst (fw_write p (NewFrameWriter w)) = Inr (length p) \<and>
    frame_copy k (NewFrameReader r) = Some ([], Some ErrBadFrame)"
proof -
  let ?n = "of_nat (length p) :: 64 word"
  have u: "unat ?n = length p" using assms(2) by (intro length_word) simp
  have ne: "p \<noteq> []" using assms(1) by auto
  have "length (put_uvarint ?n) \<le> Suc 4" by (rule length_put_uvarint) (use assms(2) u in simp)
  then have w: "fw_write p (NewFrameWriter w) =
      (Inr (length p), (NewFrameWriter w)\<lparr>fw_w := w\<lparr>written := written w @ [data_frame p]\<rparr>\<rparr>)"
    using ne assms(3) by (simp add: fw_write_def NewFrameWriter_def sink_write_def)
  have "of_nat maxFrameLen < ?n"
    using assms(1) u by (simp add: word_less_nat_alt maxFrameLen_def)
  then have "decode_payload (final_err r) (data_frame p) = ([], Some ErrBadFrame)"
    by (simp add: data_frame_def decode_payload.simps(2) read_put_uvarint frameData_def frameEOF_def)
  moreover have "src_bytes r = data_frame p"
    using assms(4,5) w by (simp add: sink_bytes_def NewFrameWriter_def)
  ultimately show ?thesis
    using frame_copy_rest [OF assms(6), of "NewFrameReader r"] w
    by (simp add: NewFrameReader_def reader_rest_def)
qed

theorem oversized_write_is_lost_witness:
  "\<exists>r. frame_copy 32768 (NewFrameReader r) = Some ([], Some ErrBadFrame) \<and>
     fst (fw_write (replicate (Suc maxFrameLen) 7) (NewFrameWriter empty_sink)) = Inr (Suc maxFrameLen)"
proof -
  let ?p = "replicate (Suc maxFrameLen) (7 :: byte)"
  let ?r = "header_source (sink_bytes (fw_w (snd (fw_write ?p (NewFrameWriter empty_sink)))))"
  have "maxFrameLen < length ?p" "length ?p < 2 ^ 32"
    "room empty_sink = None" "sink_bytes empty_sink = []"
    by (simp_all add: maxFrameLen_def empty_sink_def sink_bytes_def del: replicate_Suc)
  moreover have "src_bytes ?r = sink_bytes (fw_w (snd (fw_write ?p (NewFrameWriter empty_sink))))"
    by (simp add: header_source_def src_bytes_def del: replicate_Suc)
  ultimately show ?thesis
    using oversized_write_is_lost [of ?p empty_sink ?r 32768]
    by (intro exI [of _ ?r]) (simp del: replicate_Suc)
qed

end
