(* ===== verification/Control_Messages.thy ===== *)
theory Control_Messages
  imports Tunnel_Prelude
begin

text \<open>
  internal/protocol/message.go: the node configuration the server pushes, the telemetry
  record and the union of the control messages. An absent \<open>omitempty\<close> field is the zero
  value of its type, a nil pointer is \<open>None\<close>. JSON encoding is the library's.
\<close>

record node_config =
  Ports :: "(string \<times> string) list"
  Channels :: int
  Heartbeat :: duration
  DialTimeout :: duration
  MaxStreamsPerConn :: int

text \<open>A Go map index of a missing key is the zero value of the element type.\<close>

definition map_index :: "(string \<times> string) list \<Rightarrow> string \<Rightarrow> string" where
  "map_index m k = (case map_of m k of None \<Rightarrow> '''' | Some v \<Rightarrow> v)"

definition NodeConfig_Equal :: "node_config option \<Rightarrow> node_config option \<Rightarrow> bool" where
  "NodeConfig_Equal c d =
     (case (c, d) of
        (Some a, Some b) \<Rightarrow>
          (if Channels a \<noteq> Channels b \<or> Heartbeat a \<noteq> Heartbeat b \<or>
              DialTimeout a \<noteq> DialTimeout b \<or> MaxStreamsPerConn a \<noteq> MaxStreamsPerConn b
           then False
           else if length (Ports a) \<noteq> length (Ports b) then False
           else list_all (\<lambda>(k, v). map_index (Ports b) k = v) (Ports a))
      | (None, None) \<Rightarrow> True
      | _ \<Rightarrow> False)"

record client_stats =
  cs_channels :: int
  cs_streams :: int
  cs_bytes_in :: int
  cs_bytes_out :: int
  cs_local_dial_errors :: int

record message =
  m_type :: string
  m_role :: string
  m_node :: string
  m_key :: string
  m_session :: string
  m_heartbeat :: duration
  m_channels :: int
  m_channel_id :: int
  m_config :: "node_config option"
  m_nonce :: string
  m_ts :: int
  m_stats :: "client_stats option"
  m_deadline :: "time option"
  m_reason :: string
  m_code :: string
  m_msg :: string
  m_ref :: string

definition zero_message :: message where
  "zero_message = \<lparr>m_type = '''', m_role = '''', m_node = '''', m_key = '''', m_session = '''',
     m_heartbeat = 0, m_channels = 0, m_channel_id = 0, m_config = None, m_nonce = '''', m_ts = 0,
     m_stats = None, m_deadline = None, m_reason = '''', m_code = '''', m_msg = '''', m_ref = ''''\<rparr>"

text \<open>The message types, roles and error codes of the wire.\<close>

abbreviation "TypeHello \<equiv> ''hello''"
abbreviation "TypeWelcome \<equiv> ''welcome''"
abbreviation "TypeReloadConfig \<equiv> ''reload_config''"
abbreviation "TypePing \<equiv> ''ping''"
abbreviation "TypePong \<equiv> ''pong''"
abbreviation "TypeStats \<equiv> ''stats''"
abbreviation "TypeDrain \<equiv> ''drain''"
abbreviation "TypeBye \<equiv> ''bye''"
abbreviation "TypeError \<equiv> ''error''"

abbreviation "RoleControl \<equiv> ''control''"
abbreviation "RoleData \<equiv> ''data''"

abbreviation "CodeAuthFailed \<equiv> ''auth_failed''"
abbreviation "CodeNodeBusy \<equiv> ''node_busy''"
abbreviation "CodeBadSession \<equiv> ''bad_session''"
abbreviation "CodeBadRequest \<equiv> ''bad_request''"
abbreviation "CodeInternal \<equiv> ''internal''"

definition Errorf :: "string \<Rightarrow> string \<Rightarrow> message" where
  "Errorf code msg = zero_message\<lparr>m_type := TypeError, m_code := code, m_msg := msg\<rparr>"

section \<open>Equality of node configurations\<close>

definition node_config_wf :: "node_config \<Rightarrow> bool" where
  "node_config_wf c \<longleftrightarrow> distinct (keys (Ports c)) \<and> '''' \<notin> snd ` set (Ports c)"

definition same_node_config :: "node_config \<Rightarrow> node_config \<Rightarrow> bool" where
  "same_node_config a b \<longleftrightarrow>
     map_of (Ports a) = map_of (Ports b) \<and> Channels a = Channels b \<and> Heartbeat a = Heartbeat b \<and>
     DialTimeout a = DialTimeout b \<and> MaxStreamsPerConn a = MaxStreamsPerConn b"

lemma map_index_nonempty: "v \<noteq> '''' \<Longrightarrow> map_index m k = v \<longleftrightarrow> map_of m k = Some v"
  by (auto simp: map_index_def split: option.splits)

lemma same_map_length:
  "distinct (keys m) \<Longrightarrow> distinct (keys n) \<Longrightarrow> map_of m = map_of n \<Longrightarrow> length m = length n"
  by (metis distinct_card dom_map_of_conv_image_fst length_map set_map)

lemma NodeConfig_Equal_iff:
  assumes "node_config_wf a" "node_config_wf b"
  shows "NodeConfig_Equal (Some a) (Some b) \<longleftrightarrow> same_node_config a b"
proof -
  have "list_all (\<lambda>(k, v). map_index (Ports b) k = v) (Ports a) \<longleftrightarrow>
      (\<forall>k v. map_of (Ports a) k = Some v \<longrightarrow> map_of (Ports b) k = Some v)"
  proof -
    have "map_index (Ports b) k = v \<longleftrightarrow> map_of (Ports b) k = Some v" if "(k, v) \<in> set (Ports a)" for k v
      using that assms(1) by (intro map_index_nonempty) (force simp: node_config_wf_def)
    moreover have "map_of (Ports a) k = Some v \<longleftrightarrow> (k, v) \<in> set (Ports a)" for k v
      using assms(1) by (intro map_of_Some_iff_mem) (simp add: node_config_wf_def)
    ultimately show ?thesis by (simp add: list_all_iff Ball_def split_beta)
  qed
  moreover have "(\<forall>k v. map_of (Ports a) k = Some v \<longrightarrow> map_of (Ports b) k = Some v) \<and>
      length (Ports a) = length (Ports b) \<longleftrightarrow> map_of (Ports a) = map_of (Ports b)"
    (is "?sub \<and> ?len \<longleftrightarrow> ?same")
  proof
    assume "?sub \<and> ?len"
    then show ?same
      using assms by (intro map_of_same_keys_card) (auto simp only: node_config_wf_def)
  next
    assume ?same
    then show "?sub \<and> ?len"
      using assms same_map_length by (metis node_config_wf_def)
  qed
  ultimately show ?thesis
    by (auto simp: NodeConfig_Equal_def same_node_config_def)
qed

section \<open>Properties\<close>

text \<open>\<open>NodeConfig.Equal\<close>, which decides whether a reload pushes anything to a node, is
  equality of the configurations as maps, whatever order their port maps iterate in, provided
  no remote address is empty (the loader drops those).\<close>

theorem NodeConfig_Equal_correct:
  assumes "node_config_wf a" and "node_config_wf b"
  shows "NodeConfig_Equal (Some a) (Some b) \<longleftrightarrow> same_node_config a b"
  using assms by (rule NodeConfig_Equal_iff)

definition sample_node_config :: "(string \<times> string) list \<Rightarrow> node_config" where
  "sample_node_config ps =
     \<lparr>Ports = ps, Channels = 4, Heartbeat = 15 * second, DialTimeout = 10 * second,
      MaxStreamsPerConn = 256\<rparr>"

theorem NodeConfig_Equal_correct_witness:
  "NodeConfig_Equal (Some (sample_node_config [(''1'', ''a:1''), (''2'', ''b:2'')]))
     (Some (sample_node_config [(''2'', ''b:2''), (''1'', ''a:1'')])) \<longleftrightarrow>
   same_node_config (sample_node_config [(''1'', ''a:1''), (''2'', ''b:2'')])
     (sample_node_config [(''2'', ''b:2''), (''1'', ''a:1'')])"
  by (rule NodeConfig_Equal_correct) (simp_all add: node_config_wf_def sample_node_config_def)

end
