(* ===== verification/Client_Stream.thy ===== *)
theory Client_Stream
  imports Stream_Header Payload_Frames Control_Messages
begin

text \<open>
  internal/client/client.go, the state of a client and what it does with one data stream
  (\<open>handleStream\<close>). The transport and the local service are the environment of a stream: the
  bytes that arrive (a \<open>source\<close>, arbitrarily chunked), the sink for the answer, whether the dial
  succeeds, what the service sends given what it received, and how much of it the local
  connection accepts.
\<close>

record client =
  cl_url :: string
  cl_key :: string
  cl_node :: string
  cl_cfg :: "node_config option"
  cl_session :: string
  cl_ctrl :: "nat option"
  cl_draining :: bool
  cl_last_err :: "string option"
  cl_active_streams :: int
  cl_channels_online :: int
  cl_bytes_in :: int
  cl_bytes_out :: int
  cl_local_dial_errors :: int

definition new_client :: "string \<Rightarrow> string \<Rightarrow> string \<Rightarrow> client" where
  "new_client url key node =
     \<lparr>cl_url = url, cl_key = key, cl_node = node, cl_cfg = None, cl_session = '''', cl_ctrl = None,
      cl_draining = False, cl_last_err = None, cl_active_streams = 0, cl_channels_online = 0,
      cl_bytes_in = 0, cl_bytes_out = 0, cl_local_dial_errors = 0\<rparr>"

definition client_dialTimeout :: duration where
  "client_dialTimeout = 15 * second"

definition remoteFor :: "int \<Rightarrow> client \<Rightarrow> string" where
  "remoteFor port c =
     (case cl_cfg c of None \<Rightarrow> '''' | Some cfg \<Rightarrow> map_index (Ports cfg) (itoa port))"

text \<open>\<open>c.Config().DialTimeout.D()\<close>, with its default.\<close>

definition dial_limit :: "client \<Rightarrow> duration" where
  "dial_limit c =
     (let t = (case cl_cfg c of None \<Rightarrow> 0 | Some cfg \<Rightarrow> DialTimeout cfg)
      in if t \<le> 0 then client_dialTimeout else t)"

record stream_env =
  se_source :: source
  se_sink :: sink
  se_dial :: "string \<Rightarrow> duration \<Rightarrow> bool"
  se_service :: "byte list \<Rightarrow> byte list list"
  se_local_room :: "nat option"

record stream_result =
  sr_sink :: sink
  sr_dialled :: "(string \<times> duration) option"
  sr_delivered :: "byte list"

text \<open>The buffer of \<open>io.Copy\<close>; what a copy into a \<open>FrameWriter\<close> has counted when it ends; what
  a bounded destination has accepted.\<close>

definition copy_buffer :: nat where
  "copy_buffer = 32768"

fun copied_count :: "byte list list \<Rightarrow> frame_writer \<Rightarrow> nat" where
  "copied_count [] f = 0"
| "copied_count (p # ps) f =
     (case fw_write p f of (Inl e, f') \<Rightarrow> 0 | (Inr n, f') \<Rightarrow> n + copied_count ps f')"

definition accepted_part :: "nat option \<Rightarrow> byte list \<Rightarrow> byte list" where
  "accepted_part limit bs = (case limit of None \<Rightarrow> bs | Some k \<Rightarrow> take k bs)"

definition read_payload :: "source \<Rightarrow> byte list" where
  "read_payload r =
     (case frame_copy copy_buffer (NewFrameReader r) of Some (bs, _) \<Rightarrow> bs | None \<Rightarrow> [])"

text \<open>The two copies of an accepted stream: remote to local, local to remote.\<close>

definition pipe_stream :: "source \<Rightarrow> sink \<Rightarrow> string \<times> duration \<Rightarrow> stream_env \<Rightarrow> client \<Rightarrow> client \<times> stream_result" where
  "pipe_stream r k dialled env c =
     (let delivered = accepted_part (se_local_room env) (read_payload r);
          answer = se_service env delivered;
          fw = NewFrameWriter k
      in (c\<lparr>cl_bytes_in := cl_bytes_in c + int (length delivered),
            cl_bytes_out := cl_bytes_out c + int (copied_count answer fw)\<rparr>,
          \<lparr>sr_sink = fw_w (send_direction answer fw), sr_dialled = Some dialled,
           sr_delivered = delivered\<rparr>))"

definition refuse_stream :: "byte \<Rightarrow> stream_env \<Rightarrow> stream_result" where
  "refuse_stream status env =
     \<lparr>sr_sink = snd (WriteAck status (se_sink env)), sr_dialled = None, sr_delivered = []\<rparr>"

text \<open>The body of \<open>handleStream\<close> between the increment and the decrement of \<open>activeStreams\<close>.\<close>

definition serve_stream :: "stream_env \<Rightarrow> client \<Rightarrow> client \<times> stream_result" where
  "serve_stream env c =
     (case ReadStreamHeader (se_source env) of
        (Inl e, r) \<Rightarrow>
          (c, if e \<noteq> EOF then refuse_stream AckRejected env
              else \<lparr>sr_sink = se_sink env, sr_dialled = None, sr_delivered = []\<rparr>)
      | (Inr port, r) \<Rightarrow>
          if cl_draining c then (c, refuse_stream AckRejected env)
          else (let remote = remoteFor port c in
            if remote = '''' then (c, refuse_stream AckPortNotAllowed env)
            else (let timeout = dial_limit c in
              if \<not> se_dial env remote timeout
              then (c\<lparr>cl_local_dial_errors := cl_local_dial_errors c + 1\<rparr>,
                    (refuse_stream AckDialFailed env)\<lparr>sr_dialled := Some (remote, timeout)\<rparr>)
              else (case WriteAck AckOK (se_sink env) of
                      (Some e, k) \<Rightarrow>
                        (c, \<lparr>sr_sink = k, sr_dialled = Some (remote, timeout), sr_delivered = []\<rparr>)
                    | (None, k) \<Rightarrow> pipe_stream r k (remote, timeout) env c))))"

definition stream_enter :: "client \<Rightarrow> client" where
  "stream_enter c = c\<lparr>cl_active_streams := cl_active_streams c + 1\<rparr>"

definition stream_leave :: "client \<Rightarrow> client" where
  "stream_leave c = c\<lparr>cl_active_streams := cl_active_streams c - 1\<rparr>"

definition handleStream :: "stream_env \<Rightarrow> client \<Rightarrow> client \<times> stream_result" where
  "handleStream env c =
     (case serve_stream env (stream_enter c) of (c', res) \<Rightarrow> (stream_leave c', res))"

section \<open>Writing behind what is already there\<close>

definition behind :: "byte list list \<Rightarrow> frame_writer \<Rightarrow> frame_writer" where
  "behind w f = f\<lparr>fw_w := (fw_w f)\<lparr>written := w @ written (fw_w f)\<rparr>\<rparr>"

lemma sink_write_behind:
  "sink_write bs (k\<lparr>written := w @ written k\<rparr>) =
     (case sink_write bs k of (e, k') \<Rightarrow> (e, k'\<lparr>written := w @ written k'\<rparr>))"
  by (simp add: sink_write_def split: option.split)

lemma fw_write_behind: "fw_write p (behind w f) = (case fw_write p f of (r, f') \<Rightarrow> (r, behind w f'))"
  by (simp add: fw_write_def behind_def sink_write_behind split: prod.split option.split)

lemma write_all_behind: "write_all ps (behind w f) = (case write_all ps f of (r, f') \<Rightarrow> (r, behind w f'))"
  by (induction ps arbitrary: f) (simp_all add: fw_write_behind split: prod.split sum.split)

lemma CloseWrite_behind: "CloseWrite (behind w f) = (case CloseWrite f of (r, f') \<Rightarrow> (r, behind w f'))"
  by (simp add: CloseWrite_def behind_def sink_write_behind split: prod.split)

lemma send_direction_prefix: "send_direction ps (behind w f) = behind w (send_direction ps f)"
  by (simp add: send_direction_def write_all_behind CloseWrite_behind split_beta)

lemma NewFrameWriter_prefix:
  "NewFrameWriter \<lparr>written = w @ ws, room = r\<rparr> = behind w (NewFrameWriter \<lparr>written = ws, room = r\<rparr>)"
  by (simp add: NewFrameWriter_def behind_def)

section \<open>What the client sends back\<close>

lemma remoteFor_enter [simp]:
  "remoteFor p (stream_enter c) = remoteFor p c" "dial_limit (stream_enter c) = dial_limit c"
  "cl_draining (stream_enter c) = cl_draining c"
  "cl_local_dial_errors (stream_enter c) = cl_local_dial_errors c"
  "cl_local_dial_errors (stream_leave c) = cl_local_dial_errors c"
  by (simp_all add: remoteFor_def dial_limit_def stream_enter_def stream_leave_def)

lemma read_payload_decode: "read_payload r = fst (decode_payload (final_err r) (src_bytes r))"
proof -
  have "frame_copy copy_buffer (NewFrameReader r) = Some (reader_rest (NewFrameReader r))"
    by (rule frame_copy_rest) (simp add: copy_buffer_def)
  then show ?thesis
    by (simp add: read_payload_def reader_rest_def NewFrameReader_def split_beta)
qed

lemma WriteAck_room:
  "room k = None \<Longrightarrow> WriteAck s k = (None, k\<lparr>written := written k @ [[s]]\<rparr>)"
  by (simp add: WriteAck_def sink_write_def)

lemma sink_bytes_ack: "room k = None \<Longrightarrow> sink_bytes (snd (WriteAck s k)) = sink_bytes k @ [s]"
  by (simp add: WriteAck_room sink_bytes_def)

lemma active_handleStream [simp]: "cl_active_streams (fst (handleStream env c)) = cl_active_streams c"
  by (auto simp: handleStream_def serve_stream_def pipe_stream_def stream_enter_def stream_leave_def
      Let_def split: prod.split sum.split option.split)

lemma cfg_handleStream [simp]:
  "cl_cfg (fst (handleStream env c)) = cl_cfg c" "cl_draining (fst (handleStream env c)) = cl_draining c"
  by (auto simp: handleStream_def serve_stream_def pipe_stream_def stream_enter_def stream_leave_def
      Let_def split: prod.split sum.split option.split)

text \<open>Everything a stream can dial is an entry of the allow-list.\<close>

lemma dialled_allowed:
  assumes "sr_dialled (snd (handleStream env c)) = Some (remote, t)"
  shows "\<exists>port. fst (ReadStreamHeader (se_source env)) = Inr port \<and> \<not> cl_draining c \<and>
    remote = remoteFor port c \<and> remote \<noteq> '''' \<and> t = dial_limit c"
  using assms
  by (auto simp: handleStream_def serve_stream_def pipe_stream_def refuse_stream_def Let_def
      split: prod.splits sum.splits option.splits if_splits)

section \<open>Properties\<close>

text \<open>C8: the allow-list is enforced by the client itself. A stream makes the client dial only the
  remote that the pushed configuration lists for the port id of a well-formed header, never while
  the client drains, and with a positive timeout; in every other case nothing is dialled and no
  payload byte reaches any service.\<close>

theorem client_dials_only_allowed:
  "case sr_dialled (snd (handleStream env c)) of
     None \<Rightarrow> sr_delivered (snd (handleStream env c)) = []
   | Some (remote, t) \<Rightarrow> 0 < t \<and> \<not> cl_draining c \<and>
       (\<exists>port cfg. fst (ReadStreamHeader (se_source env)) = Inr port \<and> cl_cfg c = Some cfg \<and>
          map_of (Ports cfg) (itoa port) = Some remote \<and> remote \<noteq> '''')"
proof (cases "sr_dialled (snd (handleStream env c))")
  case None
  then show ?thesis
    by (auto simp: handleStream_def serve_stream_def pipe_stream_def refuse_stream_def Let_def
        split: prod.splits sum.splits option.splits if_splits)
next
  case (Some d)
  obtain remote t where d: "d = (remote, t)" by fastforce
  with Some dialled_allowed obtain port where p: "fst (ReadStreamHeader (se_source env)) = Inr port"
    "\<not> cl_draining c" "remote = remoteFor port c" "remote \<noteq> ''''" "t = dial_limit c"
    by metis
  have "0 < dial_limit c" by (simp add: dial_limit_def client_dialTimeout_def second_def Let_def)
  moreover obtain cfg where "cl_cfg c = Some cfg" "map_of (Ports cfg) (itoa port) = Some remote"
    using p(3,4) by (auto simp: remoteFor_def map_index_def split: option.splits)
  ultimately show ?thesis using p Some d by auto
qed

text \<open>The one ack byte of a stream and its counters. Over a stream whose reverse direction
  accepts everything, the client answers a bad header with "rejected" (unless the stream was
  simply closed), a draining client with "rejected", an unlisted port with "not allowed", a failed
  dial with "dial failed" and counts exactly that failure, and otherwise "ok" followed by the
  framed answer; in all cases the number of active streams is what it was before.\<close>

theorem client_ack_decision:
  assumes "room (se_sink env) = None" and "sink_bytes (se_sink env) = []"
  shows "sink_bytes (sr_sink (snd (handleStream env c))) =
      (case fst (ReadStreamHeader (se_source env)) of
         Inl e \<Rightarrow> if e = EOF then [] else [AckRejected]
       | Inr port \<Rightarrow>
           if cl_draining c then [AckRejected]
           else if remoteFor port c = '''' then [AckPortNotAllowed]
           else if \<not> se_dial env (remoteFor port c) (dial_limit c) then [AckDialFailed]
           else AckOK # sink_bytes (fw_w (send_direction
                  (se_service env (sr_delivered (snd (handleStream env c))))
                  (NewFrameWriter \<lparr>written = [], room = None\<rparr>)))) \<and>
    cl_local_dial_errors (fst (handleStream env c)) = cl_local_dial_errors c +
      (case fst (ReadStreamHeader (se_source env)) of
         Inl e \<Rightarrow> 0
       | Inr port \<Rightarrow>
           if \<not> cl_draining c \<and> remoteFor port c \<noteq> '''' \<and> \<not> se_dial env (remoteFor port c) (dial_limit c)
           then 1 else 0) \<and>
    cl_active_streams (fst (handleStream env c)) = cl_active_streams c"
proof -
  have k: "(se_sink env)\<lparr>written := written (se_sink env) @ [[AckOK]]\<rparr> =
      \<lparr>written = (written (se_sink env) @ [[AckOK]]) @ [], room = None\<rparr>"
    using assms(1) by (cases "se_sink env") simp
  have pre: "concat (written (se_sink env)) = []" using assms(2) by (simp add: sink_bytes_def)
  have ok: "sink_bytes (fw_w (send_direction ps (NewFrameWriter
        ((se_sink env)\<lparr>written := written (se_sink env) @ [[AckOK]]\<rparr>)))) =
      AckOK # sink_bytes (fw_w (send_direction ps (NewFrameWriter \<lparr>written = [], room = None\<rparr>)))" for ps
    unfolding k NewFrameWriter_prefix [where ws = "[]"] send_direction_prefix
    by (simp add: behind_def sink_bytes_def pre)
  have sink_ack: "sink_bytes ((se_sink env)\<lparr>written := written (se_sink env) @ [[s]]\<rparr>) = [s]" for s
    using assms(2) by (simp add: sink_bytes_def)
  have a: "cl_active_streams (fst (handleStream env c)) = cl_active_streams c" by simp
  show ?thesis
    by (rule conjI [OF _ conjI [OF _ a]])
      (auto simp: handleStream_def serve_stream_def pipe_stream_def refuse_stream_def Let_def
        WriteAck_room [OF assms(1)] sink_ack assms(2) ok
        split: prod.split sum.split option.split)
qed

definition refused_env :: stream_env where
  "refused_env = \<lparr>se_source = header_source (stream_header 81), se_sink = empty_sink,
     se_dial = (\<lambda>_ _. True), se_service = (\<lambda>_. []), se_local_room = None\<rparr>"

definition sample_client :: client where
  "sample_client = (new_client ''u'' ''k'' '''')
     \<lparr>cl_cfg := Some (sample_node_config [(''80'', ''h:1'')])\<rparr>"

theorem client_ack_decision_witness:
  "sink_bytes (sr_sink (snd (handleStream refused_env sample_client))) = [AckPortNotAllowed]"
proof -
  have h: "fst (ReadStreamHeader (se_source refused_env)) = Inr 81"
    using header_codec.dec_enc [of 81 "[]"]
    by (auto simp: valid_port_def refused_env_def split: prod.splits sum.splits)
  have i: "itoa 81 = ''81''" by code_simp
  have r: "remoteFor 81 sample_client = ''''"
    by (simp add: remoteFor_def sample_client_def sample_node_config_def map_index_def i)
  have s: "room (se_sink refused_env) = None" "sink_bytes (se_sink refused_env) = []"
    by (simp_all add: refused_env_def empty_sink_def sink_bytes_def)
  show ?thesis
    using client_ack_decision [OF s, of sample_client] h r
    by (simp add: sample_client_def new_client_def)
qed

end
