(* ===== verification/Client_Session.thy ===== *)
theory Client_Session
  imports Client_Stream
begin

text \<open>
  internal/client/client.go, the control side: the reconnect loop of \<open>Run\<close> and \<open>runChannel\<close>,
  the handshakes, the control loop, the telemetry loop, the supervisor of the data channels and
  \<open>Shutdown\<close>. What the network answers is an argument of each step; a connection is a number.
  An \<open>error\<close> is its text, as it ends up in \<open>lastErr\<close>.
\<close>

section \<open>Reconnecting\<close>

definition minBackoff :: duration where "minBackoff = second"
definition maxBackoff :: duration where "maxBackoff = 30 * second"
definition stableSession :: duration where "stableSession = 60 * second"
definition defaultRetryHB :: duration where "defaultRetryHB = 15 * second"
definition client_ShutdownGrace :: duration where "client_ShutdownGrace = 30 * second"

text \<open>One round of the loop after a session that lasted \<open>dur\<close>: how long it waits, and the
  backoff it keeps for the next round.\<close>

definition backoff_round :: "duration \<Rightarrow> duration \<Rightarrow> duration \<times> duration" where
  "backoff_round dur backoff =
     (let b = (if stableSession < dur then minBackoff else backoff)
      in (b, if b < maxBackoff then (if maxBackoff < b * 2 then maxBackoff else b * 2) else b))"

fun reconnect_waits :: "duration \<Rightarrow> duration list \<Rightarrow> duration list" where
  "reconnect_waits b [] = []"
| "reconnect_waits b (dur # durs) =
     (case backoff_round dur b of (wait, b') \<Rightarrow> wait # reconnect_waits b' durs)"

text \<open>\<open>runChannel\<close>, the same loop for one data channel. A round says whether the context is done
  before the channel is served, how long the channel lasted, and whether the context is done after
  it and during the wait; the result is the waits that are begun.\<close>

fun runChannel :: "duration \<Rightarrow> (bool \<times> duration \<times> bool \<times> bool) list \<Rightarrow> duration list" where
  "runChannel b [] = []"
| "runChannel b ((done_before, dur, done_after, done_waiting) # rounds) =
     (if done_before \<or> done_after then []
      else (case backoff_round dur b of
              (wait, b') \<Rightarrow> wait # (if done_waiting then [] else runChannel b' rounds)))"

definition setLastError :: "string \<Rightarrow> client \<Rightarrow> client" where
  "setLastError m c = c\<lparr>cl_last_err := Some m\<rparr>"

definition lastError_of :: "client \<Rightarrow> string" where
  "lastError_of c = (case cl_last_err c of None \<Rightarrow> '''' | Some m \<Rightarrow> m)"

text \<open>What \<open>Run\<close> does with the result of a session, unless the process is being stopped.\<close>

definition session_ended :: "string option \<Rightarrow> client \<Rightarrow> client" where
  "session_ended err c = (case err of None \<Rightarrow> c | Some e \<Rightarrow> setLastError e c)"

section \<open>Shared state\<close>

definition setConfig :: "node_config \<Rightarrow> client \<Rightarrow> client" where
  "setConfig cfg c = c\<lparr>cl_cfg := Some cfg\<rparr>"

definition setSession :: "string \<Rightarrow> client \<Rightarrow> client" where
  "setSession sid c = c\<lparr>cl_session := sid\<rparr>"

definition setCtrl :: "nat option \<Rightarrow> client \<Rightarrow> client" where
  "setCtrl conn c = c\<lparr>cl_ctrl := conn\<rparr>"

text \<open>\<open>sendControl\<close>: the messages written to the control connection, if there is one.\<close>

definition sendControl :: "message \<Rightarrow> client \<Rightarrow> (nat \<times> message) list" where
  "sendControl m c = (case cl_ctrl c of None \<Rightarrow> [] | Some conn \<Rightarrow> [(conn, m)])"

section \<open>Handshakes\<close>

definition control_hello :: "client \<Rightarrow> message" where
  "control_hello c = zero_message\<lparr>m_type := TypeHello, m_role := RoleControl, m_node := cl_node c, m_key := cl_key c\<rparr>"

definition data_hello :: "client \<Rightarrow> message" where
  "data_hello c = zero_message\<lparr>m_type := TypeHello, m_role := RoleData, m_node := cl_node c,
     m_key := cl_key c, m_session := cl_session c\<rparr>"

text \<open>The outcomes of dialling, of writing the hello and of reading the reply.\<close>

record handshake_env =
  he_dial :: "string option"
  he_write :: "string option"
  he_reply :: "string + message"

definition handshake_reply :: "handshake_env \<Rightarrow> string + message" where
  "handshake_reply env =
     (case he_dial env of
        Some e \<Rightarrow> Inl e
      | None \<Rightarrow> (case he_write env of Some e \<Rightarrow> Inl e | None \<Rightarrow> he_reply env))"

text \<open>\<open>runSession\<close> up to the point where the control channel is up.\<close>

definition session_handshake :: "handshake_env \<Rightarrow> nat \<Rightarrow> client \<Rightarrow> string option \<times> client" where
  "session_handshake env conn c =
     (case handshake_reply env of
        Inl e \<Rightarrow> (Some e, c)
      | Inr msg \<Rightarrow>
          if m_type msg = TypeWelcome
          then (case m_config msg of
                  None \<Rightarrow> (Some ''welcome carried no config'', c)
                | Some cfg \<Rightarrow>
                    (None, setCtrl (Some conn)
                       ((setSession (m_session msg) (setConfig cfg c))\<lparr>cl_draining := False\<rparr>)))
          else if m_type msg = TypeError
          then (Some (''server refused the handshake: '' @ m_code msg @ '' '' @ m_msg msg), c)
          else (Some (''unexpected reply to hello: '' @ m_type msg), c))"

text \<open>\<open>serveChannel\<close> up to the point where the data channel is up.\<close>

definition channel_handshake :: "handshake_env \<Rightarrow> client \<Rightarrow> string option \<times> client" where
  "channel_handshake env c =
     (case handshake_reply env of
        Inl e \<Rightarrow> (Some e, c)
      | Inr msg \<Rightarrow>
          if m_type msg = TypeError
          then (Some (''data channel refused: '' @ m_code msg @ '' '' @ m_msg msg), c)
          else if m_type msg \<noteq> TypeWelcome
          then (Some (''unexpected reply to data hello: '' @ m_type msg), c)
          else (None, c\<lparr>cl_channels_online := cl_channels_online c + 1\<rparr>))"

definition channel_down :: "client \<Rightarrow> client" where
  "channel_down c = c\<lparr>cl_channels_online := cl_channels_online c - 1\<rparr>"

section \<open>The supervisor\<close>

text \<open>\<open>workers\<close> maps a slot to its cancel function: here the list of its slots, in some order.
  The worker whose turn it is to go is the first one a \<open>range\<close> over the map meets: \<open>pick\<close>.\<close>

record supervisor =
  sup_workers :: "int list"
  sup_nextID :: int
  sup_target :: int
  sup_cancelled :: "int list"

definition newSupervisor :: supervisor where
  "newSupervisor = \<lparr>sup_workers = [], sup_nextID = 0, sup_target = 0, sup_cancelled = []\<rparr>"

definition spawn :: "supervisor \<Rightarrow> supervisor" where
  "spawn s = s\<lparr>sup_nextID := sup_nextID s + 1, sup_workers := sup_workers s @ [sup_nextID s + 1]\<rparr>"

definition dismiss :: "(int list \<Rightarrow> int) \<Rightarrow> supervisor \<Rightarrow> supervisor" where
  "dismiss pick s =
     (let w = pick (sup_workers s)
      in s\<lparr>sup_workers := removeAll w (sup_workers s), sup_cancelled := w # sup_cancelled s\<rparr>)"

fun spawn_until :: "nat \<Rightarrow> supervisor \<Rightarrow> supervisor" where
  "spawn_until 0 s = s"
| "spawn_until (Suc k) s = spawn_until k (spawn s)"

fun dismiss_until :: "(int list \<Rightarrow> int) \<Rightarrow> nat \<Rightarrow> supervisor \<Rightarrow> supervisor" where
  "dismiss_until pick 0 s = s"
| "dismiss_until pick (Suc k) s = dismiss_until pick k (dismiss pick s)"

text \<open>Each loop runs as often as the sizes differ.\<close>

definition SetTarget :: "(int list \<Rightarrow> int) \<Rightarrow> int \<Rightarrow> supervisor \<Rightarrow> supervisor" where
  "SetTarget pick n s =
     (let n' = (if n < 1 then 1 else n);
          s1 = s\<lparr>sup_target := n'\<rparr>;
          s2 = spawn_until (nat n' - length (sup_workers s1)) s1
      in dismiss_until pick (length (sup_workers s2) - nat n') s2)"

text \<open>A worker that returns removes itself; it returns only when its context is cancelled.\<close>

definition worker_exit :: "int \<Rightarrow> supervisor \<Rightarrow> supervisor" where
  "worker_exit w s =
     (if w \<in> set (sup_cancelled s) then s\<lparr>sup_workers := removeAll w (sup_workers s)\<rparr> else s)"

definition Supervisor_Stop :: "supervisor \<Rightarrow> supervisor" where
  "Supervisor_Stop s = s\<lparr>sup_cancelled := sup_workers s @ sup_cancelled s, sup_workers := []\<rparr>"

section \<open>The control loop\<close>

datatype loop_result = Continue | Return "string option"

definition read_timeout :: "client \<Rightarrow> duration" where
  "read_timeout c =
     (let hb = (case cl_cfg c of None \<Rightarrow> 0 | Some cfg \<Rightarrow> Heartbeat cfg)
      in 3 * (if hb \<le> 0 then defaultRetryHB else hb))"

definition control_message ::
  "(int list \<Rightarrow> int) \<Rightarrow> message \<Rightarrow> client \<times> supervisor \<Rightarrow>
     loop_result \<times> (client \<times> supervisor) \<times> (nat \<times> message) list" where
  "control_message pick msg cs =
     (case cs of (c, sv) \<Rightarrow>
        if m_type msg = TypePing
        then (Continue, cs,
              sendControl (zero_message\<lparr>m_type := TypePong, m_nonce := m_nonce msg, m_ts := m_ts msg\<rparr>) c)
        else if m_type msg = TypePong then (Continue, cs, [])
        else if m_type msg = TypeReloadConfig
        then (case m_config msg of
                None \<Rightarrow> (Continue, cs, [])
              | Some cfg \<Rightarrow> (Continue, (setConfig cfg c, SetTarget pick (Channels cfg) sv), []))
        else if m_type msg = TypeDrain then (Continue, (c\<lparr>cl_draining := True\<rparr>, sv), [])
        else if m_type msg = TypeBye then (Return None, cs, [])
        else if m_type msg = TypeError \<and> (m_code msg = CodeNodeBusy \<or> m_code msg = CodeAuthFailed)
        then (Return (Some (m_code msg @ '': '' @ m_msg msg)), cs, [])
        else (Continue, cs, []))"

text \<open>The loop over what the reads return; a read error ends it, silently if the context of the
  session is done. \<open>None\<close> as a result means that the loop is still running.\<close>

fun controlLoop ::
  "(int list \<Rightarrow> int) \<Rightarrow> (bool \<times> (string + message)) list \<Rightarrow> client \<times> supervisor \<Rightarrow>
     string option option \<times> (client \<times> supervisor) \<times> (nat \<times> message) list" where
  "controlLoop pick [] cs = (None, cs, [])"
| "controlLoop pick ((ctx_done, Inl e) # rest) cs = (Some (if ctx_done then None else Some e), cs, [])"
| "controlLoop pick ((ctx_done, Inr msg) # rest) cs =
     (case control_message pick msg cs of
        (Return r, cs', out) \<Rightarrow> (Some r, cs', out)
      | (Continue, cs', out) \<Rightarrow>
          (case controlLoop pick rest cs' of (r, cs'', out') \<Rightarrow> (r, cs'', out @ out')))"

text \<open>One tick of \<open>statsLoop\<close>: the interval after it, and the report.\<close>

definition stats_message :: "client \<Rightarrow> message" where
  "stats_message c = zero_message\<lparr>m_type := TypeStats, m_stats := Some
     \<lparr>cs_channels = cl_channels_online c, cs_streams = cl_active_streams c, cs_bytes_in = cl_bytes_in c,
      cs_bytes_out = cl_bytes_out c, cs_local_dial_errors = cl_local_dial_errors c\<rparr>\<rparr>"

definition stats_tick :: "duration \<Rightarrow> client \<Rightarrow> duration \<times> (nat \<times> message) list" where
  "stats_tick hb c =
     (let cur = (case cl_cfg c of None \<Rightarrow> 0 | Some cfg \<Rightarrow> Heartbeat cfg)
      in (if 0 < cur \<and> cur \<noteq> hb then cur else hb, sendControl (stats_message c) c))"

section \<open>Shutdown\<close>

definition shutdown_begin :: "client \<Rightarrow> client" where
  "shutdown_begin c = c\<lparr>cl_draining := True\<rparr>"

text \<open>The wait: it goes on while streams are active and the deadline has not passed. Each element
  is what one round of the loop reads.\<close>

fun shutdown_wait :: "time \<Rightarrow> (int \<times> time) list \<Rightarrow> bool" where
  "shutdown_wait deadline [] = False"
| "shutdown_wait deadline ((active, now) # rest) =
     (if 0 < active \<and> now < deadline then shutdown_wait deadline rest else True)"

definition shutdown_bye :: "client \<Rightarrow> (nat \<times> message) list" where
  "shutdown_bye c = sendControl (zero_message\<lparr>m_type := TypeBye, m_reason := ''client shutting down''\<rparr>) c"

section \<open>Facts about the loops\<close>

lemma backoff_round_range:
  assumes "minBackoff \<le> b" "b \<le> maxBackoff"
  shows "minBackoff \<le> fst (backoff_round dur b) \<and> fst (backoff_round dur b) \<le> maxBackoff \<and>
    minBackoff \<le> snd (backoff_round dur b) \<and> snd (backoff_round dur b) \<le> maxBackoff"
  using assms by (simp add: backoff_round_def Let_def minBackoff_def maxBackoff_def second_def)

lemma reconnect_waits_range:
  "minBackoff \<le> b \<Longrightarrow> b \<le> maxBackoff \<Longrightarrow> w \<in> set (reconnect_waits b durs) \<Longrightarrow>
     minBackoff \<le> w \<and> w \<le> maxBackoff"
proof (induction durs arbitrary: b)
  case (Cons dur durs)
  then show ?case
    using backoff_round_range [of b dur] by (auto simp: split_beta)
qed simp

lemma runChannel_waits:
  "\<exists>n. runChannel b rounds = take n (reconnect_waits b (map (\<lambda>(_, dur, _). dur) rounds))"
proof (induction b rounds rule: runChannel.induct)
  case (2 b done_before dur done_after done_waiting rounds)
  obtain wait b' where round: "backoff_round dur b = (wait, b')" by fastforce
  show ?case
  proof (cases "done_before \<or> done_after \<or> done_waiting")
    case True
    then show ?thesis
      using round by (cases "done_before \<or> done_after") (auto intro: exI [of _ 0] exI [of _ 1])
  next
    case False
    with 2 round obtain n where "runChannel b' rounds = take n (reconnect_waits b' (map (\<lambda>(_, dur, _). dur) rounds))"
      by (metis (no_types, lifting))
    with False round show ?thesis by (auto intro: exI [of _ "Suc n"])
  qed
qed simp

lemma reconnect_waits_quick:
  assumes "k < length durs" "list_all (\<lambda>r. r \<le> stableSession) (take (Suc k) durs)" "1 \<le> j" "j \<le> 30"
  shows "reconnect_waits (j * second) durs ! k = min (j * 2 ^ k) 30 * second"
  using assms
proof (induction k arbitrary: j durs)
  case 0
  then show ?case
    by (cases durs) (auto simp: backoff_round_def Let_def)
next
  case (Suc k)
  from Suc.prems(1) obtain r rs where rs: "durs = r # rs" "k < length rs" by (cases durs) auto
  let ?j = "min (j * 2) 30"
  have round: "backoff_round r (j * second) = (j * second, ?j * second)"
    using Suc.prems rs by (auto simp: backoff_round_def Let_def maxBackoff_def second_def min_def)
  have "reconnect_waits (?j * second) rs ! k = min (?j * 2 ^ k) 30 * second"
    using Suc.prems rs by (intro Suc.IH) auto
  moreover have "min (?j * 2 ^ k) 30 = min (j * 2 ^ Suc k) 30"
  proof (cases "j * 2 \<le> 30")
    case False
    then have "30 \<le> 30 * (2 :: int) ^ k" "30 * 2 ^ k \<le> j * 2 * (2 :: int) ^ k"
      by (simp_all add: mult_right_mono)
    moreover from this have "30 \<le> j * 2 * 2 ^ k" by linarith
    moreover have "?j = 30" using False by simp
    ultimately show ?thesis by (simp only: min.absorb2 power_Suc mult.assoc)
  qed (simp add: min_def mult.assoc)
  ultimately show ?case using rs round by simp
qed

definition sup_wf :: "supervisor \<Rightarrow> bool" where
  "sup_wf s \<longleftrightarrow>
     distinct (sup_workers s) \<and> set (sup_workers s) \<inter> set (sup_cancelled s) = {} \<and> 0 \<le> sup_nextID s \<and>
     set (sup_workers s) \<union> set (sup_cancelled s) = {1..sup_nextID s}"

lemma sup_wf_new: "sup_wf newSupervisor"
  by (auto simp: sup_wf_def newSupervisor_def)

lemma sup_wf_spawn: "sup_wf s \<Longrightarrow> sup_wf (spawn s)"
proof -
  assume wf: "sup_wf s"
  then have "{1..sup_nextID s + 1} = insert (sup_nextID s + 1) (set (sup_workers s) \<union> set (sup_cancelled s))"
    by (auto simp: sup_wf_def)
  moreover have "sup_nextID s + 1 \<notin> set (sup_workers s) \<union> set (sup_cancelled s)"
    using wf by (simp add: sup_wf_def)
  ultimately show ?thesis using wf by (simp add: sup_wf_def spawn_def Un_commute)
qed

lemma sup_wf_dismiss:
  "sup_wf s \<Longrightarrow> pick (sup_workers s) \<in> set (sup_workers s) \<Longrightarrow> sup_wf (dismiss pick s)"
proof -
  assume wf: "sup_wf s" and p: "pick (sup_workers s) \<in> set (sup_workers s)"
  let ?w = "pick (sup_workers s)"
  have "(set (sup_workers s) - {?w}) \<union> insert ?w (set (sup_cancelled s)) =
      set (sup_workers s) \<union> set (sup_cancelled s)"
    using p by blast
  with wf show ?thesis
    by (auto simp: sup_wf_def dismiss_def Let_def distinct_removeAll)
qed

lemma spawn_until_spec:
  "sup_wf s \<Longrightarrow> sup_wf (spawn_until k s) \<and>
     length (sup_workers (spawn_until k s)) = length (sup_workers s) + k \<and>
     set (sup_workers s) \<subseteq> set (sup_workers (spawn_until k s)) \<and>
     sup_cancelled (spawn_until k s) = sup_cancelled s \<and> sup_target (spawn_until k s) = sup_target s"
proof (induction k arbitrary: s)
  case (Suc k)
  from Suc.IH [OF sup_wf_spawn [OF Suc.prems]] show ?case by (auto simp: spawn_def)
qed simp

lemma dismiss_until_spec:
  assumes "\<And>xs. xs \<noteq> [] \<Longrightarrow> pick xs \<in> set xs" "sup_wf s" "k \<le> length (sup_workers s)"
  shows "sup_wf (dismiss_until pick k s) \<and>
     length (sup_workers (dismiss_until pick k s)) = length (sup_workers s) - k \<and>
     set (sup_workers (dismiss_until pick k s)) \<subseteq> set (sup_workers s) \<and>
     sup_target (dismiss_until pick k s) = sup_target s"
  using assms(2,3)
proof (induction k arbitrary: s)
  case (Suc k)
  then have "sup_workers s \<noteq> []" by auto
  then have p: "pick (sup_workers s) \<in> set (sup_workers s)" by (rule assms(1))
  have "distinct (sup_workers s)" using Suc.prems(1) by (simp add: sup_wf_def)
  then have "removeAll (pick (sup_workers s)) (sup_workers s) = remove1 (pick (sup_workers s)) (sup_workers s)"
    by (simp add: distinct_remove1_removeAll)
  then have l: "length (sup_workers (dismiss pick s)) = length (sup_workers s) - 1"
    "set (sup_workers (dismiss pick s)) \<subseteq> set (sup_workers s)" "sup_target (dismiss pick s) = sup_target s"
    using p by (auto simp: dismiss_def Let_def length_remove1 dest: notin_set_remove1 [THEN notE, rotated])
  have "k \<le> length (sup_workers (dismiss pick s))" using l(1) Suc.prems(2) by simp
  from Suc.IH [OF sup_wf_dismiss [where pick = pick, OF Suc.prems(1) p] this] l
  show ?case by auto
qed simp

lemma SetTarget_spec:
  assumes "\<And>xs. xs \<noteq> [] \<Longrightarrow> pick xs \<in> set xs" "sup_wf s"
  shows "sup_wf (SetTarget pick n s) \<and> length (sup_workers (SetTarget pick n s)) = nat (max 1 n) \<and>
    sup_target (SetTarget pick n s) = max 1 n \<and>
    (if length (sup_workers s) \<le> nat (max 1 n) then set (sup_workers s) \<subseteq> set (sup_workers (SetTarget pick n s))
     else set (sup_workers (SetTarget pick n s)) \<subseteq> set (sup_workers s))"
proof -
  let ?n = "nat (max 1 n)" and ?s1 = "s\<lparr>sup_target := max 1 n\<rparr>"
  let ?s2 = "spawn_until (?n - length (sup_workers s)) ?s1"
  have eq: "SetTarget pick n s = dismiss_until pick (length (sup_workers ?s2) - ?n) ?s2"
    by (simp add: SetTarget_def Let_def max_def)
  have "sup_wf ?s1" using assms(2) by (simp add: sup_wf_def)
  note sp = spawn_until_spec [OF this, of "?n - length (sup_workers s)"]
  have "length (sup_workers ?s2) - ?n \<le> length (sup_workers ?s2)" by simp
  note ds = dismiss_until_spec [OF assms(1) conjunct1 [OF sp] this]
  show ?thesis
  proof (cases "length (sup_workers s) \<le> ?n")
    case True
    then have "length (sup_workers ?s2) - ?n = 0" using sp by simp
    then have "SetTarget pick n s = ?s2" unfolding eq by (simp only: dismiss_until.simps)
    with sp True show ?thesis by simp
  next
    case False
    then have "?n - length (sup_workers s) = 0" by simp
    then have s2: "?s2 = ?s1" by (simp only: spawn_until.simps)
    with ds False show ?thesis unfolding eq s2 by simp
  qed
qed

datatype sup_event = Resize "int list \<Rightarrow> int" int | Exit int

fun sup_step :: "sup_event \<Rightarrow> supervisor \<Rightarrow> supervisor" where
  "sup_step (Resize pick n) s = (if \<forall>xs. xs \<noteq> [] \<longrightarrow> pick xs \<in> set xs then SetTarget pick n s else s)"
| "sup_step (Exit w) s = worker_exit w s"

definition sup_full :: "supervisor \<Rightarrow> bool" where
  "sup_full s \<longleftrightarrow> sup_wf s \<and> int (length (sup_workers s)) = sup_target s"

lemma sup_full_step: "sup_full s \<Longrightarrow> sup_full (sup_step e s)"
proof (cases e)
  case (Resize pick n)
  moreover assume "sup_full s"
  ultimately show ?thesis
    using SetTarget_spec [of pick s n] by (auto simp: sup_full_def)
next
  case (Exit w)
  moreover assume "sup_full s"
  moreover then have "w \<in> set (sup_cancelled s) \<Longrightarrow> removeAll w (sup_workers s) = sup_workers s"
    by (intro removeAll_id) (auto simp: sup_full_def sup_wf_def)
  ultimately show ?thesis by (auto simp: worker_exit_def)
qed

interpretation supervisor: invariant_system sup_full sup_step
  by unfold_locales (rule sup_full_step)

section \<open>Properties\<close>

text \<open>The client retries between one second and thirty, always. Whatever the lengths of its
  sessions, every wait is in that range; as long as no session was stable the waits double from
  one second and stay at thirty; and the wait after a session of more than a minute is one second
  again. The loop of a data channel begins the same waits, until it is stopped.\<close>

theorem reconnect_backoff:
  assumes "k < length durs"
  shows "1 * second \<le> reconnect_waits minBackoff durs ! k \<and>
    reconnect_waits minBackoff durs ! k \<le> 30 * second \<and>
    (list_all (\<lambda>r. r \<le> stableSession) (take (Suc k) durs) \<longrightarrow>
       reconnect_waits minBackoff durs ! k = min (2 ^ k) 30 * second) \<and>
    (stableSession < durs ! k \<longrightarrow> reconnect_waits minBackoff durs ! k = 1 * second) \<and>
    (\<exists>n. runChannel minBackoff rounds = take n (reconnect_waits minBackoff (map (\<lambda>(_, dur, _). dur) rounds)))"
proof -
  have len: "length (reconnect_waits b ds) = length ds" for b ds
    by (induction ds arbitrary: b) (auto split: prod.split)
  then have "reconnect_waits minBackoff durs ! k \<in> set (reconnect_waits minBackoff durs)"
    using assms by simp
  then have range: "minBackoff \<le> reconnect_waits minBackoff durs ! k \<and>
      reconnect_waits minBackoff durs ! k \<le> maxBackoff"
    by (rule reconnect_waits_range [rotated 2]) (simp_all add: minBackoff_def maxBackoff_def second_def)
  have reset: "stableSession < ds ! i \<Longrightarrow> i < length ds \<Longrightarrow> reconnect_waits b ds ! i = minBackoff" for b ds i
    by (induction ds arbitrary: b i) (auto simp: backoff_round_def Let_def nth_Cons split: nat.split)
  show ?thesis
    using range reset [OF _ assms] reconnect_waits_quick [OF assms, of 1] runChannel_waits [of minBackoff rounds]
    by (auto simp: minBackoff_def maxBackoff_def)
qed

theorem reconnect_backoff_witness:
  "reconnect_waits minBackoff [0, 0, 0, 0, 0, 0] ! 5 = min (2 ^ 5) 30 * second"
  using reconnect_backoff [of 5 "[0, 0, 0, 0, 0, 0]"] by (simp add: stableSession_def second_def)

text \<open>The supervisor keeps exactly the configured number of data channels. After any sequence
  of resizes, with workers chosen in any order, and of workers returning once cancelled, the
  number of running workers is the last target, at least one; no slot number is used twice; and
  a resize upwards cancels nobody, a resize downwards starts nobody.\<close>

theorem supervisor_pool_size:
  assumes "\<And>xs. xs \<noteq> [] \<Longrightarrow> pick xs \<in> set xs"
    and "s = fold sup_step events (SetTarget pick n newSupervisor)"
  shows "int (length (sup_workers s)) = sup_target s \<and> distinct (sup_workers s) \<and>
    int (length (sup_workers (SetTarget pick m s))) = max 1 m \<and>
    (if length (sup_workers s) \<le> nat (max 1 m)
     then set (sup_workers s) \<subseteq> set (sup_workers (SetTarget pick m s))
     else set (sup_workers (SetTarget pick m s)) \<subseteq> set (sup_workers s))"
proof -
  have "sup_full (SetTarget pick n newSupervisor)"
    using SetTarget_spec [OF assms(1) sup_wf_new, of n] by (simp add: sup_full_def)
  then have full: "sup_full s" unfolding assms(2) by (rule supervisor.run_inv)
  then have "sup_wf s" by (simp add: sup_full_def)
  from SetTarget_spec [OF assms(1) this, of m] full show ?thesis
    by (simp add: sup_full_def sup_wf_def)
qed

theorem supervisor_pool_size_witness:
  "int (length (sup_workers (SetTarget hd 3 (SetTarget hd 8 newSupervisor)))) = 3"
  using supervisor_pool_size [of hd _ "[]" 8 3] by simp

text \<open>The control loop acts on each message as documented. A reload replaces the whole
  configuration and resizes the pool to its channel count; a ping is echoed with its nonce and
  timestamp on the current control connection; a drain only sets the flag; only a bye or an
  authentication or busy error ends the session, and any other message leaves the client as it
  was.\<close>

theorem control_message_effects:
  "(m_type msg = TypePing \<longrightarrow> control_message pick msg (c, s) =
      (Continue, (c, s), sendControl (zero_message\<lparr>m_type := TypePong, m_nonce := m_nonce msg, m_ts := m_ts msg\<rparr>) c)) \<and>
   (m_type msg = TypeReloadConfig \<and> m_config msg = Some cfg \<longrightarrow>
      control_message pick msg (c, s) = (Continue, (c\<lparr>cl_cfg := Some cfg\<rparr>, SetTarget pick (Channels cfg) s), [])) \<and>
   (m_type msg = TypeDrain \<longrightarrow> control_message pick msg (c, s) = (Continue, (c\<lparr>cl_draining := True\<rparr>, s), [])) \<and>
   (fst (control_message pick msg (c, s)) \<noteq> Continue \<longleftrightarrow>
      m_type msg = TypeBye \<or> m_type msg = TypeError \<and> (m_code msg = CodeNodeBusy \<or> m_code msg = CodeAuthFailed)) \<and>
   (m_type msg \<notin> {TypePing, TypeReloadConfig, TypeDrain} \<longrightarrow>
      snd (control_message pick msg (c, s)) = ((c, s), []))"
  by (auto simp: control_message_def setConfig_def split: option.split)

theorem control_message_effects_witness:
  "control_message hd (zero_message\<lparr>m_type := TypeDrain\<rparr>) (sample_client, newSupervisor) =
     (Continue, (sample_client\<lparr>cl_draining := True\<rparr>, newSupervisor), [])"
  using control_message_effects [of "zero_message\<lparr>m_type := TypeDrain\<rparr>" hd sample_client newSupervisor]
  by simp

text \<open>A failed handshake changes nothing, and a successful one takes session, configuration
  and control connection from the welcome alone.\<close>

theorem handshake_all_or_nothing:
  "case session_handshake env conn c of
     (Some e, c') \<Rightarrow> c' = c
   | (None, c') \<Rightarrow>
       (case handshake_reply env of
          Inl e \<Rightarrow> False
        | Inr msg \<Rightarrow> m_type msg = TypeWelcome \<and> m_config msg \<noteq> None \<and>
            c' = c\<lparr>cl_cfg := m_config msg, cl_session := m_session msg, cl_draining := False,
                   cl_ctrl := Some conn\<rparr>)"
  by (auto simp: session_handshake_def setConfig_def setSession_def setCtrl_def split: sum.split option.split)

text \<open>The drain of a shutdown does not survive a reconnect. If the control channel is
  re-established while \<open>Shutdown\<close> waits for the active streams, the flag it has set is cleared,
  and the client accepts and dials new streams for the rest of the wait.\<close>

theorem shutdown_drain_undone:
  assumes "handshake_reply hs = Inr msg" and "m_type msg = TypeWelcome" and "m_config msg = Some cfg"
    and "fst (ReadStreamHeader (se_source env)) = Inr port"
    and "map_of (Ports cfg) (itoa port) = Some remote" and "remote \<noteq> ''''"
    and "c' = snd (session_handshake hs conn (shutdown_begin c))"
  shows "\<not> cl_draining c' \<and> sr_dialled (snd (handleStream env (shutdown_begin c))) = None \<and>
    sr_dialled (snd (handleStream env c')) = Some (remote, dial_limit c')"
proof -
  obtain r where r: "ReadStreamHeader (se_source env) = (Inr port, r)"
    using assms(4) by (metis prod.collapse)
  have c': "\<not> cl_draining c'" "cl_cfg c' = Some cfg"
    using assms(1-3,7) by (auto simp: session_handshake_def setCtrl_def setSession_def setConfig_def)
  then have "remoteFor port c' = remote"
    using assms(5) by (simp add: remoteFor_def map_index_def)
  moreover have "sr_dialled (snd (handleStream env (shutdown_begin c))) = None"
    by (simp add: handleStream_def serve_stream_def r refuse_stream_def shutdown_begin_def split_beta)
  ultimately show ?thesis
    using c' assms(6)
    by (auto simp: handleStream_def serve_stream_def r refuse_stream_def pipe_stream_def Let_def
        split: prod.split option.split)
qed

definition welcome_env :: handshake_env where
  "welcome_env = \<lparr>he_dial = None, he_write = None,
     he_reply = Inr (zero_message\<lparr>m_type := TypeWelcome, m_session := ''s'',
       m_config := Some (sample_node_config [(''80'', ''h:1'')])\<rparr>)\<rparr>"

definition stream_80_env :: stream_env where
  "stream_80_env = \<lparr>se_source = header_source (stream_header 80), se_sink = empty_sink,
     se_dial = (\<lambda>_ _. True), se_service = (\<lambda>_. []), se_local_room = None\<rparr>"

theorem shutdown_drain_undone_witness:
  "\<not> cl_draining (snd (session_handshake welcome_env 2 (shutdown_begin sample_client))) \<and>
   sr_dialled (snd (handleStream stream_80_env (shutdown_begin sample_client))) = None"
proof -
  have h: "fst (ReadStreamHeader (se_source stream_80_env)) = Inr 80"
    using header_codec.dec_enc [of 80 "[]"]
    by (auto simp: valid_port_def stream_80_env_def split: prod.splits sum.splits)
  have i: "map_of (Ports (sample_node_config [(''80'', ''h:1'')])) (itoa 80) = Some ''h:1''" by code_simp
  show ?thesis
    using shutdown_drain_undone [OF _ _ _ h i _ refl, of welcome_env _ 2 sample_client]
    by (simp add: welcome_env_def handshake_reply_def)
qed

end
