(* ===== verification/Host_Port.thy ===== *)
theory Host_Port
  imports Tunnel_Prelude
begin

text \<open>
  The address helpers of internal/config/config.go (\<open>validateHostPort\<close>, \<open>portOf\<close>,
  \<open>ListenAddr\<close>) and the two functions of Go's \<open>net\<close> package they call, \<open>SplitHostPort\<close> and
  \<open>JoinHostPort\<close>, which treat a bracketed host apart so that an IPv6 literal may hold colons.
  A parse error is a value of \<open>addr_error\<close>.
\<close>

datatype addr_error = MissingPort | TooManyColons | MissingBracket | UnexpectedOpen | UnexpectedClose

section \<open>Splitting and joining\<close>

abbreviation "colon \<equiv> CHR '':''"
abbreviation "lbracket \<equiv> CHR ''[''"
abbreviation "rbracket \<equiv> CHR '']''"

definition index_of :: "'a \<Rightarrow> 'a list \<Rightarrow> nat option" where
  "index_of c s = (if c \<in> set s then Some (length (takeWhile (\<lambda>x. x \<noteq> c) s)) else None)"

definition last_index_of :: "'a \<Rightarrow> 'a list \<Rightarrow> nat option" where
  "last_index_of c s = map_option (\<lambda>j. length s - 1 - j) (index_of c (rev s))"

text \<open>The common tail: \<open>i\<close> is the last colon, no bracket may stand from \<open>j\<close> resp. \<open>k\<close> on.\<close>

definition split_tail ::
  "string \<Rightarrow> nat \<Rightarrow> string \<Rightarrow> nat \<Rightarrow> nat \<Rightarrow> addr_error + string \<times> string" where
  "split_tail s i host j k =
     (if lbracket \<in> set (drop j s) then Inl UnexpectedOpen
      else if rbracket \<in> set (drop k s) then Inl UnexpectedClose
      else Inr (host, drop (i + 1) s))"

definition SplitHostPort :: "string \<Rightarrow> addr_error + string \<times> string" where
  "SplitHostPort s =
     (case last_index_of colon s of
        None \<Rightarrow> Inl MissingPort
      | Some i \<Rightarrow>
          if s ! 0 = lbracket
          then (case index_of rbracket s of
                  None \<Rightarrow> Inl MissingBracket
                | Some e \<Rightarrow>
                    if e + 1 = length s then Inl MissingPort
                    else if e + 1 = i then split_tail s i (take (e - 1) (drop 1 s)) 1 (e + 1)
                    else if s ! (e + 1) = colon then Inl TooManyColons
                    else Inl MissingPort)
          else if colon \<in> set (take i s) then Inl TooManyColons
          else split_tail s i (take i s) 0 0)"

definition JoinHostPort :: "string \<Rightarrow> string \<Rightarrow> string" where
  "JoinHostPort host port =
     (if colon \<in> set host then lbracket # host @ rbracket # colon # port
      else host @ colon # port)"

section \<open>The helpers of the configuration\<close>

datatype remote_error = EmptyRemote | BadAddr addr_error | MissingHost | BadPort string

definition validateHostPort :: "string \<Rightarrow> remote_error option" where
  "validateHostPort s =
     (if s = [] then Some EmptyRemote
      else case SplitHostPort s of
             Inl e \<Rightarrow> Some (BadAddr e)
           | Inr (host, port) \<Rightarrow>
               if host = [] then Some MissingHost
               else case atoi port of
                      None \<Rightarrow> Some (BadPort port)
                    | Some p \<Rightarrow> if p < 1 \<or> 65535 < p then Some (BadPort port) else None)"

definition portOf :: "string \<Rightarrow> int option" where
  "portOf addr =
     (if addr = [] then None
      else case SplitHostPort addr of Inl e \<Rightarrow> None | Inr (host, port) \<Rightarrow> atoi port)"

definition ListenHost :: string where
  "ListenHost = ''127.0.0.1''"

definition ListenAddr :: "int \<Rightarrow> string" where
  "ListenAddr port = JoinHostPort ListenHost (itoa port)"

section \<open>Splitting inverts joining\<close>

lemma index_of_split: "c \<notin> set xs \<Longrightarrow> index_of c (xs @ c # ys) = Some (length xs)"
  by (induction xs) (auto simp: index_of_def)

lemma last_index_of_split: "c \<notin> set ys \<Longrightarrow> last_index_of c (xs @ c # ys) = Some (length xs)"
  by (simp add: last_index_of_def index_of_split)

lemma last_index_of_None: "last_index_of c s = None \<longleftrightarrow> c \<notin> set s"
  by (simp add: last_index_of_def index_of_def)

lemma last_index_of_Some:
  assumes "last_index_of c s = Some i"
  obtains xs ys where "s = xs @ c # ys" "c \<notin> set ys" "i = length xs"
proof -
  from assms have "c \<in> set s" using last_index_of_None [of c s] by fastforce
  then obtain xs ys where "s = xs @ c # ys" "c \<notin> set ys" by (meson split_list_last)
  with assms that show thesis by (simp add: last_index_of_split)
qed

lemma index_of_Some:
  assumes "index_of c s = Some i"
  obtains xs ys where "s = xs @ c # ys" "c \<notin> set xs" "i = length xs"
proof -
  from assms have "c \<in> set s" by (auto simp: index_of_def split: if_splits)
  then obtain xs ys where "s = xs @ c # ys" "c \<notin> set xs" by (meson split_list_first)
  with assms that show thesis by (simp add: index_of_split)
qed

definition plain :: "string \<Rightarrow> bool" where
  "plain s \<longleftrightarrow> lbracket \<notin> set s \<and> rbracket \<notin> set s"

lemma Split_plain:
  assumes "plain h" "plain p" "colon \<notin> set h" "colon \<notin> set p"
  shows "SplitHostPort (h @ colon # p) = Inr (h, p)"
proof -
  have "(h @ colon # p) ! 0 \<noteq> lbracket"
    using assms(1) by (cases h) (auto simp: plain_def)
  then show ?thesis
    using assms by (simp add: SplitHostPort_def last_index_of_split split_tail_def plain_def)
qed

lemma Split_bracketed:
  assumes "plain h" "plain p" "colon \<notin> set p"
  shows "SplitHostPort (lbracket # h @ rbracket # colon # p) = Inr (h, p)"
proof -
  let ?s = "lbracket # h @ rbracket # colon # p"
  have "?s = (lbracket # h @ [rbracket]) @ colon # p" by simp
  then have "last_index_of colon ?s = Some (length h + 2)"
    using assms last_index_of_split [of colon p "lbracket # h @ [rbracket]"] by simp
  moreover have "index_of rbracket ?s = Some (length h + 1)"
    using assms index_of_split [of rbracket "lbracket # h"] by (simp add: plain_def)
  ultimately show ?thesis
    using assms by (simp add: SplitHostPort_def split_tail_def plain_def)
qed

lemma Split_Join:
  "plain h \<Longrightarrow> plain p \<Longrightarrow> colon \<notin> set p \<Longrightarrow> SplitHostPort (JoinHostPort h p) = Inr (h, p)"
  by (simp add: JoinHostPort_def Split_plain Split_bracketed)

text \<open>Conversely, an address that splits is one of the two forms.\<close>

lemma Split_Some:
  assumes "SplitHostPort s = Inr (h, p)"
  shows "(s = h @ colon # p \<and> colon \<notin> set h \<or> s = lbracket # h @ rbracket # colon # p) \<and>
    plain h \<and> plain p \<and> colon \<notin> set p"
proof -
  obtain i where i: "last_index_of colon s = Some i"
    using assms by (auto simp: SplitHostPort_def split: option.splits)
  obtain xs ys where s: "s = xs @ colon # ys" "colon \<notin> set ys" "i = length xs"
    using i by (rule last_index_of_Some)
  show ?thesis
  proof (cases "s ! 0 = lbracket")
    case False
    with assms i have "h = xs" "p = ys" "colon \<notin> set xs" "plain s"
      using s by (auto simp: SplitHostPort_def split_tail_def plain_def split: if_splits)
    with s show ?thesis by (simp add: plain_def)
  next
    case True
    with assms obtain e where e: "index_of rbracket s = Some e" "e + 1 = i"
      by (auto simp: SplitHostPort_def i split: option.splits if_splits)
    obtain us vs where u: "s = us @ rbracket # vs" "rbracket \<notin> set us" "e = length us"
      using e(1) by (rule index_of_Some)
    have "us \<noteq> []" using True u(1) by (cases us) auto
    with True u obtain h' where us: "us = lbracket # h'" by (cases us) auto
    have "take i s = xs" using s by simp
    moreover have "take i s = us @ [rbracket]"
    proof -
      have "i = length (us @ [rbracket])" using u(3) e(2) by simp
      moreover have "s = (us @ [rbracket]) @ vs" using u(1) by simp
      ultimately show ?thesis by (metis append_eq_conv_conj)
    qed
    ultimately have xs: "xs = lbracket # h' @ [rbracket]" using us by simp
    have "e + 1 \<noteq> length s" using s e(2) by simp
    then have tail: "split_tail s i (take (e - 1) (drop 1 s)) 1 (e + 1) = Inr (h, p)"
      using assms i e True by (simp add: SplitHostPort_def)
    have "s = lbracket # h' @ rbracket # colon # ys" using s(1) xs by simp
    moreover have "rbracket \<notin> set h'" "e = Suc (length h')" "i = Suc (Suc (length h'))"
      using u us e(2) by simp_all
    ultimately show ?thesis
      using tail s(2) by (auto simp: split_tail_def plain_def split: if_splits)
  qed
qed

lemma digits_plain: "set (digits_of n) \<subseteq> digit_char ` {..<10}"
proof (induction n rule: digits_of.induct)
  case (1 n)
  then show ?case by (subst digits_of.simps) (auto split: if_splits)
qed

lemma digit_char_not_punct:
  "d < 10 \<Longrightarrow> digit_char d \<noteq> colon \<and> digit_char d \<noteq> lbracket \<and> digit_char d \<noteq> rbracket"
  by (auto simp: digit_char_def dest!: arg_cong [of _ _ "of_char :: char \<Rightarrow> nat"])

lemma itoa_chars: "colon \<notin> set (itoa n) \<and> plain (itoa n)"
proof -
  have d: "c \<noteq> colon \<and> c \<noteq> lbracket \<and> c \<noteq> rbracket" if "c \<in> set (digits_of k)" for c k
  proof -
    from that digits_plain obtain x where "c = digit_char x" "x < 10" by blast
    then show ?thesis by (simp add: digit_char_not_punct)
  qed
  have "set (itoa n) \<subseteq> insert CHR ''-'' (set (digits_of (nat (- n))) \<union> set (digits_of (nat n)))"
    by (auto simp: itoa_def)
  moreover have "CHR ''-'' \<notin> {colon, lbracket, rbracket}" by simp
  ultimately have "c \<noteq> colon \<and> c \<noteq> lbracket \<and> c \<noteq> rbracket" if "c \<in> set (itoa n)" for c
    using that d [of c] by blast
  then show ?thesis by (auto simp: plain_def)
qed

lemma portOf_Join: "plain h \<Longrightarrow> int64_range n \<Longrightarrow> portOf (JoinHostPort h (itoa n)) = Some n"
  using Split_Join [of h "itoa n"]
  by (simp add: portOf_def itoa_chars atoi_itoa) (auto simp: JoinHostPort_def split: if_splits)

lemma validateHostPort_None:
  "validateHostPort s = None \<longleftrightarrow>
     (\<exists>h p n. SplitHostPort s = Inr (h, p) \<and> h \<noteq> [] \<and> atoi p = Some n \<and> 1 \<le> n \<and> n \<le> 65535)"
  by (auto simp: validateHostPort_def SplitHostPort_def last_index_of_def index_of_def
      split: sum.splits option.splits if_splits)

lemma validateHostPort_nonempty: "validateHostPort s = None \<Longrightarrow> s \<noteq> []"
  by (auto simp: validateHostPort_def)

section \<open>Properties\<close>

text \<open>\<open>SplitHostPort\<close> returns exactly what \<open>JoinHostPort\<close> was given, IPv6 hosts included,
  and the port the server reserves for an address it listens on, \<open>portOf\<close>, is the port of that
  address; a reverse port's address is its port on loopback.\<close>

theorem host_port_roundtrip:
  assumes "lbracket \<notin> set h \<and> rbracket \<notin> set h" and "int64_range n"
  shows "SplitHostPort (JoinHostPort h (itoa n)) = Inr (h, itoa n) \<and>
    portOf (JoinHostPort h (itoa n)) = Some n \<and> portOf (ListenAddr n) = Some n"
proof -
  have "plain h" "plain ListenHost" using assms(1) by (auto simp: plain_def ListenHost_def)
  with assms(2) show ?thesis by (simp add: Split_Join itoa_chars portOf_Join ListenAddr_def)
qed

theorem host_port_roundtrip_witness:
  "SplitHostPort (JoinHostPort ''::1'' (itoa 8443)) = Inr (''::1'', itoa 8443) \<and>
   portOf (JoinHostPort ''::1'' (itoa 8443)) = Some 8443 \<and> portOf (ListenAddr 8443) = Some 8443"
  using host_port_roundtrip [of "''::1''" 8443] by (simp add: int64_range_def)

end
