(* ===== verification/Config_Load.thy ===== *)
theory Config_Load
  imports Host_Port Control_Messages
begin

text \<open>
  internal/config/config.go: loading and validating the configuration. The file system, the
  YAML parser, the decoding of a YAML node into a raw entry and \<open>time.ParseDuration\<close> are
  parameters, gathered in \<open>config_lib\<close>; everything the loader itself decides is modelled,
  each warning a value of \<open>warning\<close>, in the order of the document. A Go map is an association
  list; the loops of \<open>Load\<close> are folds of \<open>load_node\<close> and \<open>load_port\<close> over the pairs of their
  section.
\<close>

section \<open>Data\<close>

datatype ykind =
  ZeroKind | DocumentNode | SequenceNode | MappingNode | ScalarNode | AliasNode | OtherKind nat

datatype ynode = YNode (y_kind: ykind) (y_value: string) (y_content: "ynode list")

record Settings =
  st_heartbeat :: duration
  st_dial_timeout :: duration
  st_queue_timeout :: duration
  st_max_streams :: int

record NodeSpec =
  ns_spec_name :: string
  ns_spec_key :: string
  ns_spec_channels :: int

record PortSpec =
  ps_port :: int
  ps_node :: string
  ps_remote :: string

record config =
  cfg_path :: string
  cfg_listen :: string
  cfg_status_listen :: string
  cfg_settings :: Settings
  cfg_nodes :: "(string \<times> NodeSpec) list"
  cfg_node_order :: "string list"
  cfg_ports :: "(int \<times> PortSpec) list"
  cfg_port_order :: "int list"

record rawSettings =
  rs_heartbeat :: string
  rs_dial_timeout :: string
  rs_queue_timeout :: string
  rs_max_streams :: int

record rawNode =
  rn_key :: string
  rn_channels :: "int option"

record rawPort =
  rp_node :: string
  rp_remote :: string

record rawFile =
  rf_listen :: string
  rf_status_listen :: string
  rf_settings :: rawSettings
  rf_nodes :: ynode
  rf_ports :: ynode

record config_lib =
  read_file :: "string \<Rightarrow> string + byte list"
  unmarshal :: "byte list \<Rightarrow> string + rawFile"
  decode_node :: "ynode \<Rightarrow> string + rawNode"
  decode_port :: "ynode \<Rightarrow> string + rawPort"
  parse_duration :: "string \<Rightarrow> duration option"

datatype load_error = ReadConfig string | ParseConfig string | ListenRequired

datatype warning =
    BadDuration string string duration
  | BadMaxStreams int int
  | NotAMapping string string
  | NodeNotDecoded string string
  | DuplicateNode string
  | KeyRequired string
  | KeyInUse string string
  | BadChannels string int int
  | PortNotANumber string
  | PortOutOfRange int
  | PortReserved int string
  | DuplicatePort int
  | PortNotDecoded int string
  | NoSuchNode int string
  | BadRemote int string remote_error

definition DefaultHeartbeat :: duration where "DefaultHeartbeat = 15 * second"
definition DefaultDialTimeout :: duration where "DefaultDialTimeout = 10 * second"
definition DefaultQueueTimeout :: duration where "DefaultQueueTimeout = 5 * second"
definition DefaultMaxStreamsPerConn :: int where "DefaultMaxStreamsPerConn = 256"
definition DefaultChannels :: int where "DefaultChannels = 4"

section \<open>Helpers\<close>

definition kindName :: "ykind \<Rightarrow> string" where
  "kindName k =
     (case k of
        DocumentNode \<Rightarrow> ''document''
      | SequenceNode \<Rightarrow> ''sequence''
      | MappingNode \<Rightarrow> ''mapping''
      | ScalarNode \<Rightarrow> ''scalar''
      | AliasNode \<Rightarrow> ''alias''
      | _ \<Rightarrow> ''unknown'')"

fun pair_up :: "ynode list \<Rightarrow> (string \<times> ynode) list" where
  "pair_up (k # v # rest) = (y_value k, v) # pair_up rest"
| "pair_up rest = []"

definition mappingPairs :: "ynode option \<Rightarrow> string \<Rightarrow> (string \<times> ynode) list \<times> warning list" where
  "mappingPairs n section_name =
     (case n of
        None \<Rightarrow> ([], [])
      | Some y \<Rightarrow>
          if y_kind y = ZeroKind then ([], [])
          else if y_kind y \<noteq> MappingNode
          then ([], [NotAMapping section_name (kindName (y_kind y))])
          else (pair_up (y_content y), []))"

definition parseDuration ::
  "config_lib \<Rightarrow> string \<Rightarrow> duration \<Rightarrow> string \<Rightarrow> duration \<times> warning list" where
  "parseDuration lib s def field =
     (if s = '''' then (def, [])
      else case parse_duration lib s of
             None \<Rightarrow> (def, [BadDuration field s def])
           | Some d \<Rightarrow> if d \<le> 0 then (def, [BadDuration field s def]) else (d, []))"

section \<open>Loading\<close>

record load_state =
  ld_cfg :: config
  ld_key_owner :: "(string \<times> string) list"
  ld_warnings :: "warning list"

definition warn :: "warning \<Rightarrow> load_state \<Rightarrow> load_state" where
  "warn w st = st\<lparr>ld_warnings := ld_warnings st @ [w]\<rparr>"

definition load_settings :: "config_lib \<Rightarrow> rawSettings \<Rightarrow> Settings \<times> warning list" where
  "load_settings lib raw =
     (let (hb, w1) = parseDuration lib (rs_heartbeat raw) DefaultHeartbeat ''settings.heartbeat'';
          (dt, w2) = parseDuration lib (rs_dial_timeout raw) DefaultDialTimeout ''settings.dial_timeout'';
          (qt, w3) = parseDuration lib (rs_queue_timeout raw) DefaultQueueTimeout ''settings.queue_timeout'';
          m = rs_max_streams raw;
          w4 = (if m < 1 \<and> m \<noteq> 0 then [BadMaxStreams m DefaultMaxStreamsPerConn] else [])
      in (\<lparr>st_heartbeat = hb, st_dial_timeout = dt, st_queue_timeout = qt,
           st_max_streams = (if m < 1 then DefaultMaxStreamsPerConn else m)\<rparr>,
          w1 @ w2 @ w3 @ w4))"

definition reserved_ports :: "string \<Rightarrow> string \<Rightarrow> (int \<times> string) list" where
  "reserved_ports listen status_listen =
     (let r = (case portOf listen of None \<Rightarrow> [] | Some p \<Rightarrow> AList.update p ''listen'' [])
      in case portOf status_listen of None \<Rightarrow> r | Some p \<Rightarrow> AList.update p ''status_listen'' r)"

text \<open>The channel count of a node: the default unless a valid one is given.\<close>

definition node_channels :: "rawNode \<Rightarrow> int" where
  "node_channels rn =
     (case rn_channels rn of
        None \<Rightarrow> DefaultChannels
      | Some n \<Rightarrow> if n < 1 then DefaultChannels else n)"

definition warn_channels :: "string \<Rightarrow> rawNode \<Rightarrow> load_state \<Rightarrow> load_state" where
  "warn_channels name rn st =
     (case rn_channels rn of
        None \<Rightarrow> st
      | Some n \<Rightarrow> if n < 1 then warn (BadChannels name n DefaultChannels) st else st)"

definition add_node :: "string \<Rightarrow> rawNode \<Rightarrow> load_state \<Rightarrow> load_state" where
  "add_node name rn st =
     st\<lparr>ld_key_owner := AList.update (rn_key rn) name (ld_key_owner st),
        ld_cfg := (ld_cfg st)
          \<lparr>cfg_nodes :=
             AList.update name
               \<lparr>ns_spec_name = name, ns_spec_key = rn_key rn, ns_spec_channels = node_channels rn\<rparr>
               (cfg_nodes (ld_cfg st)),
           cfg_node_order := cfg_node_order (ld_cfg st) @ [name]\<rparr>\<rparr>"

definition load_node :: "config_lib \<Rightarrow> string \<times> ynode \<Rightarrow> load_state \<Rightarrow> load_state" where
  "load_node lib kv st =
     (let name = fst kv in
      case decode_node lib (snd kv) of
        Inl e \<Rightarrow> warn (NodeNotDecoded name e) st
      | Inr rn \<Rightarrow>
          if map_of (cfg_nodes (ld_cfg st)) name \<noteq> None then warn (DuplicateNode name) st
          else if rn_key rn = '''' then warn (KeyRequired name) st
          else (case map_of (ld_key_owner st) (rn_key rn) of
                  Some owner \<Rightarrow> warn (KeyInUse name owner) st
                | None \<Rightarrow> add_node name rn (warn_channels name rn st)))"

definition add_port :: "int \<Rightarrow> rawPort \<Rightarrow> load_state \<Rightarrow> load_state" where
  "add_port port rp st =
     st\<lparr>ld_cfg := (ld_cfg st)
          \<lparr>cfg_ports :=
             AList.update port \<lparr>ps_port = port, ps_node = rp_node rp, ps_remote = rp_remote rp\<rparr>
               (cfg_ports (ld_cfg st)),
           cfg_port_order := cfg_port_order (ld_cfg st) @ [port]\<rparr>\<rparr>"

definition load_port ::
  "config_lib \<Rightarrow> (int \<times> string) list \<Rightarrow> string \<times> ynode \<Rightarrow> load_state \<Rightarrow> load_state" where
  "load_port lib reserved kv st =
     (case atoi (fst kv) of
        None \<Rightarrow> warn (PortNotANumber (fst kv)) st
      | Some port \<Rightarrow>
          if port < 1 \<or> 65535 < port then warn (PortOutOfRange port) st
          else case map_of reserved port of
            Some who \<Rightarrow> warn (PortReserved port who) st
          | None \<Rightarrow>
              if map_of (cfg_ports (ld_cfg st)) port \<noteq> None then warn (DuplicatePort port) st
              else case decode_port lib (snd kv) of
                Inl e \<Rightarrow> warn (PortNotDecoded port e) st
              | Inr rp \<Rightarrow>
                  if map_of (cfg_nodes (ld_cfg st)) (rp_node rp) = None
                  then warn (NoSuchNode port (rp_node rp)) st
                  else case validateHostPort (rp_remote rp) of
                    Some e \<Rightarrow> warn (BadRemote port (rp_remote rp) e) st
                  | None \<Rightarrow> add_port port rp st)"

definition load_nodes :: "config_lib \<Rightarrow> ynode \<Rightarrow> load_state \<Rightarrow> load_state" where
  "load_nodes lib y st =
     (case mappingPairs (Some y) ''nodes'' of (kvs, ws) \<Rightarrow> fold (load_node lib) kvs (fold warn ws st))"

definition load_ports ::
  "config_lib \<Rightarrow> (int \<times> string) list \<Rightarrow> ynode \<Rightarrow> load_state \<Rightarrow> load_state" where
  "load_ports lib reserved y st =
     (case mappingPairs (Some y) ''ports'' of (kvs, ws) \<Rightarrow>
        fold (load_port lib reserved) kvs (fold warn ws st))"

definition load_sections :: "config_lib \<Rightarrow> rawFile \<Rightarrow> load_state \<Rightarrow> load_state" where
  "load_sections lib raw st =
     load_ports lib (reserved_ports (rf_listen raw) (rf_status_listen raw)) (rf_ports raw)
       (load_nodes lib (rf_nodes raw) st)"

definition Load :: "config_lib \<Rightarrow> string \<Rightarrow> load_error + config \<times> warning list" where
  "Load lib path =
     (case read_file lib path of
        Inl e \<Rightarrow> Inl (ReadConfig e)
      | Inr data \<Rightarrow>
          (case unmarshal lib data of
             Inl e \<Rightarrow> Inl (ParseConfig e)
           | Inr raw \<Rightarrow>
               if rf_listen raw = '''' then Inl ListenRequired
               else (let (settings, sw) = load_settings lib (rf_settings raw);
                         cfg = \<lparr>cfg_path = path, cfg_listen = rf_listen raw,
                                cfg_status_listen = rf_status_listen raw, cfg_settings = settings,
                                cfg_nodes = [], cfg_node_order = [],
                                cfg_ports = [], cfg_port_order = []\<rparr>;
                         st = load_sections lib raw
                                \<lparr>ld_cfg = cfg, ld_key_owner = [], ld_warnings = sw\<rparr>
                     in Inr (ld_cfg st, ld_warnings st))))"

section \<open>Queries\<close>

text \<open>\<open>c.Ports[p]\<close> for a port of the document order is present (\<open>config_wf\<close> below); an absent
  one would be a nil pointer, read here as an owner-less entry.\<close>

definition owned_by :: "config \<Rightarrow> string \<Rightarrow> int \<Rightarrow> PortSpec option" where
  "owned_by c node p =
     (case map_of (cfg_ports c) p of
        None \<Rightarrow> None
      | Some ps \<Rightarrow> if ps_node ps = node then Some ps else None)"

definition PortsOf :: "config \<Rightarrow> string \<Rightarrow> PortSpec list" where
  "PortsOf c node = List.map_filter (owned_by c node) (cfg_port_order c)"

definition allow_list :: "config \<Rightarrow> string \<Rightarrow> (string \<times> string) list" where
  "allow_list c node =
     fold (\<lambda>p m. case owned_by c node p of None \<Rightarrow> m | Some ps \<Rightarrow> AList.update (itoa p) (ps_remote ps) m)
       (cfg_port_order c) []"

definition Config_NodeConfig :: "config \<Rightarrow> string \<Rightarrow> node_config option" where
  "Config_NodeConfig c node =
     (case map_of (cfg_nodes c) node of
        None \<Rightarrow> None
      | Some spec \<Rightarrow> Some
          \<lparr>Ports = allow_list c node,
           Channels = ns_spec_channels spec,
           Heartbeat = st_heartbeat (cfg_settings c),
           DialTimeout = st_dial_timeout (cfg_settings c),
           MaxStreamsPerConn = st_max_streams (cfg_settings c)\<rparr>)"

fun key_scan :: "config \<Rightarrow> string \<Rightarrow> NodeSpec option \<Rightarrow> string list \<Rightarrow> NodeSpec option" where
  "key_scan c key match [] = match"
| "key_scan c key match (name # names) =
     (case map_of (cfg_nodes c) name of
        None \<Rightarrow> key_scan c key match names
      | Some n \<Rightarrow>
          if ns_spec_key n = key \<and> match = None then key_scan c key (Some n) names
          else key_scan c key match names)"

definition NodeByKey :: "config \<Rightarrow> string \<Rightarrow> NodeSpec option" where
  "NodeByKey c key = (if key = '''' then None else key_scan c key None (cfg_node_order c))"

definition SortedPorts :: "config \<Rightarrow> int list" where
  "SortedPorts c = sort (keys (cfg_ports c))"

end
