(* ===== verification/Config_Laws.thy ===== *)
theory Config_Laws
  imports Config_Load
begin

text \<open>
  What a loaded configuration guarantees. The invariant \<open>config_wf\<close> is kept by every step of
  the two loops of \<open>Load\<close>; the queries \<open>NodeByKey\<close>, \<open>NodeConfig\<close>, \<open>PortsOf\<close> are characterised
  under it, and the accepted ports are exactly the first valid entries of the document.
\<close>

section \<open>The invariant\<close>

definition spec_ok :: "string \<Rightarrow> NodeSpec \<Rightarrow> bool" where
  "spec_ok name n \<longleftrightarrow> ns_spec_name n = name \<and> ns_spec_key n \<noteq> '''' \<and> 1 \<le> ns_spec_channels n"

definition nodes_wf :: "config \<Rightarrow> bool" where
  "nodes_wf c \<longleftrightarrow>
     distinct (keys (cfg_nodes c)) \<and> distinct (cfg_node_order c) \<and>
     set (cfg_node_order c) = set (keys (cfg_nodes c)) \<and>
     list_all (\<lambda>(name, n). spec_ok name n) (cfg_nodes c) \<and>
     distinct (map (ns_spec_key \<circ> snd) (cfg_nodes c))"

definition port_ok :: "config \<Rightarrow> int \<Rightarrow> PortSpec \<Rightarrow> bool" where
  "port_ok c p ps \<longleftrightarrow>
     ps_port ps = p \<and> 1 \<le> p \<and> p \<le> 65535 \<and>
     map_of (reserved_ports (cfg_listen c) (cfg_status_listen c)) p = None \<and>
     map_of (cfg_nodes c) (ps_node ps) \<noteq> None \<and> validateHostPort (ps_remote ps) = None"

definition ports_wf :: "config \<Rightarrow> bool" where
  "ports_wf c \<longleftrightarrow>
     distinct (keys (cfg_ports c)) \<and> distinct (cfg_port_order c) \<and>
     set (cfg_port_order c) = set (keys (cfg_ports c)) \<and>
     list_all (\<lambda>(p, ps). port_ok c p ps) (cfg_ports c)"

definition settings_wf :: "config \<Rightarrow> bool" where
  "settings_wf c \<longleftrightarrow>
     cfg_listen c \<noteq> '''' \<and> 0 < st_heartbeat (cfg_settings c) \<and> 0 < st_dial_timeout (cfg_settings c) \<and>
     0 < st_queue_timeout (cfg_settings c) \<and> 1 \<le> st_max_streams (cfg_settings c)"

definition config_wf :: "config \<Rightarrow> bool" where
  "config_wf c \<longleftrightarrow> nodes_wf c \<and> ports_wf c \<and> settings_wf c"

text \<open>The key owners known to the first loop are those of the nodes kept so far.\<close>

definition owners_wf :: "load_state \<Rightarrow> bool" where
  "owners_wf st \<longleftrightarrow>
     (\<forall>k. map_of (ld_key_owner st) k \<noteq> None \<longleftrightarrow> k \<in> ns_spec_key ` snd ` set (cfg_nodes (ld_cfg st)))"

lemmas config_wf_defs = config_wf_def nodes_wf_def ports_wf_def settings_wf_def

lemma warn_simps [config_simps, simp]:
  "ld_cfg (warn w st) = ld_cfg st" "ld_key_owner (warn w st) = ld_key_owner st"
  "ld_warnings (warn w st) = ld_warnings st @ [w]"
  by (simp_all add: warn_def)

lemma warn_channels_simps [config_simps, simp]:
  "ld_cfg (warn_channels name rn st) = ld_cfg st"
  "ld_key_owner (warn_channels name rn st) = ld_key_owner st"
  by (simp_all add: warn_channels_def split: option.split)

lemma fold_warn [simp]:
  "ld_cfg (fold warn ws st) = ld_cfg st" "ld_key_owner (fold warn ws st) = ld_key_owner st"
  by (induction ws arbitrary: st) simp_all

lemma update_fresh: "k \<notin> set (keys m) \<Longrightarrow> AList.update k v m = m @ [(k, v)]"
  by (induction m) auto

lemma map_of_None_keys: "map_of m k = None \<longleftrightarrow> k \<notin> set (keys m)"
  by (simp add: map_of_eq_None_iff)

text \<open>What one entry of a section does: nothing but a warning, or one more entry kept.\<close>

lemma load_node_cases:
  obtains (dropped) w where "load_node lib kv st = warn w st"
    | (kept) rn where "load_node lib kv st = add_node (fst kv) rn (warn_channels (fst kv) rn st)"
        "decode_node lib (snd kv) = Inr rn" "rn_key rn \<noteq> ''''"
        "map_of (cfg_nodes (ld_cfg st)) (fst kv) = None"
        "map_of (ld_key_owner st) (rn_key rn) = None"
proof (cases "decode_node lib (snd kv)")
  case (Inl e)
  then show thesis by (intro dropped) (simp add: load_node_def)
next
  case (Inr rn)
  note r = this
  let ?dup = "map_of (cfg_nodes (ld_cfg st)) (fst kv) \<noteq> None"
  consider "?dup" | "\<not> ?dup" "rn_key rn = ''''" |
    owner where "\<not> ?dup" "rn_key rn \<noteq> ''''" "map_of (ld_key_owner st) (rn_key rn) = Some owner" |
    "\<not> ?dup" "rn_key rn \<noteq> ''''" "map_of (ld_key_owner st) (rn_key rn) = None"
    by blast
  then show thesis
  proof cases
    case 1
    with r show thesis by (intro dropped [of "DuplicateNode (fst kv)"]) (auto simp: load_node_def)
  next
    case 2
    with r show thesis by (intro dropped [of "KeyRequired (fst kv)"]) (auto simp: load_node_def)
  next
    case 3
    with r show thesis by (intro dropped [of "KeyInUse (fst kv) owner"]) (auto simp: load_node_def)
  next
    case 4
    with r show thesis by (intro kept [of rn]) (auto simp: load_node_def Let_def)
  qed
qed

definition port_entry_ok ::
  "config_lib \<Rightarrow> (int \<times> string) list \<Rightarrow> config \<Rightarrow> string \<times> ynode \<Rightarrow> int \<Rightarrow> rawPort \<Rightarrow> bool" where
  "port_entry_ok lib reserved c kv p rp \<longleftrightarrow>
     atoi (fst kv) = Some p \<and> 1 \<le> p \<and> p \<le> 65535 \<and> map_of reserved p = None \<and>
     decode_port lib (snd kv) = Inr rp \<and> map_of (cfg_nodes c) (rp_node rp) \<noteq> None \<and>
     validateHostPort (rp_remote rp) = None"

lemma load_port_cases:
  obtains (dropped) w where "load_port lib reserved kv st = warn w st"
      "\<And>p rp. port_entry_ok lib reserved (ld_cfg st) kv p rp \<Longrightarrow>
         map_of (cfg_ports (ld_cfg st)) p \<noteq> None"
    | (kept) p rp where "load_port lib reserved kv st = add_port p rp st"
        "port_entry_ok lib reserved (ld_cfg st) kv p rp"
        "map_of (cfg_ports (ld_cfg st)) p = None"
proof (cases "atoi (fst kv)")
  case None
  then show thesis
    by (intro dropped) (auto simp: load_port_def port_entry_ok_def)
next
  case (Some p)
  note p = this
  show thesis
  proof (cases "(p < 1 \<or> 65535 < p) \<or> map_of reserved p \<noteq> None \<or>
      map_of (cfg_ports (ld_cfg st)) p \<noteq> None")
    case True
    then show thesis
      by (intro dropped [of "if p < 1 \<or> 65535 < p then PortOutOfRange p
            else case map_of reserved p of Some who \<Rightarrow> PortReserved p who | None \<Rightarrow> DuplicatePort p"])
        (auto simp: load_port_def port_entry_ok_def p split: option.split)
  next
    case False
    note f = this
    show thesis
    proof (cases "decode_port lib (snd kv)")
      case (Inl e)
      with f show thesis
        by (intro dropped [of "PortNotDecoded p e"]) (auto simp: load_port_def port_entry_ok_def p)
    next
      case (Inr rp)
      note r = this
      show thesis
      proof (cases "map_of (cfg_nodes (ld_cfg st)) (rp_node rp)")
        case None
        with f r show thesis
          by (intro dropped [of "NoSuchNode p (rp_node rp)"])
            (auto simp: load_port_def port_entry_ok_def p)
      next
        case (Some n)
        with f r show thesis
          by (cases "validateHostPort (rp_remote rp)")
            (auto intro: dropped [of "BadRemote p (rp_remote rp) (the (validateHostPort (rp_remote rp)))"]
               kept [of p rp] simp: load_port_def port_entry_ok_def p)
      qed
    qed
  qed
qed

section \<open>The loops keep the invariant\<close>

definition node_loop_inv :: "load_state \<Rightarrow> bool" where
  "node_loop_inv st \<longleftrightarrow>
     nodes_wf (ld_cfg st) \<and> owners_wf st \<and>
     cfg_ports (ld_cfg st) = [] \<and> cfg_port_order (ld_cfg st) = [] \<and> settings_wf (ld_cfg st)"

lemma node_channels_pos: "1 \<le> node_channels rn"
  by (simp add: node_channels_def DefaultChannels_def split: option.split)

lemma add_node_wf:
  assumes "nodes_wf (ld_cfg st)" "owners_wf st" "rn_key rn \<noteq> ''''"
    "map_of (cfg_nodes (ld_cfg st)) name = None" "map_of (ld_key_owner st) (rn_key rn) = None"
  shows "nodes_wf (ld_cfg (add_node name rn st)) \<and> owners_wf (add_node name rn st)"
proof -
  have fresh: "name \<notin> set (keys (cfg_nodes (ld_cfg st)))"
    "rn_key rn \<notin> ns_spec_key ` snd ` set (cfg_nodes (ld_cfg st))"
    using assms(2,4,5) unfolding owners_wf_def map_of_None_keys by auto
  moreover have "rn_key rn \<notin> set (map (ns_spec_key \<circ> snd) (cfg_nodes (ld_cfg st)))"
    using fresh(2) by (auto simp: image_image)
  ultimately show ?thesis
    using assms(1-3)
    by (auto simp: nodes_wf_def owners_wf_def add_node_def update_fresh spec_ok_def
        node_channels_pos update_conv' split: if_splits)
qed

lemma load_node_inv: "node_loop_inv st \<Longrightarrow> node_loop_inv (load_node lib kv st)"
proof (cases lib kv st rule: load_node_cases)
  case (dropped w)
  moreover assume "node_loop_inv st"
  ultimately show ?thesis by (simp add: node_loop_inv_def owners_wf_def)
next
  case (kept rn)
  moreover assume "node_loop_inv st"
  ultimately have "nodes_wf (ld_cfg (load_node lib kv st)) \<and> owners_wf (load_node lib kv st)"
    unfolding kept(1) by (intro add_node_wf) (simp_all add: node_loop_inv_def owners_wf_def)
  with kept(1) \<open>node_loop_inv st\<close> show ?thesis
    by (simp add: node_loop_inv_def add_node_def settings_wf_def)
qed

interpretation node_loop: invariant_system node_loop_inv "load_node lib" for lib
  by unfold_locales (rule load_node_inv)

definition port_loop_inv :: "(int \<times> string) list \<Rightarrow> load_state \<Rightarrow> bool" where
  "port_loop_inv reserved st \<longleftrightarrow>
     config_wf (ld_cfg st) \<and>
     reserved = reserved_ports (cfg_listen (ld_cfg st)) (cfg_status_listen (ld_cfg st))"

lemma load_port_inv: "port_loop_inv r st \<Longrightarrow> port_loop_inv r (load_port lib r kv st)"
proof (cases lib r kv st rule: load_port_cases)
  case (dropped w)
  moreover assume "port_loop_inv r st"
  ultimately show ?thesis by (simp add: port_loop_inv_def)
next
  case (kept p rp)
  assume inv: "port_loop_inv r st"
  have "p \<notin> set (keys (cfg_ports (ld_cfg st)))"
    using kept(3) unfolding map_of_None_keys .
  moreover have "port_ok c' q ps \<longleftrightarrow> port_ok (ld_cfg st) q ps"
    if "c' = ld_cfg (add_port p rp st)" for c' q ps
    using that by (simp add: port_ok_def add_port_def)
  moreover have "port_ok (ld_cfg st) p \<lparr>ps_port = p, ps_node = rp_node rp, ps_remote = rp_remote rp\<rparr>"
    using kept(2) inv by (simp add: port_ok_def port_entry_ok_def port_loop_inv_def)
  ultimately have "ports_wf (ld_cfg (add_port p rp st))"
    using inv by (simp add: ports_wf_def port_loop_inv_def config_wf_def)
      (auto simp: add_port_def update_fresh)
  with inv kept(1) show ?thesis
    by (simp add: port_loop_inv_def config_wf_def nodes_wf_def settings_wf_def add_port_def)
qed

interpretation port_loop: invariant_system "port_loop_inv r" "load_port lib r" for lib r
  by unfold_locales (rule load_port_inv)

lemma parseDuration_pos: "0 < def \<Longrightarrow> 0 < fst (parseDuration lib s def f)"
  by (simp add: parseDuration_def split: option.split)

lemma load_settings_wf:
  assumes "load_settings lib raw = (s, ws)"
  shows "0 < st_heartbeat s \<and> 0 < st_dial_timeout s \<and> 0 < st_queue_timeout s \<and> 1 \<le> st_max_streams s"
proof -
  have "0 < DefaultHeartbeat" "0 < DefaultDialTimeout" "0 < DefaultQueueTimeout"
    by (simp_all add: DefaultHeartbeat_def DefaultDialTimeout_def DefaultQueueTimeout_def second_def)
  then show ?thesis
    using assms
      parseDuration_pos [of DefaultHeartbeat lib "rs_heartbeat raw" "''settings.heartbeat''"]
      parseDuration_pos [of DefaultDialTimeout lib "rs_dial_timeout raw" "''settings.dial_timeout''"]
      parseDuration_pos [of DefaultQueueTimeout lib "rs_queue_timeout raw" "''settings.queue_timeout''"]
    by (auto simp: load_settings_def Let_def DefaultMaxStreamsPerConn_def split: prod.splits if_splits)
qed

lemma node_loop_fixes:
  "cfg_listen (ld_cfg (fold (load_node lib) kvs st)) = cfg_listen (ld_cfg st) \<and>
   cfg_status_listen (ld_cfg (fold (load_node lib) kvs st)) = cfg_status_listen (ld_cfg st)"
proof (induction kvs arbitrary: st)
  case (Cons kv kvs)
  then show ?case
    by (cases lib kv st rule: load_node_cases) (simp_all add: add_node_def)
qed simp

lemma port_loop_fixes:
  "cfg_nodes (ld_cfg (fold (load_port lib r) kvs st)) = cfg_nodes (ld_cfg st) \<and>
   cfg_node_order (ld_cfg (fold (load_port lib r) kvs st)) = cfg_node_order (ld_cfg st)"
proof (induction kvs arbitrary: st)
  case (Cons kv kvs)
  then show ?case
    by (cases lib r kv st rule: load_port_cases) (simp_all add: add_port_def)
qed simp

lemma Load_config_wf:
  assumes "Load lib path = Inr (c, ws)"
  shows "config_wf c"
proof -
  from assms obtain raw s sw where
    raw: "rf_listen raw \<noteq> ''''" and s: "load_settings lib (rf_settings raw) = (s, sw)" and
    c: "c = ld_cfg (load_sections lib raw
          \<lparr>ld_cfg = \<lparr>cfg_path = path, cfg_listen = rf_listen raw,
             cfg_status_listen = rf_status_listen raw, cfg_settings = s, cfg_nodes = [],
             cfg_node_order = [], cfg_ports = [], cfg_port_order = []\<rparr>,
           ld_key_owner = [], ld_warnings = sw\<rparr>)"
    by (auto simp: Load_def Let_def split: sum.splits if_splits prod.splits)
  let ?c0 = "\<lparr>cfg_path = path, cfg_listen = rf_listen raw,
             cfg_status_listen = rf_status_listen raw, cfg_settings = s, cfg_nodes = [],
             cfg_node_order = [], cfg_ports = [], cfg_port_order = []\<rparr>"
  let ?st = "\<lparr>ld_cfg = ?c0, ld_key_owner = [], ld_warnings = sw\<rparr>"
  obtain nkv nw where n: "mappingPairs (Some (rf_nodes raw)) ''nodes'' = (nkv, nw)" by fastforce
  obtain pkv pw where p: "mappingPairs (Some (rf_ports raw)) ''ports'' = (pkv, pw)" by fastforce
  let ?st1 = "fold (load_node lib) nkv (fold warn nw ?st)"
  let ?r = "reserved_ports (rf_listen raw) (rf_status_listen raw)"
  have "node_loop_inv (fold warn nw ?st)"
    using raw load_settings_wf [OF s]
    by (simp add: node_loop_inv_def nodes_wf_def owners_wf_def settings_wf_def)
  then have "node_loop_inv ?st1" by (rule node_loop.run_inv)
  then have "port_loop_inv ?r (fold warn pw ?st1)"
    using node_loop_fixes [of lib nkv "fold warn nw ?st"]
    by (simp add: port_loop_inv_def config_wf_def node_loop_inv_def ports_wf_def)
  then have "port_loop_inv ?r (fold (load_port lib ?r) pkv (fold warn pw ?st1))"
    by (rule port_loop.run_inv)
  then show ?thesis
    unfolding c load_sections_def load_nodes_def load_ports_def by (simp add: n p port_loop_inv_def)
qed

section \<open>Which entries are kept\<close>

text \<open>What a \<open>ports\<close> entry amounts to on its own, whatever stands before it.\<close>

definition port_verdict ::
  "config_lib \<Rightarrow> (int \<times> string) list \<Rightarrow> (string \<times> NodeSpec) list \<Rightarrow> string \<times> ynode \<Rightarrow>
     (int \<times> PortSpec) option" where
  "port_verdict lib reserved nodes kv =
     (case (atoi (fst kv), decode_port lib (snd kv)) of
        (Some p, Inr rp) \<Rightarrow>
          if 1 \<le> p \<and> p \<le> 65535 \<and> map_of reserved p = None \<and>
             map_of nodes (rp_node rp) \<noteq> None \<and> validateHostPort (rp_remote rp) = None
          then Some (p, \<lparr>ps_port = p, ps_node = rp_node rp, ps_remote = rp_remote rp\<rparr>)
          else None
      | _ \<Rightarrow> None)"

lemma port_verdict_Some:
  "port_verdict lib r (cfg_nodes c) kv = Some (p, ps) \<longleftrightarrow>
     (\<exists>rp. port_entry_ok lib r c kv p rp \<and>
        ps = \<lparr>ps_port = p, ps_node = rp_node rp, ps_remote = rp_remote rp\<rparr>)"
  by (auto simp: port_verdict_def port_entry_ok_def split: option.split sum.split)

abbreviation first_of_each :: "'a list \<Rightarrow> 'a list" where
  "first_of_each xs \<equiv> rev (remdups (rev xs))"

lemma first_of_each_snoc:
  "first_of_each (xs @ [x]) = first_of_each xs @ (if x \<in> set xs then [] else [x])"
  by simp

definition verdicts where
  "verdicts lib r nodes kvs = List.map_filter (port_verdict lib r nodes) kvs"

lemma verdicts_snoc:
  "verdicts lib r nodes (kvs @ [kv]) = verdicts lib r nodes kvs @
     (case port_verdict lib r nodes kv of None \<Rightarrow> [] | Some v \<Rightarrow> [v])"
  by (simp add: verdicts_def List.map_filter_def split: option.split)

lemma port_loop_exact:
  assumes "cfg_ports (ld_cfg st) = []" "cfg_port_order (ld_cfg st) = []"
  shows "cfg_port_order (ld_cfg (fold (load_port lib r) kvs st)) =
      first_of_each (map fst (verdicts lib r (cfg_nodes (ld_cfg st)) kvs)) \<and>
    map_of (cfg_ports (ld_cfg (fold (load_port lib r) kvs st))) =
      map_of (verdicts lib r (cfg_nodes (ld_cfg st)) kvs)"
proof (induction kvs rule: rev_induct)
  case Nil
  with assms show ?case by (simp add: verdicts_def List.map_filter_def)
next
  case (snoc kv kvs)
  let ?st = "fold (load_port lib r) kvs st"
  let ?vs = "verdicts lib r (cfg_nodes (ld_cfg st)) kvs"
  have nodes: "cfg_nodes (ld_cfg ?st) = cfg_nodes (ld_cfg st)"
    by (simp add: port_loop_fixes)
  note IH = snoc.IH
  show ?case
  proof (cases lib r kv ?st rule: load_port_cases)
    case (dropped w)
    show ?thesis
    proof (cases "port_verdict lib r (cfg_nodes (ld_cfg st)) kv")
      case None
      with IH dropped(1) show ?thesis by (simp add: verdicts_snoc)
    next
      case (Some v)
      obtain p ps where v: "v = (p, ps)" by fastforce
      with Some dropped(2) have "map_of (cfg_ports (ld_cfg ?st)) p \<noteq> None"
        unfolding nodes [symmetric] by (auto simp: port_verdict_Some)
      then have "map_of ?vs p \<noteq> None" using IH by simp
      then have "p \<in> set (map fst ?vs)" unfolding map_of_None_keys by simp
      moreover have "map_of (?vs @ [(p, ps)]) = map_of ?vs"
        using \<open>map_of ?vs p \<noteq> None\<close> by (auto simp: map_add_def fun_eq_iff split: option.split)
      ultimately show ?thesis
        using IH dropped(1) Some v by (simp add: verdicts_snoc)
    qed
  next
    case (kept p rp)
    let ?ps = "\<lparr>ps_port = p, ps_node = rp_node rp, ps_remote = rp_remote rp\<rparr>"
    have v: "port_verdict lib r (cfg_nodes (ld_cfg st)) kv = Some (p, ?ps)"
      using kept(2) unfolding nodes [symmetric] by (auto simp: port_verdict_Some)
    have "map_of ?vs p = None" using IH kept(3) by simp
    then have p: "p \<notin> fst ` set ?vs" by (simp add: map_of_eq_None_iff)
    have "map_of (?vs @ [(p, ?ps)]) = (map_of ?vs)(p \<mapsto> ?ps)"
      using \<open>map_of ?vs p = None\<close> by (auto simp: map_add_def fun_eq_iff split: option.split)
    with p show ?thesis
      using IH kept(1) v by (simp add: verdicts_snoc add_port_def update_conv')
  qed
qed

text \<open>Warnings that report an entry that was dropped, as opposed to a value that was corrected.\<close>

definition drops_entry :: "warning \<Rightarrow> bool" where
  "drops_entry w =
     (case w of
        BadDuration _ _ _ \<Rightarrow> False | BadMaxStreams _ _ \<Rightarrow> False
      | NotAMapping _ _ \<Rightarrow> False | BadChannels _ _ _ \<Rightarrow> False
      | _ \<Rightarrow> True)"

definition accounted :: "load_state \<Rightarrow> int" where
  "accounted st =
     count_if drops_entry (ld_warnings st) + int (length (cfg_node_order (ld_cfg st))) +
     int (length (cfg_port_order (ld_cfg st)))"

lemma load_node_accounted: "accounted (load_node lib kv st) = accounted st + 1"
  by (cases "decode_node lib (snd kv)")
    (auto simp: load_node_def Let_def accounted_def drops_entry_def add_node_def warn_channels_def
      split: option.split)

lemma load_port_accounted: "accounted (load_port lib r kv st) = accounted st + 1"
  by (auto simp: load_port_def accounted_def drops_entry_def add_port_def
      split: option.split sum.split)

lemma fold_accounted:
  "accounted (fold (load_node lib) kvs st) = accounted st + int (length kvs)"
  "accounted (fold (load_port lib r) kvs st) = accounted st + int (length kvs)"
  by (induction kvs arbitrary: st) (simp_all add: load_node_accounted load_port_accounted)

lemma mappingPairs_drops:
  "mappingPairs n s = (kvs, ws) \<Longrightarrow> accounted (fold warn ws st) = accounted st"
  by (auto simp: mappingPairs_def accounted_def drops_entry_def split: option.splits if_splits)

lemma load_settings_drops:
  "load_settings lib raw = (s, ws) \<Longrightarrow> filter drops_entry ws = []"
proof -
  have d: "filter drops_entry (snd (parseDuration lib t def f)) = []" for t def f
    by (simp add: parseDuration_def drops_entry_def split: option.split)
  assume "load_settings lib raw = (s, ws)"
  then have "ws = snd (load_settings lib raw)" by simp
  then show ?thesis
    by (simp add: load_settings_def Let_def split_beta d) (simp add: drops_entry_def)
qed

text \<open>The state the loops start from, and the shape of a successful load.\<close>

definition start_state :: "string \<Rightarrow> rawFile \<Rightarrow> Settings \<Rightarrow> warning list \<Rightarrow> load_state" where
  "start_state path raw s sw =
     \<lparr>ld_cfg = \<lparr>cfg_path = path, cfg_listen = rf_listen raw,
        cfg_status_listen = rf_status_listen raw, cfg_settings = s, cfg_nodes = [],
        cfg_node_order = [], cfg_ports = [], cfg_port_order = []\<rparr>,
      ld_key_owner = [], ld_warnings = sw\<rparr>"

lemma Load_Inr:
  assumes "Load lib path = Inr (c, ws)" "read_file lib path = Inr data" "unmarshal lib data = Inr raw"
  obtains s sw where "load_settings lib (rf_settings raw) = (s, sw)"
    "c = ld_cfg (load_sections lib raw (start_state path raw s sw))"
    "ws = ld_warnings (load_sections lib raw (start_state path raw s sw))"
  using assms by (auto simp: Load_def Let_def start_state_def split: if_splits prod.splits)

section \<open>Queries\<close>

lemma key_scan_Some: "key_scan c key (Some n) names = Some n"
  by (induction names) (auto split: option.split)

lemma key_scan_None:
  "key_scan c key None names =
     List.find (\<lambda>n. ns_spec_key n = key) (List.map_filter (map_of (cfg_nodes c)) names)"
  by (induction names) (auto simp: List.map_filter_def key_scan_Some split: option.split)

lemma find_iff:
  "List.find P xs = Some x \<longleftrightarrow> x \<in> set xs \<and> P x"
  if "\<And>a b. a \<in> set xs \<Longrightarrow> b \<in> set xs \<Longrightarrow> P a \<Longrightarrow> P b \<Longrightarrow> a = b"
proof
  assume "List.find P xs = Some x"
  then show "x \<in> set xs \<and> P x" by (auto simp: find_Some_iff)
next
  assume x: "x \<in> set xs \<and> P x"
  then obtain y where "List.find P xs = Some y"
    by (metis (full_types) find_None_iff option.exhaust)
  moreover then have "y \<in> set xs \<and> P y" by (auto simp: find_Some_iff)
  ultimately show "List.find P xs = Some x" using x that by metis
qed

lemma nodes_wf_lookup:
  "nodes_wf c \<Longrightarrow> map_of (cfg_nodes c) name = Some n \<Longrightarrow> spec_ok name n"
  by (auto simp: nodes_wf_def list_all_iff dest!: map_of_SomeD)

lemma nodes_wf_order: "nodes_wf c \<Longrightarrow> name \<in> set (cfg_node_order c) \<longleftrightarrow> map_of (cfg_nodes c) name \<noteq> None"
  unfolding nodes_wf_def map_of_None_keys by simp

lemma nodes_wf_key_inject:
  assumes "nodes_wf c" "map_of (cfg_nodes c) a = Some m" "map_of (cfg_nodes c) b = Some n"
    "ns_spec_key m = ns_spec_key n"
  shows "a = b \<and> m = n"
proof -
  have "(a, m) \<in> set (cfg_nodes c)" "(b, n) \<in> set (cfg_nodes c)"
    using assms(2,3) by (auto dest: map_of_SomeD)
  moreover have "inj_on (ns_spec_key \<circ> snd) (set (cfg_nodes c))"
    using assms(1) by (simp add: nodes_wf_def distinct_map)
  ultimately have "(a, m) = (b, n)"
    using assms(4) inj_onD [of "ns_spec_key \<circ> snd" "set (cfg_nodes c)" "(a, m)" "(b, n)"] by simp
  then show ?thesis by simp
qed

lemma NodeByKey_iff:
  assumes "nodes_wf c"
  shows "NodeByKey c key = Some n \<longleftrightarrow>
    key \<noteq> '''' \<and> ns_spec_key n = key \<and> map_of (cfg_nodes c) (ns_spec_name n) = Some n"
proof -
  let ?ns = "List.map_filter (map_of (cfg_nodes c)) (cfg_node_order c)"
  have mem: "m \<in> set ?ns \<longleftrightarrow> map_of (cfg_nodes c) (ns_spec_name m) = Some m" for m
  proof
    assume "m \<in> set ?ns"
    then obtain name where "map_of (cfg_nodes c) name = Some m"
      by (auto simp: List.map_filter_def)
    moreover then have "ns_spec_name m = name"
      using nodes_wf_lookup [OF assms] by (simp add: spec_ok_def)
    ultimately show "map_of (cfg_nodes c) (ns_spec_name m) = Some m" by simp
  next
    assume m: "map_of (cfg_nodes c) (ns_spec_name m) = Some m"
    then have "ns_spec_name m \<in> set (cfg_node_order c)" using nodes_wf_order [OF assms] by simp
    with m show "m \<in> set ?ns" by (force simp: List.map_filter_def image_iff)
  qed
  have "List.find (\<lambda>m. ns_spec_key m = key) ?ns = Some n \<longleftrightarrow> n \<in> set ?ns \<and> ns_spec_key n = key"
    using nodes_wf_key_inject [OF assms] by (intro find_iff) (auto simp: mem)
  then show ?thesis by (auto simp: NodeByKey_def key_scan_None mem)
qed

lemma owned_by_Some:
  "owned_by c node p = Some ps \<longleftrightarrow> map_of (cfg_ports c) p = Some ps \<and> ps_node ps = node"
  by (auto simp: owned_by_def split: option.splits)

lemma ports_wf_lookup:
  "ports_wf c \<Longrightarrow> map_of (cfg_ports c) p = Some ps \<Longrightarrow> port_ok c p ps"
  by (auto simp: ports_wf_def list_all_iff dest!: map_of_SomeD)

lemma ports_wf_order: "ports_wf c \<Longrightarrow> p \<in> set (cfg_port_order c) \<longleftrightarrow> map_of (cfg_ports c) p \<noteq> None"
  unfolding ports_wf_def map_of_None_keys by simp

lemma port_ok_int64: "port_ok c p ps \<Longrightarrow> int64_range p"
  by (simp add: port_ok_def int64_range_def)

lemma PortsOf_map: "set (PortsOf c node) = {ps. \<exists>p \<in> set (cfg_port_order c). owned_by c node p = Some ps}"
  by (force simp: PortsOf_def List.map_filter_def image_iff)

lemma fold_allow_list:
  "map_of (fold (\<lambda>p m. case owned_by c node p of None \<Rightarrow> m
        | Some ps \<Rightarrow> AList.update (itoa p) (ps_remote ps) m) ps m) k = Some r \<Longrightarrow>
     map_of m k = Some r \<or>
     (\<exists>p \<in> set ps. \<exists>s. k = itoa p \<and> owned_by c node p = Some s \<and> r = ps_remote s)"
  by (induction ps arbitrary: m) (fastforce simp: update_conv' split: option.splits if_splits)+

lemma fold_allow_list_keeps:
  assumes "\<And>q. q \<in> set ps \<Longrightarrow> itoa q \<noteq> k \<or> owned_by c node q = None" "map_of m k = v"
  shows "map_of (fold (\<lambda>p m. case owned_by c node p of None \<Rightarrow> m
        | Some ps \<Rightarrow> AList.update (itoa p) (ps_remote ps) m) ps m) k = v"
  using assms
proof (induction ps arbitrary: m)
  case (Cons q ps)
  show ?case
  proof (cases "owned_by c node q")
    case None
    with Cons.prems show ?thesis by (simp add: Cons.IH)
  next
    case (Some s)
    with Cons.prems(1) [of q] have "itoa q \<noteq> k" by auto
    with Cons.prems Some show ?thesis
      using Cons.IH [of "AList.update (itoa q) (ps_remote s) m"] by (simp add: update_conv')
  qed
qed simp

text \<open>The allow-list a node receives holds exactly the ports it owns.\<close>

lemma allow_list_iff:
  assumes "ports_wf c" "int64_range p"
  shows "map_of (allow_list c node) (itoa p) = Some r \<longleftrightarrow>
    (\<exists>ps. map_of (cfg_ports c) p = Some ps \<and> ps_node ps = node \<and> ps_remote ps = r)"
proof
  assume "map_of (allow_list c node) (itoa p) = Some r"
  from fold_allow_list [OF this [unfolded allow_list_def]] obtain q s where
    q: "q \<in> set (cfg_port_order c)" "itoa p = itoa q" "owned_by c node q = Some s" "r = ps_remote s"
    by auto
  then have "int64_range q"
    using ports_wf_lookup [OF assms(1), of q s] port_ok_int64 [of c q s] by (simp add: owned_by_Some)
  with q assms(2) have "p = q" by (simp add: itoa_inject)
  with q show "\<exists>ps. map_of (cfg_ports c) p = Some ps \<and> ps_node ps = node \<and> ps_remote ps = r"
    by (auto simp: owned_by_Some)
next
  assume "\<exists>ps. map_of (cfg_ports c) p = Some ps \<and> ps_node ps = node \<and> ps_remote ps = r"
  then obtain ps where ps: "map_of (cfg_ports c) p = Some ps" "owned_by c node p = Some ps" "ps_remote ps = r"
    by (auto simp: owned_by_Some)
  then have "p \<in> set (cfg_port_order c)" using ports_wf_order [OF assms(1)] by simp
  then obtain xs ys where o: "cfg_port_order c = xs @ p # ys" by (meson split_list)
  have "itoa q \<noteq> itoa p" if "q \<in> set ys" for q
  proof -
    have "q \<in> set (cfg_port_order c)" "q \<noteq> p"
      using that o assms(1) by (auto simp: ports_wf_def)
    moreover then have "int64_range q"
      using ports_wf_order [OF assms(1)] ports_wf_lookup [OF assms(1)] port_ok_int64 by blast
    ultimately show ?thesis using assms(2) by (simp add: itoa_inject)
  qed
  then show "map_of (allow_list c node) (itoa p) = Some r"
    unfolding allow_list_def o using ps
    by (simp, intro fold_allow_list_keeps) (auto simp: update_conv')
qed

lemma fold_allow_list_distinct:
  "distinct (keys m) \<Longrightarrow>
   distinct (keys (fold (\<lambda>p m. case owned_by c node p of None \<Rightarrow> m
        | Some ps \<Rightarrow> AList.update (itoa p) (ps_remote ps) m) ps m))"
  by (induction ps arbitrary: m) (auto split: option.split)

lemma allow_list_key:
  "map_of (allow_list c node) k = Some r \<Longrightarrow>
     \<exists>p ps. k = itoa p \<and> map_of (cfg_ports c) p = Some ps \<and> ps_node ps = node \<and> ps_remote ps = r"
  using fold_allow_list [of c node "cfg_port_order c" "[]" k r]
  by (auto simp: allow_list_def owned_by_Some)

lemma Config_NodeConfig_wf:
  assumes "config_wf c" "Config_NodeConfig c node = Some nc"
  shows "node_config_wf nc"
proof -
  have "distinct (keys (allow_list c node))"
    unfolding allow_list_def by (rule fold_allow_list_distinct) simp
  moreover have "r \<noteq> ''''" if "(k, r) \<in> set (allow_list c node)" for k r
  proof -
    from that \<open>distinct _\<close> have "map_of (allow_list c node) k = Some r" by simp
    then obtain p ps where "map_of (cfg_ports c) p = Some ps" "ps_remote ps = r"
      using allow_list_key by blast
    then show ?thesis
      using assms(1) ports_wf_lookup [of c p ps] validateHostPort_nonempty
      by (auto simp: config_wf_def port_ok_def)
  qed
  ultimately show ?thesis
    using assms(2)
    by (fastforce simp: node_config_wf_def Config_NodeConfig_def split: option.splits)
qed

section \<open>A sample document\<close>

text \<open>A concrete instance of the parameters, used to evaluate \<open>Load\<close>: scalars stand for their
  decoded entries. Node "b" repeats the key of node "a", port 80 is given twice, 81 is the
  port of \<open>listen\<close>, 82 belongs to the dropped node, 83 has a remote without a port.\<close>

definition scalar :: "string \<Rightarrow> ynode" where
  "scalar v = YNode ScalarNode v []"

definition sample_raw :: rawFile where
  "sample_raw =
     \<lparr>rf_listen = '':81'', rf_status_listen = '''',
      rf_settings = \<lparr>rs_heartbeat = '''', rs_dial_timeout = ''x'', rs_queue_timeout = '''', rs_max_streams = 0\<rparr>,
      rf_nodes = YNode MappingNode ''''
        [scalar ''a'', scalar ''k'', scalar ''b'', scalar ''k'', scalar ''c'', scalar ''l''],
      rf_ports = YNode MappingNode ''''
        [scalar ''80'', scalar ''a h:1'', scalar ''80'', scalar ''c h:2'', scalar ''81'', scalar ''a h:1'',
         scalar ''82'', scalar ''b h:1'', scalar ''83'', scalar ''a h'', scalar ''84'', scalar ''c h:3'']\<rparr>"

definition sample_lib :: config_lib where
  "sample_lib =
     \<lparr>read_file = (\<lambda>_. Inr []), unmarshal = (\<lambda>_. Inr sample_raw),
      decode_node = (\<lambda>y. Inr \<lparr>rn_key = y_value y, rn_channels = Some 2\<rparr>),
      decode_port = (\<lambda>y. Inr \<lparr>rp_node = takeWhile (\<lambda>ch. ch \<noteq> CHR '' '') (y_value y),
                             rp_remote = drop 2 (y_value y)\<rparr>),
      parse_duration = (\<lambda>_. None)\<rparr>"

definition sample_config :: config where
  "sample_config =
     \<lparr>cfg_path = ''p'', cfg_listen = '':81'', cfg_status_listen = '''',
      cfg_settings = \<lparr>st_heartbeat = 15000000000, st_dial_timeout = 10000000000,
        st_queue_timeout = 5000000000, st_max_streams = 256\<rparr>,
      cfg_nodes = [(''a'', \<lparr>ns_spec_name = ''a'', ns_spec_key = ''k'', ns_spec_channels = 2\<rparr>),
                   (''c'', \<lparr>ns_spec_name = ''c'', ns_spec_key = ''l'', ns_spec_channels = 2\<rparr>)],
      cfg_node_order = [''a'', ''c''],
      cfg_ports = [(80, \<lparr>ps_port = 80, ps_node = ''a'', ps_remote = ''h:1''\<rparr>),
                   (84, \<lparr>ps_port = 84, ps_node = ''c'', ps_remote = ''h:3''\<rparr>)],
      cfg_port_order = [80, 84]\<rparr>"

definition sample_warnings :: "warning list" where
  "sample_warnings =
     [BadDuration ''settings.dial_timeout'' ''x'' 10000000000, KeyInUse ''b'' ''a'', DuplicatePort 80,
      PortReserved 81 ''listen'', NoSuchNode 82 ''b'', BadRemote 83 ''h'' (BadAddr MissingPort)]"

lemma Load_sample: "Load sample_lib ''p'' = Inr (sample_config, sample_warnings)"
  by code_simp

lemma sample_config_wf: "config_wf sample_config"
  by code_simp

lemma sample_lib_simps:
  "read_file sample_lib ''p'' = Inr []" "unmarshal sample_lib [] = Inr sample_raw"
  by (simp_all add: sample_lib_def)

section \<open>Properties\<close>

text \<open>C19: whatever the document says, a configuration that loads satisfies \<open>config_wf\<close>: node names
  and keys are unique and non-empty, every channel count is at least 1, every port is in
  1..65535, not one of the two ports the server itself listens on, owned by an existing node and
  mapped to a valid remote address, and all settings are positive. In particular no heartbeat,
  timeout or stream limit of zero ever reaches the running server.\<close>

theorem Load_wf:
  assumes "Load lib path = Inr (c, ws)"
  shows "config_wf c"
  using assms by (rule Load_config_wf)

theorem Load_wf_witness:
  "Load sample_lib ''p'' = Inr (sample_config, sample_warnings) \<and> config_wf sample_config"
  using Load_wf [OF Load_sample] Load_sample by simp

text \<open>C20: the ports of the configuration are exactly the valid entries of the document, the first
  occurrence of each port winning, in document order; an invalid entry, even one for the same
  port, has no influence on them.\<close>

theorem Load_ports_exact:
  assumes "Load lib path = Inr (c, ws)" and "read_file lib path = Inr data"
    and "unmarshal lib data = Inr raw"
  shows "map_of (cfg_ports c) =
      map_of (List.map_filter (port_verdict lib (reserved_ports (rf_listen raw) (rf_status_listen raw)) (cfg_nodes c))
        (fst (mappingPairs (Some (rf_ports raw)) ''ports''))) \<and>
    cfg_port_order c =
      rev (remdups (rev (map fst (List.map_filter
        (port_verdict lib (reserved_ports (rf_listen raw) (rf_status_listen raw)) (cfg_nodes c))
        (fst (mappingPairs (Some (rf_ports raw)) ''ports''))))))"
proof -
  let ?r = "reserved_ports (rf_listen raw) (rf_status_listen raw)"
  obtain s sw where c: "c = ld_cfg (load_sections lib raw (start_state path raw s sw))"
    using assms by (rule Load_Inr)
  obtain kvs w where kv: "mappingPairs (Some (rf_ports raw)) ''ports'' = (kvs, w)" by fastforce
  obtain nkv nw where n: "mappingPairs (Some (rf_nodes raw)) ''nodes'' = (nkv, nw)" by fastforce
  define st1 where "st1 = fold warn w (load_nodes lib (rf_nodes raw) (start_state path raw s sw))"
  have "cfg_ports (ld_cfg (fold (load_node lib) ks st)) = cfg_ports (ld_cfg st) \<and>
      cfg_port_order (ld_cfg (fold (load_node lib) ks st)) = cfg_port_order (ld_cfg st)" for ks st
  proof (induction ks arbitrary: st)
    case (Cons k ks)
    then show ?case by (cases lib k st rule: load_node_cases) (simp_all add: add_node_def)
  qed simp
  then have "cfg_ports (ld_cfg st1) = []" "cfg_port_order (ld_cfg st1) = []"
    by (simp_all add: st1_def load_nodes_def n start_state_def)
  moreover have "c = ld_cfg (fold (load_port lib ?r) kvs st1)"
    by (simp add: c load_sections_def load_ports_def kv st1_def)
  ultimately show ?thesis
    using port_loop_exact [of st1 lib ?r kvs] port_loop_fixes [of lib ?r kvs st1]
    by (simp add: kv verdicts_def)
qed

theorem Load_ports_exact_witness:
  "map_of (cfg_ports sample_config) =
      map_of (List.map_filter (port_verdict sample_lib
          (reserved_ports (rf_listen sample_raw) (rf_status_listen sample_raw)) (cfg_nodes sample_config))
        (fst (mappingPairs (Some (rf_ports sample_raw)) ''ports''))) \<and>
    cfg_port_order sample_config =
      rev (remdups (rev (map fst (List.map_filter (port_verdict sample_lib
          (reserved_ports (rf_listen sample_raw) (rf_status_listen sample_raw)) (cfg_nodes sample_config))
        (fst (mappingPairs (Some (rf_ports sample_raw)) ''ports''))))))"
  by (rule Load_ports_exact [OF Load_sample sample_lib_simps])

text \<open>No entry disappears silently. In a configuration that loads, the nodes and ports that
  were kept and the warnings that report a dropped entry add up to the number of entries in the
  two sections of the document.\<close>

theorem Load_entries_accounted:
  assumes "Load lib path = Inr (c, ws)" and "read_file lib path = Inr data"
    and "unmarshal lib data = Inr raw"
  shows "length (cfg_node_order c) + length (cfg_port_order c) + length (filter drops_entry ws) =
    length (fst (mappingPairs (Some (rf_nodes raw)) ''nodes'')) +
    length (fst (mappingPairs (Some (rf_ports raw)) ''ports''))"
proof -
  obtain s sw where s: "load_settings lib (rf_settings raw) = (s, sw)" and
    c: "c = ld_cfg (load_sections lib raw (start_state path raw s sw))"
      "ws = ld_warnings (load_sections lib raw (start_state path raw s sw))"
    using assms by (rule Load_Inr)
  obtain pkv pw where p: "mappingPairs (Some (rf_ports raw)) ''ports'' = (pkv, pw)" by fastforce
  obtain nkv nw where n: "mappingPairs (Some (rf_nodes raw)) ''nodes'' = (nkv, nw)" by fastforce
  have "accounted (load_sections lib raw (start_state path raw s sw)) =
      accounted (start_state path raw s sw) + int (length nkv) + int (length pkv)"
    by (simp add: load_sections_def load_nodes_def load_ports_def p n fold_accounted
        mappingPairs_drops [OF p] mappingPairs_drops [OF n])
  moreover have "accounted (start_state path raw s sw) = 0"
    using load_settings_drops [OF s] by (simp add: accounted_def start_state_def)
  ultimately show ?thesis
    by (simp add: accounted_def c p n)
qed

theorem Load_entries_accounted_witness:
  "length (cfg_node_order sample_config) + length (cfg_port_order sample_config) +
     length (filter drops_entry sample_warnings) =
   length (fst (mappingPairs (Some (rf_nodes sample_raw)) ''nodes'')) +
     length (fst (mappingPairs (Some (rf_ports sample_raw)) ''ports''))"
  by (rule Load_entries_accounted [OF Load_sample sample_lib_simps])

text \<open>A key identifies at most one node. \<open>NodeByKey\<close> returns a node exactly when the key is
  not empty and is that node's key, whatever the order of the nodes; no other node shares it.\<close>

theorem NodeByKey_correct:
  assumes "config_wf c"
  shows "(NodeByKey c key = Some n \<longleftrightarrow>
      key \<noteq> '''' \<and> ns_spec_key n = key \<and> map_of (cfg_nodes c) (ns_spec_name n) = Some n)"
  using assms by (simp add: NodeByKey_iff config_wf_def)

theorem NodeByKey_correct_witness:
  "NodeByKey sample_config ''l'' = Some \<lparr>ns_spec_name = ''c'', ns_spec_key = ''l'', ns_spec_channels = 2\<rparr> \<and>
   NodeByKey sample_config '''' = None"
  using NodeByKey_correct [OF sample_config_wf, of "''l''"]
    NodeByKey_correct [OF sample_config_wf, of "''''"]
  by (auto simp: sample_config_def)

text \<open>Node isolation on the wire. The allow-list pushed to a node maps the decimal form of a
  port to a remote exactly when the configuration gives that port, with that remote, to that
  node, and it has no other keys; it is therefore a well-formed \<open>NodeConfig\<close>.\<close>

theorem NodeConfig_allow_list:
  assumes "config_wf c" and "Config_NodeConfig c node = Some nc" and "int64_range p"
  shows "node_config_wf nc \<and>
    (map_of (Ports nc) (itoa p) = Some r \<longleftrightarrow>
       map_of (cfg_ports c) p = Some \<lparr>ps_port = p, ps_node = node, ps_remote = r\<rparr>) \<and>
    set (map fst (Ports nc)) = itoa ` {q. owned_by c node q \<noteq> None}"
proof (intro conjI)
  have wf: "ports_wf c" using assms(1) by (simp add: config_wf_def)
  have nc: "Ports nc = allow_list c node"
    using assms(2) by (auto simp: Config_NodeConfig_def split: option.splits)
  show "node_config_wf nc" using assms(1,2) by (rule Config_NodeConfig_wf)
  have "ps_port ps = p" if "map_of (cfg_ports c) p = Some ps" for ps
    using ports_wf_lookup [OF wf that] by (simp add: port_ok_def)
  then show "map_of (Ports nc) (itoa p) = Some r \<longleftrightarrow>
      map_of (cfg_ports c) p = Some \<lparr>ps_port = p, ps_node = node, ps_remote = r\<rparr>"
    unfolding nc allow_list_iff [OF wf assms(3)] by (metis PortSpec.surjective old.unit.exhaust PortSpec.select_convs)
  have "k \<in> set (keys (allow_list c node)) \<longleftrightarrow> k \<in> itoa ` {q. owned_by c node q \<noteq> None}" for k
  proof
    assume "k \<in> set (keys (allow_list c node))"
    then obtain v where "map_of (allow_list c node) k = Some v"
      by (meson map_of_None_keys not_None_eq)
    then show "k \<in> itoa ` {q. owned_by c node q \<noteq> None}"
      using allow_list_key [of c node k v] by (auto simp: owned_by_def)
  next
    assume "k \<in> itoa ` {q. owned_by c node q \<noteq> None}"
    then obtain q ps where q: "k = itoa q" "owned_by c node q = Some ps" by auto
    then have "int64_range q"
      using ports_wf_lookup [OF wf, of q ps] port_ok_int64 [of c q ps] by (simp add: owned_by_Some)
    then have "map_of (allow_list c node) k = Some (ps_remote ps)"
      using q allow_list_iff [OF wf] by (auto simp: owned_by_Some)
    then show "k \<in> set (keys (allow_list c node))"
      by (metis map_of_None_keys option.distinct(1))
  qed
  then show "set (map fst (Ports nc)) = itoa ` {q. owned_by c node q \<noteq> None}"
    unfolding nc by blast
qed

theorem NodeConfig_allow_list_witness:
  "\<exists>nc. Config_NodeConfig sample_config ''a'' = Some nc \<and> node_config_wf nc \<and>
     map_of (Ports nc) (itoa 80) = Some ''h:1'' \<and> map_of (Ports nc) (itoa 84) \<noteq> Some ''h:3''"
proof -
  obtain nc where nc: "Config_NodeConfig sample_config ''a'' = Some nc"
    by (simp add: Config_NodeConfig_def sample_config_def)
  have r: "int64_range 80" "int64_range 84" by (simp_all add: int64_range_def)
  show ?thesis
    using nc NodeConfig_allow_list [OF sample_config_wf nc r(1), of "''h:1''"]
      NodeConfig_allow_list [OF sample_config_wf nc r(2), of "''h:3''"]
    by (simp add: sample_config_def)
qed

end
