(* ===== verification/Config_Diff.thy ===== *)
theory Config_Diff
  imports Config_Laws "HOL-Library.List_Lexorder" "HOL-Library.Char_ord"
begin

text \<open>
  internal/config/diff.go: the change set between two configurations, on which a reload acts.
  \<open>sort.Strings\<close> is \<open>sort\<close> in the lexicographic order of List_Lexorder over the byte order of
  Char_ord. The set \<open>changed\<close> of \<open>DiffConfig\<close> is a list without repetitions.
\<close>

record Diff =
  AddedNodes :: "string list"
  RemovedNodes :: "string list"
  KeyChangedNodes :: "string list"
  AddedPorts :: "int list"
  RemovedPorts :: "int list"
  ChangedNodes :: "string list"
  SettingsChanged :: bool

definition zero_diff :: Diff where
  "zero_diff = \<lparr>AddedNodes = [], RemovedNodes = [], KeyChangedNodes = [], AddedPorts = [],
     RemovedPorts = [], ChangedNodes = [], SettingsChanged = False\<rparr>"

definition Diff_Empty :: "Diff \<Rightarrow> bool" where
  "Diff_Empty d \<longleftrightarrow>
     length (AddedNodes d) = 0 \<and> length (RemovedNodes d) = 0 \<and> length (KeyChangedNodes d) = 0 \<and>
     length (AddedPorts d) = 0 \<and> length (RemovedPorts d) = 0 \<and> length (ChangedNodes d) = 0"

text \<open>The loop over the old nodes: \<open>old.Nodes[name]\<close> exists for a name of the order.\<close>

definition diff_old_node :: "config \<Rightarrow> config \<Rightarrow> string \<Rightarrow> Diff \<Rightarrow> Diff" where
  "diff_old_node old cur name d =
     (case map_of (cfg_nodes cur) name of
        None \<Rightarrow> d\<lparr>RemovedNodes := RemovedNodes d @ [name]\<rparr>
      | Some new_node \<Rightarrow>
          if map_option ns_spec_key (map_of (cfg_nodes old) name) \<noteq> Some (ns_spec_key new_node)
          then d\<lparr>KeyChangedNodes := KeyChangedNodes d @ [name]\<rparr>
          else d)"

definition diff_new_node :: "config \<Rightarrow> string \<Rightarrow> Diff \<Rightarrow> Diff" where
  "diff_new_node old name d =
     (if map_of (cfg_nodes old) name = None then d\<lparr>AddedNodes := AddedNodes d @ [name]\<rparr> else d)"

text \<open>A port that \<open>a\<close> has and \<open>b\<close> does not give to the same node.\<close>

definition port_moved :: "config \<Rightarrow> config \<Rightarrow> int \<Rightarrow> bool" where
  "port_moved a b p \<longleftrightarrow>
     (case map_of (cfg_ports b) p of
        None \<Rightarrow> True
      | Some np \<Rightarrow> map_option ps_node (map_of (cfg_ports a) p) \<noteq> Some (ps_node np))"

definition diff_old_port :: "config \<Rightarrow> config \<Rightarrow> int \<Rightarrow> Diff \<Rightarrow> Diff" where
  "diff_old_port old cur p d =
     (if port_moved old cur p then d\<lparr>RemovedPorts := RemovedPorts d @ [p]\<rparr> else d)"

definition diff_new_port :: "config \<Rightarrow> config \<Rightarrow> int \<Rightarrow> Diff \<Rightarrow> Diff" where
  "diff_new_port old cur p d =
     (if port_moved cur old p then d\<lparr>AddedPorts := AddedPorts d @ [p]\<rparr> else d)"

definition diff_changed :: "config \<Rightarrow> config \<Rightarrow> string \<Rightarrow> string list \<Rightarrow> string list" where
  "diff_changed old cur name changed =
     (if map_of (cfg_nodes old) name = None then changed
      else if \<not> NodeConfig_Equal (Config_NodeConfig old name) (Config_NodeConfig cur name)
      then List.insert name changed
      else changed)"

definition DiffConfig :: "config option \<Rightarrow> config \<Rightarrow> Diff" where
  "DiffConfig old_opt cur =
     (case old_opt of
        None \<Rightarrow> zero_diff\<lparr>AddedNodes := cfg_node_order cur, AddedPorts := SortedPorts cur,
                  SettingsChanged := True\<rparr>
      | Some old \<Rightarrow>
          (let d0 = zero_diff\<lparr>SettingsChanged := cfg_settings old \<noteq> cfg_settings cur\<rparr>;
               d1 = fold (diff_old_node old cur) (cfg_node_order old) d0;
               d2 = fold (diff_new_node old) (cfg_node_order cur) d1;
               d3 = fold (diff_old_port old cur) (SortedPorts old) d2;
               d4 = fold (diff_new_port old cur) (SortedPorts cur) d3;
               changed = fold (diff_changed old cur) (cfg_node_order cur) [];
               kept = fold removeAll (KeyChangedNodes d4) changed
           in d4\<lparr>ChangedNodes := sort kept\<rparr>))"

section \<open>The loops as filters\<close>

lemma fold_old_node:
  "fold (diff_old_node old cur) ns d =
     d\<lparr>RemovedNodes := RemovedNodes d @ filter (\<lambda>n. map_of (cfg_nodes cur) n = None) ns,
       KeyChangedNodes := KeyChangedNodes d @
         filter (\<lambda>n. \<exists>m. map_of (cfg_nodes cur) n = Some m \<and>
            map_option ns_spec_key (map_of (cfg_nodes old) n) \<noteq> Some (ns_spec_key m)) ns\<rparr>"
  by (induction ns arbitrary: d) (simp_all add: diff_old_node_def split: option.split)

lemma fold_new_node:
  "fold (diff_new_node old) ns d =
     d\<lparr>AddedNodes := AddedNodes d @ filter (\<lambda>n. map_of (cfg_nodes old) n = None) ns\<rparr>"
  by (induction ns arbitrary: d) (simp_all add: diff_new_node_def)

lemma fold_old_port:
  "fold (diff_old_port old cur) ps d = d\<lparr>RemovedPorts := RemovedPorts d @ filter (port_moved old cur) ps\<rparr>"
  by (induction ps arbitrary: d) (simp_all add: diff_old_port_def)

lemma fold_new_port:
  "fold (diff_new_port old cur) ps d = d\<lparr>AddedPorts := AddedPorts d @ filter (port_moved cur old) ps\<rparr>"
  by (induction ps arbitrary: d) (simp_all add: diff_new_port_def)

lemma fold_removeAll: "fold removeAll ks xs = filter (\<lambda>x. x \<notin> set ks) xs"
  by (induction ks arbitrary: xs) (auto simp: removeAll_filter_not_eq intro: filter_cong)

lemma fold_changed:
  "set (fold (diff_changed old cur) ns acc) =
     set acc \<union> {n \<in> set ns. map_of (cfg_nodes old) n \<noteq> None \<and>
       \<not> NodeConfig_Equal (Config_NodeConfig old n) (Config_NodeConfig cur n)}"
  "distinct acc \<Longrightarrow> distinct (fold (diff_changed old cur) ns acc)"
  by (induction ns arbitrary: acc) (auto simp: diff_changed_def)

lemma set_SortedPorts: "p \<in> set (SortedPorts c) \<longleftrightarrow> map_of (cfg_ports c) p \<noteq> None"
  unfolding map_of_None_keys by (simp add: SortedPorts_def)

lemma distinct_SortedPorts: "ports_wf c \<Longrightarrow> distinct (SortedPorts c)"
  by (simp add: SortedPorts_def ports_wf_def)

lemma sorted_SortedPorts: "sorted (SortedPorts c)"
  by (simp add: SortedPorts_def)

lemmas DiffConfig_folds =
  DiffConfig_def Let_def fold_old_node fold_new_node fold_old_port fold_new_port fold_removeAll

lemma DiffConfig_nodes:
  "RemovedNodes (DiffConfig (Some old) cur) =
     filter (\<lambda>n. map_of (cfg_nodes cur) n = None) (cfg_node_order old)"
  "AddedNodes (DiffConfig (Some old) cur) =
     filter (\<lambda>n. map_of (cfg_nodes old) n = None) (cfg_node_order cur)"
  "KeyChangedNodes (DiffConfig (Some old) cur) =
     filter (\<lambda>n. \<exists>m. map_of (cfg_nodes cur) n = Some m \<and>
        map_option ns_spec_key (map_of (cfg_nodes old) n) \<noteq> Some (ns_spec_key m)) (cfg_node_order old)"
  "SettingsChanged (DiffConfig (Some old) cur) \<longleftrightarrow> cfg_settings old \<noteq> cfg_settings cur"
  by (simp_all add: DiffConfig_folds zero_diff_def)

lemma DiffConfig_ports:
  "RemovedPorts (DiffConfig (Some old) cur) = filter (port_moved old cur) (SortedPorts old)"
  "AddedPorts (DiffConfig (Some old) cur) = filter (port_moved cur old) (SortedPorts cur)"
  by (simp_all add: DiffConfig_folds zero_diff_def)

lemma DiffConfig_changed:
  "set (ChangedNodes (DiffConfig (Some old) cur)) =
     {n \<in> set (cfg_node_order cur). map_of (cfg_nodes old) n \<noteq> None \<and>
        \<not> NodeConfig_Equal (Config_NodeConfig old n) (Config_NodeConfig cur n) \<and>
        n \<notin> set (KeyChangedNodes (DiffConfig (Some old) cur))}"
  "sorted (ChangedNodes (DiffConfig (Some old) cur))"
  "distinct (ChangedNodes (DiffConfig (Some old) cur))"
  by (auto simp: DiffConfig_folds zero_diff_def fold_changed distinct_sort)

section \<open>What the diff means\<close>

text \<open>Who owns a port, and the key of a node, as maps.\<close>

definition owner :: "config \<Rightarrow> int \<rightharpoonup> string" where
  "owner c p = map_option ps_node (map_of (cfg_ports c) p)"

definition node_key :: "config \<Rightarrow> string \<rightharpoonup> string" where
  "node_key c n = map_option ns_spec_key (map_of (cfg_nodes c) n)"

lemma port_moved_owner: "owner a p \<noteq> None \<Longrightarrow> port_moved a b p \<longleftrightarrow> owner a p \<noteq> owner b p"
  by (auto simp: port_moved_def owner_def split: option.split)

lemma set_RemovedPorts:
  "set (RemovedPorts (DiffConfig (Some old) cur)) = {p. owner old p \<noteq> None \<and> owner cur p \<noteq> owner old p}"
proof -
  have "p \<in> set (RemovedPorts (DiffConfig (Some old) cur)) \<longleftrightarrow>
      owner old p \<noteq> None \<and> port_moved old cur p" for p
    by (simp add: DiffConfig_ports set_SortedPorts owner_def)
  then show ?thesis using port_moved_owner [of old _ cur] by auto
qed

lemma set_AddedPorts:
  "set (AddedPorts (DiffConfig (Some old) cur)) = {p. owner cur p \<noteq> None \<and> owner cur p \<noteq> owner old p}"
proof -
  have "p \<in> set (AddedPorts (DiffConfig (Some old) cur)) \<longleftrightarrow>
      owner cur p \<noteq> None \<and> port_moved cur old p" for p
    by (simp add: DiffConfig_ports set_SortedPorts owner_def)
  then show ?thesis using port_moved_owner [of cur _ old] by auto
qed

text \<open>A node that stays, with its key, and is not in \<open>ChangedNodes\<close> has the same configuration.\<close>

lemma unchanged_node:
  assumes "config_wf old" "config_wf cur" "Config_NodeConfig old n = Some a" "Config_NodeConfig cur n = Some b"
    "n \<notin> set (KeyChangedNodes (DiffConfig (Some old) cur))"
  shows "n \<in> set (ChangedNodes (DiffConfig (Some old) cur)) \<longleftrightarrow> \<not> same_node_config a b"
proof -
  have "map_of (cfg_nodes old) n \<noteq> None" "map_of (cfg_nodes cur) n \<noteq> None"
    using assms(3,4) by (auto simp: Config_NodeConfig_def split: option.splits)
  moreover then have "n \<in> set (cfg_node_order cur)"
    using assms(2) nodes_wf_order by (auto simp: config_wf_def)
  moreover have "NodeConfig_Equal (Config_NodeConfig old n) (Config_NodeConfig cur n) \<longleftrightarrow> same_node_config a b"
    unfolding assms(3,4)
    using Config_NodeConfig_wf [OF assms(1,3)] Config_NodeConfig_wf [OF assms(2,4)]
    by (rule NodeConfig_Equal_iff)
  ultimately show ?thesis
    using assms(5) by (auto simp: DiffConfig_changed(1))
qed

lemma owner_patch:
  "(owner old |` (- set (RemovedPorts (DiffConfig (Some old) cur)))) ++
     (owner cur |` set (AddedPorts (DiffConfig (Some old) cur))) = owner cur"
  by (rule ext) (auto simp: set_RemovedPorts set_AddedPorts map_add_def restrict_map_def split: option.split)

lemma nodes_diff:
  assumes "config_wf old" "config_wf cur"
  shows "set (RemovedNodes (DiffConfig (Some old) cur)) = dom (node_key old) - dom (node_key cur)"
    "set (AddedNodes (DiffConfig (Some old) cur)) = dom (node_key cur) - dom (node_key old)"
    "set (KeyChangedNodes (DiffConfig (Some old) cur)) =
       {n \<in> dom (node_key old) \<inter> dom (node_key cur). node_key old n \<noteq> node_key cur n}"
proof -
  have order: "n \<in> set (cfg_node_order c) \<longleftrightarrow> n \<in> dom (node_key c)" if "config_wf c" for c n
    using that nodes_wf_order [of c n] by (auto simp: config_wf_def node_key_def)
  show "set (RemovedNodes (DiffConfig (Some old) cur)) = dom (node_key old) - dom (node_key cur)"
    by (auto simp: DiffConfig_nodes order assms) (auto simp: node_key_def)
  show "set (AddedNodes (DiffConfig (Some old) cur)) = dom (node_key cur) - dom (node_key old)"
    by (auto simp: DiffConfig_nodes order assms) (auto simp: node_key_def)
  show "set (KeyChangedNodes (DiffConfig (Some old) cur)) =
       {n \<in> dom (node_key old) \<inter> dom (node_key cur). node_key old n \<noteq> node_key cur n}"
    by (auto simp: DiffConfig_nodes order assms) (auto simp: node_key_def)
qed

lemma ports_exact:
  assumes "config_wf old" and "config_wf cur"
  shows "(owner old |` (- set (RemovedPorts (DiffConfig (Some old) cur)))) ++
      (owner cur |` set (AddedPorts (DiffConfig (Some old) cur))) = owner cur \<and>
    set (RemovedPorts (DiffConfig (Some old) cur)) = {p. owner old p \<noteq> None \<and> owner cur p \<noteq> owner old p} \<and>
    set (AddedPorts (DiffConfig (Some old) cur)) = {p. owner cur p \<noteq> None \<and> owner cur p \<noteq> owner old p} \<and>
    sorted (RemovedPorts (DiffConfig (Some old) cur)) \<and> distinct (RemovedPorts (DiffConfig (Some old) cur)) \<and>
    sorted (AddedPorts (DiffConfig (Some old) cur)) \<and> distinct (AddedPorts (DiffConfig (Some old) cur))"
proof -
  have "sorted (filter P (SortedPorts c))" for P c
    using sorted_filter [of "\<lambda>x. x" "SortedPorts c" P] by (simp add: SortedPorts_def)
  then have "sorted (RemovedPorts (DiffConfig (Some old) cur))" "sorted (AddedPorts (DiffConfig (Some old) cur))"
    by (simp_all add: DiffConfig_ports)
  moreover have "distinct (RemovedPorts (DiffConfig (Some old) cur))"
    "distinct (AddedPorts (DiffConfig (Some old) cur))"
    using assms by (simp_all add: DiffConfig_ports distinct_SortedPorts config_wf_def)
  ultimately show ?thesis
    using owner_patch [of old cur] set_RemovedPorts [of old cur] set_AddedPorts [of old cur] by blast
qed

lemma nodes_exact:
  assumes "config_wf old" and "config_wf cur"
  shows "set (RemovedNodes (DiffConfig (Some old) cur)) = dom (node_key old) - dom (node_key cur) \<and>
    set (AddedNodes (DiffConfig (Some old) cur)) = dom (node_key cur) - dom (node_key old) \<and>
    set (KeyChangedNodes (DiffConfig (Some old) cur)) =
      {n \<in> dom (node_key old) \<inter> dom (node_key cur). node_key old n \<noteq> node_key cur n} \<and>
    set (ChangedNodes (DiffConfig (Some old) cur)) =
      {n. node_key old n \<noteq> None \<and> node_key cur n = node_key old n \<and>
        \<not> same_node_config (the (Config_NodeConfig old n)) (the (Config_NodeConfig cur n))}"
proof -
  let ?d = "DiffConfig (Some old) cur"
  have "n \<in> set (ChangedNodes ?d) \<longleftrightarrow>
      node_key old n \<noteq> None \<and> node_key cur n = node_key old n \<and>
        \<not> same_node_config (the (Config_NodeConfig old n)) (the (Config_NodeConfig cur n))" for n
  proof (cases "node_key old n \<noteq> None \<and> node_key cur n = node_key old n")
    case True
    then obtain a b where "Config_NodeConfig old n = Some a" "Config_NodeConfig cur n = Some b"
      by (auto simp: node_key_def Config_NodeConfig_def)
    moreover have "n \<notin> set (KeyChangedNodes ?d)"
      using True by (simp add: nodes_diff(3) [OF assms])
    ultimately show ?thesis using True unchanged_node [OF assms] by auto
  next
    case False
    moreover have "n \<in> set (cfg_node_order cur) \<longleftrightarrow> node_key cur n \<noteq> None"
      using assms(2) nodes_wf_order [of cur n] by (auto simp: config_wf_def node_key_def)
    ultimately have "n \<notin> set (ChangedNodes ?d)"
      by (auto simp: DiffConfig_changed(1) nodes_diff(3) [OF assms]) (auto simp: node_key_def)
    with False show ?thesis by blast
  qed
  then show ?thesis by (auto simp: nodes_diff [OF assms])
qed

section \<open>Properties\<close>

text \<open>The sample configuration with port 84 moved to node "a", a new port, and a new key for "c".\<close>

definition moved_config :: config where
  "moved_config = sample_config
     \<lparr>cfg_nodes := [(''a'', \<lparr>ns_spec_name = ''a'', ns_spec_key = ''k'', ns_spec_channels = 2\<rparr>),
                    (''c'', \<lparr>ns_spec_name = ''c'', ns_spec_key = ''m'', ns_spec_channels = 2\<rparr>)],
      cfg_ports := [(84, \<lparr>ps_port = 84, ps_node = ''a'', ps_remote = ''h:3''\<rparr>),
                    (90, \<lparr>ps_port = 90, ps_node = ''c'', ps_remote = ''h:9''\<rparr>)],
      cfg_port_order := [84, 90]\<rparr>"

lemma moved_config_wf: "config_wf moved_config"
  by code_simp

text \<open>C28: the change set is exact. Dropping the removed ports from the old ownership map and adding
  the added ones with their new owners gives the new ownership map; a port is removed or added
  only if its owner changed, a port that moves between nodes is in both lists, and each list is
  sorted and without repetitions, so every listener is stopped or started once. Removed and added
  nodes are the differences of the two node sets, key-changed nodes are those present in both with
  different keys; any other node present in both is in \<open>ChangedNodes\<close> exactly when the
  configuration it would be pushed differs as a map.\<close>

theorem diff_exact:
  assumes "config_wf old" and "config_wf cur"
  shows "((owner old |` (- set (RemovedPorts (DiffConfig (Some old) cur)))) ++
      (owner cur |` set (AddedPorts (DiffConfig (Some old) cur))) = owner cur \<and>
    set (RemovedPorts (DiffConfig (Some old) cur)) = {p. owner old p \<noteq> None \<and> owner cur p \<noteq> owner old p} \<and>
    set (AddedPorts (DiffConfig (Some old) cur)) = {p. owner cur p \<noteq> None \<and> owner cur p \<noteq> owner old p} \<and>
    sorted (RemovedPorts (DiffConfig (Some old) cur)) \<and> distinct (RemovedPorts (DiffConfig (Some old) cur)) \<and>
    sorted (AddedPorts (DiffConfig (Some old) cur)) \<and> distinct (AddedPorts (DiffConfig (Some old) cur))) \<and>
    (set (RemovedNodes (DiffConfig (Some old) cur)) = dom (node_key old) - dom (node_key cur) \<and>
    set (AddedNodes (DiffConfig (Some old) cur)) = dom (node_key cur) - dom (node_key old) \<and>
    set (KeyChangedNodes (DiffConfig (Some old) cur)) =
      {n \<in> dom (node_key old) \<inter> dom (node_key cur). node_key old n \<noteq> node_key cur n} \<and>
    set (ChangedNodes (DiffConfig (Some old) cur)) =
      {n. node_key old n \<noteq> None \<and> node_key cur n = node_key old n \<and>
        \<not> same_node_config (the (Config_NodeConfig old n)) (the (Config_NodeConfig cur n))})"
  using ports_exact [OF assms] nodes_exact [OF assms] by (rule conjI)

theorem diff_exact_witness:
  "set (RemovedPorts (DiffConfig (Some sample_config) moved_config)) =
     {p. owner sample_config p \<noteq> None \<and> owner moved_config p \<noteq> owner sample_config p} \<and>
   set (KeyChangedNodes (DiffConfig (Some sample_config) moved_config)) =
     {n \<in> dom (node_key sample_config) \<inter> dom (node_key moved_config).
        node_key sample_config n \<noteq> node_key moved_config n}"
  using diff_exact [OF sample_config_wf moved_config_wf] by blast

text \<open>A reload may be skipped when the diff is empty. With an empty diff and unchanged
  settings, the two configurations have the same nodes with the same keys, the same port
  owners, and push the same configuration to every node, so nothing the server does for a node
  depends on which of the two it holds.\<close>

theorem empty_diff_same_config:
  assumes "config_wf old" and "config_wf cur"
    and "Diff_Empty (DiffConfig (Some old) cur)" and "\<not> SettingsChanged (DiffConfig (Some old) cur)"
  shows "node_key old = node_key cur \<and> owner old = owner cur \<and> cfg_settings old = cfg_settings cur \<and>
    (case (Config_NodeConfig old n, Config_NodeConfig cur n) of
       (Some a, Some b) \<Rightarrow> same_node_config a b
     | (None, None) \<Rightarrow> True
     | _ \<Rightarrow> False)"
proof -
  let ?d = "DiffConfig (Some old) cur"
  have e: "set (RemovedNodes ?d) = {}" "set (AddedNodes ?d) = {}" "set (KeyChangedNodes ?d) = {}"
    "set (RemovedPorts ?d) = {}" "set (AddedPorts ?d) = {}" "set (ChangedNodes ?d) = {}"
    using assms(3) by (simp_all add: Diff_Empty_def)
  have dom: "dom (node_key old) = dom (node_key cur)"
    using e(1,2) unfolding nodes_diff [OF assms(1,2)] by auto
  have key: "node_key old = node_key cur"
  proof
    fix n
    show "node_key old n = node_key cur n"
    proof (cases "n \<in> dom (node_key old)")
      case True
      with e(3) dom show ?thesis unfolding nodes_diff [OF assms(1,2)] by auto
    next
      case False
      with dom have "n \<notin> dom (node_key cur)" by simp
      with False show ?thesis by (simp add: domIff)
    qed
  qed
  moreover have "owner old = owner cur"
    using owner_patch [of old cur] e(4,5) by (simp add: restrict_map_def)
  moreover have "cfg_settings old = cfg_settings cur"
    using assms(4) by (simp add: DiffConfig_nodes)
  moreover have "case (Config_NodeConfig old n, Config_NodeConfig cur n) of
       (Some a, Some b) \<Rightarrow> same_node_config a b
     | (None, None) \<Rightarrow> True
     | _ \<Rightarrow> False"
  proof -
    have "(Config_NodeConfig old n = None) = (Config_NodeConfig cur n = None)"
      using fun_cong [OF key, of n]
      by (cases "map_of (cfg_nodes cur) n") (auto simp: Config_NodeConfig_def node_key_def split: option.splits)
    then show ?thesis
      using e(3,6) unchanged_node [OF assms(1,2), of n] by (auto split: option.splits)
  qed
  ultimately show ?thesis by blast
qed

theorem empty_diff_same_config_witness:
  "node_key sample_config = node_key (sample_config\<lparr>cfg_port_order := [84, 80]\<rparr>) \<and>
   owner sample_config = owner (sample_config\<lparr>cfg_port_order := [84, 80]\<rparr>)"
proof -
  have wf: "config_wf (sample_config\<lparr>cfg_port_order := [84, 80]\<rparr>)" by code_simp
  have "Diff_Empty (DiffConfig (Some sample_config) (sample_config\<lparr>cfg_port_order := [84, 80]\<rparr>))"
    by code_simp
  moreover have "\<not> SettingsChanged (DiffConfig (Some sample_config) (sample_config\<lparr>cfg_port_order := [84, 80]\<rparr>))"
    by code_simp
  ultimately show ?thesis
    using empty_diff_same_config [OF sample_config_wf wf] by blast
qed

end
