(* ===== verification/Client_Status.thy ===== *)
theory Client_Status
  imports Client_Session Config_Diff
begin

text \<open>
  internal/client/status.go: the document of the client's own endpoint. A Go map is ranged over
  in an arbitrary order, which is the order of the association list; \<open>sortPorts\<close> is what makes the
  document independent of it. \<open>sort.Slice\<close> is insertion from the left with the given comparison;
  on a linear order every comparison sort gives the same list.
\<close>

record portView =
  pv_port :: string
  pv_remote :: string

record ClientStatus =
  cst_node :: string
  cst_url :: string
  cst_session :: string
  cst_connected :: bool
  cst_draining :: bool
  cst_configured :: int
  cst_online :: int
  cst_active :: int
  cst_bytes_in :: int
  cst_bytes_out :: int
  cst_dial_errors :: int
  cst_ports :: "portView list"
  cst_last_error :: "string option"

definition port_less :: "string \<Rightarrow> string \<Rightarrow> bool" where
  "port_less a b =
     (case (atoi a, atoi b) of
        (Some x, Some y) \<Rightarrow> x < y
      | _ \<Rightarrow> a < b)"

fun slice_insert :: "('a \<Rightarrow> 'a \<Rightarrow> bool) \<Rightarrow> 'a \<Rightarrow> 'a list \<Rightarrow> 'a list" where
  "slice_insert lt x [] = [x]"
| "slice_insert lt x (y # ys) = (if lt x y then x # y # ys else y # slice_insert lt x ys)"

definition slice_sort :: "('a \<Rightarrow> 'a \<Rightarrow> bool) \<Rightarrow> 'a list \<Rightarrow> 'a list" where
  "slice_sort lt xs = fold (slice_insert lt) xs []"

definition sortPorts :: "portView list \<Rightarrow> portView list" where
  "sortPorts = slice_sort (\<lambda>a b. port_less (pv_port a) (pv_port b))"

definition Status :: "client \<Rightarrow> ClientStatus" where
  "Status c =
     (let ports = (case cl_cfg c of None \<Rightarrow> []
                   | Some cfg \<Rightarrow> map (\<lambda>(p, r). \<lparr>pv_port = p, pv_remote = r\<rparr>) (Ports cfg))
      in \<lparr>cst_node = cl_node c, cst_url = cl_url c, cst_session = cl_session c,
          cst_connected = (cl_ctrl c \<noteq> None), cst_draining = cl_draining c,
          cst_configured = (case cl_cfg c of None \<Rightarrow> 0 | Some cfg \<Rightarrow> Channels cfg),
          cst_online = cl_channels_online c, cst_active = cl_active_streams c,
          cst_bytes_in = cl_bytes_in c, cst_bytes_out = cl_bytes_out c,
          cst_dial_errors = cl_local_dial_errors c, cst_ports = sortPorts ports,
          cst_last_error = (if lastError_of c = '''' then None else Some (lastError_of c))\<rparr>)"

section \<open>Sorting\<close>

lemma mset_slice_insert [simp]: "mset (slice_insert l x ys) = add_mset x (mset ys)"
  by (induction ys) auto

lemma mset_slice_sort [simp]: "mset (slice_sort l xs) = mset xs"
proof -
  have "mset (fold (slice_insert l) xs acc) = mset xs + mset acc" for acc
    by (induction xs arbitrary: acc) auto
  then show ?thesis by (simp add: slice_sort_def)
qed

lemma slice_insert_key:
  assumes "\<And>a b. a \<in> insert x (set ys) \<Longrightarrow> b \<in> insert x (set ys) \<Longrightarrow> l a b \<longleftrightarrow> f a < f b"
    and "sorted (map f ys)"
  shows "sorted (map f (slice_insert l x ys))"
  using assms
proof (induction ys)
  case (Cons y ys)
  show ?case
  proof (cases "l x y")
    case True
    with Cons.prems have "f x < f y" by auto
    with True Cons.prems(2) show ?thesis by auto
  next
    case False
    with Cons.prems(1) have "f y \<le> f x" by auto
    moreover have "sorted (map f (slice_insert l x ys))"
      using Cons.prems by (intro Cons.IH) auto
    moreover have "set (slice_insert l x ys) = insert x (set ys)"
      by (metis mset_slice_insert set_mset_add_mset_insert set_mset_mset)
    ultimately show ?thesis using False Cons.prems(2) by auto
  qed
qed simp

lemma slice_sort_sorted:
  assumes "\<And>a b. a \<in> set xs \<Longrightarrow> b \<in> set xs \<Longrightarrow> l a b \<longleftrightarrow> f a < f b"
  shows "sorted (map f (slice_sort l xs))"
proof -
  have "sorted (map f acc) \<Longrightarrow> set ys \<union> set acc \<subseteq> set xs \<Longrightarrow>
      sorted (map f (fold (slice_insert l) ys acc))" for ys acc
  proof (induction ys arbitrary: acc)
    case (Cons y ys)
    have "set (slice_insert l y acc) = insert y (set acc)"
      by (metis mset_slice_insert set_mset_add_mset_insert set_mset_mset)
    moreover have "sorted (map f (slice_insert l y acc))"
      using Cons.prems assms by (intro slice_insert_key) auto
    ultimately show ?case using Cons by simp
  qed simp
  from this [of "[]" xs] show ?thesis by (simp add: slice_sort_def)
qed

lemma sorted_key_unique:
  fixes f :: "'a \<Rightarrow> 'b :: linorder"
  assumes "mset xs = mset ys" "distinct (map f xs)" "sorted (map f xs)" "sorted (map f ys)"
  shows "xs = ys"
proof -
  have "mset (map f xs) = mset (map f ys)" using assms(1) by simp
  then have "sort (map f ys) = map f xs" using assms(3) by (rule properties_for_sort)
  then have "map f xs = map f ys" using assms(4) by (simp add: sorted_sort_id)
  moreover have "set ys = set xs" using assms(1) by (metis mset_eq_setD)
  moreover have "inj_on f (set xs)" using assms(2) by (simp add: distinct_map)
  ultimately show ?thesis using inj_on_map_eq_map [of f xs ys] by simp
qed

section \<open>Properties\<close>

text \<open>The port list of the document is the pushed allow-list, in ascending numeric order and
  independent of the order in which the map is ranged over, so it is byte-stable across polls;
  this holds whenever the keys are decimal port numbers, as the server sends them.\<close>

theorem status_ports_stable:
  assumes "distinct (map fst (Ports cfg))" and "mset (Ports cfg) = mset (Ports cfg')"
    and "list_all (\<lambda>(k, r). \<exists>p. int64_range p \<and> k = itoa p) (Ports cfg)"
    and "cl_cfg c = Some cfg"
  shows "mset (map (\<lambda>v. (pv_port v, pv_remote v)) (cst_ports (Status c))) = mset (Ports cfg) \<and>
    sorted (map (\<lambda>v. the (atoi (pv_port v))) (cst_ports (Status c))) \<and>
    cst_ports (Status (c\<lparr>cl_cfg := Some cfg'\<rparr>)) = cst_ports (Status c)"
proof -
  let ?view = "\<lambda>(p, r). \<lparr>pv_port = p, pv_remote = r\<rparr>" and ?num = "\<lambda>v. the (atoi (pv_port v))"
  let ?l = "\<lambda>a b. port_less (pv_port a) (pv_port b)"
  have num: "atoi (pv_port v) = Some (?num v) \<and> pv_port v = itoa (?num v) \<and> int64_range (?num v)"
    if "v \<in> set (map ?view (Ports cfg))" for v
    using that assms(3) by (auto simp: list_all_iff atoi_itoa)
  have less: "?l a b \<longleftrightarrow> ?num a < ?num b"
    if "a \<in> set (map ?view (Ports cfg))" "b \<in> set (map ?view (Ports cfg))" for a b
    using num [OF that(1)] num [OF that(2)] unfolding port_less_def
    by (cases "atoi (pv_port a)"; cases "atoi (pv_port b)") simp_all
  have set': "set (Ports cfg') = set (Ports cfg)" using assms(2) by (metis mset_eq_setD)
  have sorted: "sorted (map ?num (slice_sort ?l (map ?view (Ports d))))"
    if "d = cfg \<or> d = cfg'" for d
    using that less set' by (intro slice_sort_sorted) auto
  have distinct_num: "distinct (map ?num (map ?view (Ports cfg)))"
  proof -
    have "map itoa (map ?num (map ?view (Ports cfg))) = map fst (Ports cfg)"
      using assms(3) by (auto simp: list_all_iff atoi_itoa)
    then show ?thesis using assms(1) by (metis distinct_map)
  qed
  have "slice_sort ?l (map ?view (Ports cfg)) = slice_sort ?l (map ?view (Ports cfg'))"
  proof (rule sorted_key_unique [where f = ?num])
    show "mset (slice_sort ?l (map ?view (Ports cfg))) = mset (slice_sort ?l (map ?view (Ports cfg')))"
      using assms(2) by simp
    have "mset (map ?num (slice_sort ?l (map ?view (Ports cfg)))) = mset (map ?num (map ?view (Ports cfg)))"
      by (simp only: mset_map mset_slice_sort)
    then show "distinct (map ?num (slice_sort ?l (map ?view (Ports cfg))))"
      using distinct_num mset_eq_imp_distinct_iff by blast
  qed (use sorted in blast)+
  then show ?thesis
    using assms(2,4) sorted [of cfg]
    by (simp add: Status_def Let_def sortPorts_def) (simp add: split_beta image_mset.compositionality comp_def)
qed

theorem status_ports_stable_witness:
  "cst_ports (Status (sample_client\<lparr>cl_cfg := Some (sample_node_config [(''100'', ''h:2''), (''9'', ''h:1'')])\<rparr>)) =
   cst_ports (Status (sample_client\<lparr>cl_cfg := Some (sample_node_config [(''9'', ''h:1''), (''100'', ''h:2'')])\<rparr>))"
proof -
  let ?a = "sample_node_config [(''9'', ''h:1''), (''100'', ''h:2'')]"
  let ?b = "sample_node_config [(''100'', ''h:2''), (''9'', ''h:1'')]"
  have "itoa 9 = ''9''" "itoa 100 = ''100''" by code_simp+
  then have "list_all (\<lambda>(k, r). \<exists>p. int64_range p \<and> k = itoa p) (Ports ?a)"
    by (auto simp: sample_node_config_def int64_range_def intro: exI [of _ 9] exI [of _ 100])
  moreover have "distinct (map fst (Ports ?a))" "mset (Ports ?a) = mset (Ports ?b)"
    by (simp_all add: sample_node_config_def)
  ultimately show ?thesis
    using status_ports_stable [of ?a ?b "sample_client\<lparr>cl_cfg := Some ?a\<rparr>"] by simp
qed

end
