(* ===== verification/Node_Stats.thy ===== *)
theory Node_Stats
  imports Tunnel_Prelude
begin

text \<open>
  internal/server/registry.go, \<open>NodeStats\<close>: the counters of one node, which outlive its
  sessions. Each atomic counter is an \<open>int\<close>; the fields under \<open>mu\<close> follow. The zero
  \<open>time.Time\<close> is \<open>None\<close>. \<open>SampleRates\<close> divides in floating point; the quotient is a
  parameter.
\<close>

record node_stats =
  Opened :: int
  ResultOK :: int
  ResultTimeout :: int
  ResultNotAllowed :: int
  ResultDialFailed :: int
  ResultRejected :: int
  Saturated :: int
  LocalDialErrors :: int
  Peak :: int
  BytesIn :: int
  BytesOut :: int
  rateIn :: int
  rateOut :: int
  lastIn :: int
  lastOut :: int
  lastSample :: "time option"
  connectedAt :: "time option"
  disconnectedAt :: "time option"
  lastError :: string
  bindErrors :: "(int \<times> int) list"

definition zero_stats :: node_stats where
  "zero_stats = \<lparr>Opened = 0, ResultOK = 0, ResultTimeout = 0, ResultNotAllowed = 0,
     ResultDialFailed = 0, ResultRejected = 0, Saturated = 0, LocalDialErrors = 0, Peak = 0,
     BytesIn = 0, BytesOut = 0, rateIn = 0, rateOut = 0, lastIn = 0, lastOut = 0,
     lastSample = None, connectedAt = None, disconnectedAt = None, lastError = '''',
     bindErrors = []\<rparr>"

definition RecordResult :: "string \<Rightarrow> node_stats \<Rightarrow> node_stats" where
  "RecordResult result s =
     (if result = ''ok'' then s\<lparr>ResultOK := ResultOK s + 1\<rparr>
      else if result = ''timeout'' then s\<lparr>ResultTimeout := ResultTimeout s + 1\<rparr>
      else if result = ''not_allowed'' then s\<lparr>ResultNotAllowed := ResultNotAllowed s + 1\<rparr>
      else if result = ''dial_failed'' then s\<lparr>ResultDialFailed := ResultDialFailed s + 1\<rparr>
      else s\<lparr>ResultRejected := ResultRejected s + 1\<rparr>)"

definition Result :: "string \<Rightarrow> node_stats \<Rightarrow> int" where
  "Result result s =
     (if result = ''ok'' then ResultOK s
      else if result = ''timeout'' then ResultTimeout s
      else if result = ''not_allowed'' then ResultNotAllowed s
      else if result = ''dial_failed'' then ResultDialFailed s
      else ResultRejected s)"

definition BindErrors :: "int \<Rightarrow> node_stats \<Rightarrow> int" where
  "BindErrors port s = (case map_of (bindErrors s) port of None \<Rightarrow> 0 | Some n \<Rightarrow> n)"

definition RecordBindError :: "int \<Rightarrow> node_stats \<Rightarrow> node_stats" where
  "RecordBindError port s =
     s\<lparr>bindErrors := AList.update port (BindErrors port s + 1) (bindErrors s)\<rparr>"

text \<open>The compare-and-swap loop installs \<open>v\<close> unless the peak is already as high.\<close>

definition ObserveDemand :: "int \<Rightarrow> node_stats \<Rightarrow> node_stats" where
  "ObserveDemand v s = (if v \<le> Peak s then s else s\<lparr>Peak := v\<rparr>)"

definition SampleRates :: "(int \<Rightarrow> duration \<Rightarrow> int) \<Rightarrow> time \<Rightarrow> node_stats \<Rightarrow> node_stats" where
  "SampleRates per_second now s =
     (let s' = (case lastSample s of
                  None \<Rightarrow> s
                | Some t \<Rightarrow>
                    if 0 < now - t
                    then s\<lparr>rateIn := per_second (BytesIn s - lastIn s) (now - t),
                           rateOut := per_second (BytesOut s - lastOut s) (now - t)\<rparr>
                    else s)
      in s'\<lparr>lastSample := Some now, lastIn := BytesIn s, lastOut := BytesOut s\<rparr>)"

definition SetLastError :: "string \<Rightarrow> node_stats \<Rightarrow> node_stats" where
  "SetLastError msg s = s\<lparr>lastError := msg\<rparr>"

text \<open>The five labels of \<open>tunnel_stream_open_total\<close> (status.go).\<close>

definition streamResults :: "string list" where
  "streamResults = [''ok'', ''timeout'', ''not_allowed'', ''dial_failed'', ''rejected'']"

lemma Peak_ObserveDemand [simp]: "Peak (ObserveDemand v s) = max v (Peak s)"
  by (simp add: ObserveDemand_def)

lemma BindErrors_RecordBindError:
  "BindErrors p (RecordBindError q s) = BindErrors p s + (if p = q then 1 else 0)"
  by (simp add: BindErrors_def RecordBindError_def update_conv')

lemma Result_RecordResult:
  "Result l (RecordResult k s) =
     Result l s + (if (if k \<in> set streamResults then k else ''rejected'') =
                      (if l \<in> set streamResults then l else ''rejected'') then 1 else 0)"
  by (simp add: Result_def RecordResult_def streamResults_def)

section \<open>Properties\<close>

text \<open>Every stream-open outcome is counted exactly once. Recording any result string raises
  the sum over the five exported labels by one, and by one under its own label (an unknown one
  under "rejected"), leaving the other four as they were.\<close>

theorem RecordResult_counts_once:
  "sum_list (map (\<lambda>l. Result l (RecordResult k s)) streamResults) =
     sum_list (map (\<lambda>l. Result l s) streamResults) + 1 \<and>
   Result l (RecordResult k s) =
     Result l s + (if (if k \<in> set streamResults then k else ''rejected'') =
                      (if l \<in> set streamResults then l else ''rejected'') then 1 else 0)"
  by (intro conjI, simp only: Result_RecordResult, simp add: streamResults_def, rule Result_RecordResult)

end
