(* ===== verification/Session_Pool.thy ===== *)
theory Session_Pool
  imports Control_Messages Node_Stats
begin

text \<open>
  internal/server/registry.go, \<open>NodeSession\<close>: one live control channel with its pool of data
  channels and the FIFO queue of requests waiting for a slot. \<open>DataChannel\<close> and \<open>slotWaiter\<close>
  objects are shared by pointer (a stream keeps its channel after the channel has left the
  map, a parked request keeps its waiter), so they live in two heaps of the session, indexed
  by \<open>cref\<close> and \<open>wref\<close>. Every function here is one lock hold of \<open>chMu\<close> (or one atomic
  access); Open_Stream interleaves them.
\<close>

type_synonym cref = nat
type_synonym wref = nat

record data_channel =
  ch_id :: int
  ch_active :: int
  ch_closed :: bool
  ch_sess_closed :: bool

record slot_waiter =
  w_ready :: "cref option"
  w_handed :: bool

record node_session =
  ns_name :: string
  ns_id :: string
  ns_connected_at :: time
  ns_cfg :: node_config
  ns_queue_timeout :: duration
  ns_channels :: "(int \<times> cref) list"
  ns_waiters :: "wref list"
  ns_max_streams :: int
  ns_chan_seq :: int
  ns_active_streams :: int
  ns_queue_depth :: int
  ns_draining :: bool
  ns_last_seen :: time
  ns_rtt_micros :: int
  ns_client_stats :: "client_stats option"
  ns_done :: bool
  ns_reason :: string
  ns_chans :: "cref \<Rightarrow> data_channel"
  ns_next_chan :: cref
  ns_slots :: "wref \<Rightarrow> slot_waiter"
  ns_next_slot :: wref
  ns_stuck :: bool

definition zero_channel :: data_channel where
  "zero_channel = \<lparr>ch_id = 0, ch_active = 0, ch_closed = False, ch_sess_closed = False\<rparr>"

definition zero_waiter :: slot_waiter where
  "zero_waiter = \<lparr>w_ready = None, w_handed = False\<rparr>"

text \<open>\<open>sid\<close> is the random session id, \<open>now\<close> the clock.\<close>

definition newNodeSession :: "string \<Rightarrow> string \<Rightarrow> node_config \<Rightarrow> duration \<Rightarrow> time \<Rightarrow> node_session" where
  "newNodeSession name sid cfg queue_timeout now =
     \<lparr>ns_name = name, ns_id = sid, ns_connected_at = now, ns_cfg = cfg,
      ns_queue_timeout = queue_timeout, ns_channels = [], ns_waiters = [],
      ns_max_streams = MaxStreamsPerConn cfg, ns_chan_seq = 0, ns_active_streams = 0,
      ns_queue_depth = 0, ns_draining = False, ns_last_seen = now, ns_rtt_micros = 0,
      ns_client_stats = None, ns_done = False, ns_reason = '''',
      ns_chans = (\<lambda>_. zero_channel), ns_next_chan = 0,
      ns_slots = (\<lambda>_. zero_waiter), ns_next_slot = 0, ns_stuck = False\<rparr>"

section \<open>Slots\<close>

text \<open>\<open>reserveLocked\<close>: the loop over the channel map, in iteration order.\<close>

fun reserve_scan ::
  "int \<Rightarrow> (cref \<Rightarrow> data_channel) \<Rightarrow> (cref \<times> int) option \<Rightarrow> cref list \<Rightarrow> (cref \<times> int) option" where
  "reserve_scan limit h best [] = best"
| "reserve_scan limit h best (c # cs) =
     (if ch_closed (h c) \<or> ch_sess_closed (h c) then reserve_scan limit h best cs
      else if limit \<le> ch_active (h c) then reserve_scan limit h best cs
      else (case best of
              None \<Rightarrow> reserve_scan limit h (Some (c, ch_active (h c))) cs
            | Some (b, a) \<Rightarrow>
                if ch_active (h c) < a then reserve_scan limit h (Some (c, ch_active (h c))) cs
                else reserve_scan limit h best cs))"

definition add_active :: "cref \<Rightarrow> int \<Rightarrow> node_session \<Rightarrow> node_session" where
  "add_active c d s =
     s\<lparr>ns_chans := (ns_chans s)(c := (ns_chans s c)\<lparr>ch_active := ch_active (ns_chans s c) + d\<rparr>),
       ns_active_streams := ns_active_streams s + d\<rparr>"

definition reserveLocked :: "node_session \<Rightarrow> cref option \<times> node_session" where
  "reserveLocked s =
     (case reserve_scan (ns_max_streams s) (ns_chans s) None (map snd (ns_channels s)) of
        None \<Rightarrow> (None, s)
      | Some (c, _) \<Rightarrow> (Some c, add_active c 1 s))"

text \<open>Serving the head of the queue. The send on \<open>ready\<close> would block for ever, with \<open>chMu\<close>
  held, if its one-place buffer were full: \<open>ns_stuck\<close> records that.\<close>

definition serve_head :: "cref \<Rightarrow> node_session \<Rightarrow> node_session" where
  "serve_head c s =
     (case ns_waiters s of
        [] \<Rightarrow> s
      | w # ws \<Rightarrow>
          s\<lparr>ns_waiters := ws,
            ns_slots := (ns_slots s)(w := \<lparr>w_ready = Some c, w_handed = True\<rparr>),
            ns_stuck := ns_stuck s \<or> w_ready (ns_slots s w) \<noteq> None\<rparr>)"

lemma reserveLocked_frame [simp]:
  "ns_waiters (snd (reserveLocked s)) = ns_waiters s"
  by (simp add: reserveLocked_def add_active_def split: option.split)

text \<open>The map of the channels is ranged over again for each waiter; during one handoff its order, which is
  arbitrary, stays the same here.\<close>

function handoffLocked :: "node_session \<Rightarrow> node_session" where
  "handoffLocked s =
     (if ns_waiters s = [] then s
      else (case reserveLocked s of
              (None, _) \<Rightarrow> s
            | (Some c, s') \<Rightarrow> handoffLocked (serve_head c s')))"
  by pat_completeness auto
termination
proof (relation "measure (\<lambda>s. length (ns_waiters s))", goal_cases)
  case (2 s x s' c)
  then have "ns_waiters s' = ns_waiters s" using reserveLocked_frame [of s] by (metis snd_conv)
  with 2 show ?case by (cases "ns_waiters s") (auto simp: serve_head_def)
qed simp

declare handoffLocked.simps [simp del]

definition park :: "node_session \<Rightarrow> wref \<times> node_session" where
  "park s =
     (ns_next_slot s,
      s\<lparr>ns_slots := (ns_slots s)(ns_next_slot s := zero_waiter),
        ns_next_slot := Suc (ns_next_slot s),
        ns_waiters := ns_waiters s @ [ns_next_slot s]\<rparr>)"

definition acquire :: "node_session \<Rightarrow> (cref + wref) \<times> node_session" where
  "acquire s =
     (if ns_waiters s = []
      then (case reserveLocked s of
              (Some c, s') \<Rightarrow> (Inl c, s')
            | (None, _) \<Rightarrow> (case park s of (w, s') \<Rightarrow> (Inr w, s')))
      else (case park s of (w, s') \<Rightarrow> (Inr w, s')))"

definition take_ready :: "wref \<Rightarrow> node_session \<Rightarrow> cref option \<times> node_session" where
  "take_ready w s =
     (w_ready (ns_slots s w),
      s\<lparr>ns_slots := (ns_slots s)(w := (ns_slots s w)\<lparr>w_ready := None\<rparr>)\<rparr>)"

definition abandon :: "wref \<Rightarrow> node_session \<Rightarrow> cref option \<times> node_session" where
  "abandon w s =
     (if w_handed (ns_slots s w) then take_ready w s
      else (None, s\<lparr>ns_waiters := remove1 w (ns_waiters s)\<rparr>))"

definition release :: "cref option \<Rightarrow> node_session \<Rightarrow> node_session" where
  "release ch s = (case ch of None \<Rightarrow> s | Some c \<Rightarrow> handoffLocked (add_active c (-1) s))"

definition CloseStream :: "cref option \<Rightarrow> node_session \<Rightarrow> node_session" where
  "CloseStream ch s = release ch s"

section \<open>Channels\<close>

definition NextChannelID :: "node_session \<Rightarrow> int \<times> node_session" where
  "NextChannelID s = (ns_chan_seq s + 1, s\<lparr>ns_chan_seq := ns_chan_seq s + 1\<rparr>)"

text \<open>\<open>&DataChannel{ID: id, ...}\<close> (serveData) and \<open>AddChannel\<close>.\<close>

definition new_channel :: "int \<Rightarrow> node_session \<Rightarrow> cref \<times> node_session" where
  "new_channel i s =
     (ns_next_chan s,
      s\<lparr>ns_chans := (ns_chans s)(ns_next_chan s := zero_channel\<lparr>ch_id := i\<rparr>),
        ns_next_chan := Suc (ns_next_chan s)\<rparr>)"

definition AddChannel :: "cref \<Rightarrow> node_session \<Rightarrow> node_session" where
  "AddChannel c s =
     handoffLocked (s\<lparr>ns_channels := AList.update (ch_id (ns_chans s c)) c (ns_channels s)\<rparr>)"

definition DataChannel_Close :: "cref \<Rightarrow> node_session \<Rightarrow> node_session" where
  "DataChannel_Close c s =
     (if ch_closed (ns_chans s c) then s
      else s\<lparr>ns_chans := (ns_chans s)(c := (ns_chans s c)\<lparr>ch_closed := True, ch_sess_closed := True\<rparr>)\<rparr>)"

definition RemoveChannel :: "cref \<Rightarrow> node_session \<Rightarrow> node_session" where
  "RemoveChannel c s =
     DataChannel_Close c
       (if map_of (ns_channels s) (ch_id (ns_chans s c)) = Some c
        then s\<lparr>ns_channels := AList.delete (ch_id (ns_chans s c)) (ns_channels s)\<rparr>
        else s)"

definition OnlineChannels :: "node_session \<Rightarrow> nat" where
  "OnlineChannels s = length (ns_channels s)"

section \<open>Configuration, liveness, end of the session\<close>

text \<open>\<open>SetConfig\<close> stores the configuration and the limit, then takes \<open>chMu\<close> for the handoff.\<close>

definition SetConfig_store :: "node_config \<Rightarrow> duration \<Rightarrow> node_session \<Rightarrow> node_session" where
  "SetConfig_store cfg queue_timeout s =
     s\<lparr>ns_cfg := cfg, ns_queue_timeout := queue_timeout, ns_max_streams := MaxStreamsPerConn cfg\<rparr>"

definition SetConfig :: "node_config \<Rightarrow> duration \<Rightarrow> node_session \<Rightarrow> node_session" where
  "SetConfig cfg queue_timeout s = handoffLocked (SetConfig_store cfg queue_timeout s)"

definition Touch :: "time \<Rightarrow> duration \<Rightarrow> node_session \<Rightarrow> node_session" where
  "Touch now rtt s =
     (let s' = s\<lparr>ns_last_seen := now\<rparr>
      in if 0 < rtt then s'\<lparr>ns_rtt_micros := rtt div 1000\<rparr> else s')"

definition SetClientStats :: "client_stats \<Rightarrow> node_session \<Rightarrow> node_session" where
  "SetClientStats cs s = s\<lparr>ns_client_stats := Some cs\<rparr>"

definition SetDraining :: "bool \<Rightarrow> node_session \<Rightarrow> node_session" where
  "SetDraining v s = s\<lparr>ns_draining := v\<rparr>"

definition Session_Close :: "string \<Rightarrow> node_session \<Rightarrow> node_session" where
  "Session_Close reason s =
     (if ns_done s then s
      else fold DataChannel_Close (map snd (ns_channels s))
             (s\<lparr>ns_reason := reason, ns_done := True, ns_channels := []\<rparr>))"

definition observe_demand :: "node_session \<Rightarrow> node_stats \<Rightarrow> node_stats" where
  "observe_demand s = ObserveDemand (ns_active_streams s + ns_queue_depth s)"

section \<open>The least-loaded choice\<close>

text \<open>A channel that may take one more stream.\<close>

definition eligible :: "int \<Rightarrow> (cref \<Rightarrow> data_channel) \<Rightarrow> cref \<Rightarrow> bool" where
  "eligible limit h c \<longleftrightarrow>
     \<not> ch_closed (h c) \<and> \<not> ch_sess_closed (h c) \<and> ch_active (h c) < limit"

lemma reserve_scan_spec:
  assumes "\<And>b a. best = Some (b, a) \<Longrightarrow> a = ch_active (h b)"
  shows "case reserve_scan limit h best cs of
      None \<Rightarrow> best = None \<and> (\<forall>c \<in> set cs. \<not> eligible limit h c)
    | Some (c, a) \<Rightarrow> a = ch_active (h c) \<and>
        (best = Some (c, a) \<or> c \<in> set cs \<and> eligible limit h c) \<and>
        (\<forall>c' \<in> set cs. eligible limit h c' \<longrightarrow> a \<le> ch_active (h c')) \<and>
        (\<forall>b a'. best = Some (b, a') \<longrightarrow> a \<le> a')"
  using assms
proof (induction cs arbitrary: best)
  case Nil
  then show ?case by (cases best) auto
next
  case (Cons c cs)
  let ?new = "Some (c, ch_active (h c))"
  show ?case
  proof (cases "eligible limit h c \<and> (\<forall>b a. best = Some (b, a) \<longrightarrow> ch_active (h c) < a)")
    case True
    then have "reserve_scan limit h best (c # cs) = reserve_scan limit h ?new cs"
      by (cases best) (auto simp: eligible_def)
    with Cons.IH [of ?new] True show ?thesis
      by (auto split: option.splits prod.splits)
  next
    case False
    then have "reserve_scan limit h best (c # cs) = reserve_scan limit h best cs"
      by (cases best) (auto simp: eligible_def)
    with Cons.IH [of best] Cons.prems False show ?thesis
      by (auto split: option.splits prod.splits)
  qed
qed

lemma reserveLocked_None:
  "fst (reserveLocked s) = None \<longleftrightarrow>
     (\<forall>c \<in> snd ` set (ns_channels s). \<not> eligible (ns_max_streams s) (ns_chans s) c)"
  using reserve_scan_spec [where best = None and h = "ns_chans s" and limit = "ns_max_streams s"
      and cs = "map snd (ns_channels s)"]
  by (auto simp: reserveLocked_def split: option.splits prod.splits)

lemma reserveLocked_Some:
  assumes "reserveLocked s = (Some c, s')"
  shows "s' = add_active c 1 s" "c \<in> snd ` set (ns_channels s)"
    "eligible (ns_max_streams s) (ns_chans s) c"
    "\<forall>c' \<in> snd ` set (ns_channels s).
       eligible (ns_max_streams s) (ns_chans s) c' \<longrightarrow> ch_active (ns_chans s c) \<le> ch_active (ns_chans s c')"
  using assms reserve_scan_spec [where best = None and h = "ns_chans s" and limit = "ns_max_streams s"
      and cs = "map snd (ns_channels s)"]
  by (auto simp: reserveLocked_def split: option.splits prod.splits)

lemma reserveLocked_fail: "reserveLocked s = (None, s') \<Longrightarrow> s' = s"
  by (auto simp: reserveLocked_def split: option.splits)

end
