(* ===== verification/Registry.thy ===== *)
theory Registry
  imports Session_Pool
begin

text \<open>
  internal/server/registry.go, \<open>Registry\<close>: the online session of each node and the statistics
  that outlive it. A session is a pointer, \<open>sref\<close>: two sessions of the same node are told
  apart by it, as in the code. The statistics of a node are created once and never replaced, so
  the node name stands for the pointer to them. \<open>truncate\<close> works on the bytes of a string.
\<close>

type_synonym sref = nat

record registry =
  live :: "(string \<times> sref) list"
  stats :: "(string \<times> node_stats) list"

definition newRegistry :: registry where
  "newRegistry = \<lparr>live = [], stats = []\<rparr>"

definition stats_of :: "string \<Rightarrow> registry \<Rightarrow> node_stats" where
  "stats_of node r = (case map_of (stats r) node of None \<Rightarrow> zero_stats | Some s \<Rightarrow> s)"

text \<open>\<open>Stats\<close> creates the entry of the node; \<open>with_stats\<close> is an operation on the object it
  returns.\<close>

definition Stats :: "string \<Rightarrow> registry \<Rightarrow> registry" where
  "Stats node r =
     (case map_of (stats r) node of
        None \<Rightarrow> r\<lparr>stats := AList.update node zero_stats (stats r)\<rparr>
      | Some _ \<Rightarrow> r)"

definition with_stats :: "string \<Rightarrow> (node_stats \<Rightarrow> node_stats) \<Rightarrow> registry \<Rightarrow> registry" where
  "with_stats node f r =
     (let r' = Stats node r
      in r'\<lparr>stats := AList.update node (f (stats_of node r')) (stats r')\<rparr>)"

text \<open>\<open>Register\<close> returns whether the session was installed (\<open>ErrNodeBusy\<close> otherwise).\<close>

definition Register :: "sref \<Rightarrow> string \<Rightarrow> time \<Rightarrow> registry \<Rightarrow> bool \<times> registry" where
  "Register sess name connected_at r =
     (if map_of (live r) name \<noteq> None then (False, r)
      else (True, with_stats name (\<lambda>s. s\<lparr>connectedAt := Some connected_at, disconnectedAt := None\<rparr>)
                    (r\<lparr>live := AList.update name sess (live r)\<rparr>)))"

definition Unregister :: "sref \<Rightarrow> string \<Rightarrow> string \<Rightarrow> time \<Rightarrow> registry \<Rightarrow> registry" where
  "Unregister sess name reason now r =
     (let cur = map_of (live r) name;
          r' = (if cur = Some sess then r\<lparr>live := AList.delete name (live r)\<rparr> else r)
      in case map_of (stats r') name of
           None \<Rightarrow> r'
         | Some s \<Rightarrow>
             if cur = Some sess
             then r'\<lparr>stats := AList.update name
                    (if reason = '''' then s\<lparr>disconnectedAt := Some now\<rparr>
                     else s\<lparr>disconnectedAt := Some now, lastError := reason\<rparr>) (stats r')\<rparr>
             else r')"

definition Get :: "string \<Rightarrow> registry \<Rightarrow> sref option" where
  "Get node r = map_of (live r) node"

definition List_sessions :: "registry \<Rightarrow> sref list" where
  "List_sessions r = map snd (live r)"

text \<open>\<open>utf8.RuneStart\<close>: not a continuation byte. \<open>truncate\<close> moves back to the start of a rune.\<close>

definition RuneStart :: "byte \<Rightarrow> bool" where
  "RuneStart b \<longleftrightarrow> b AND 0xC0 \<noteq> 0x80"

fun truncate_at :: "byte list \<Rightarrow> nat \<Rightarrow> nat" where
  "truncate_at s 0 = 0"
| "truncate_at s (Suc n) = (if RuneStart (s ! Suc n) then Suc n else truncate_at s n)"

definition truncate :: "byte list \<Rightarrow> nat \<Rightarrow> byte list" where
  "truncate s n = (if length s \<le> n then s else take (truncate_at s n) s)"

section \<open>Frame rules\<close>

lemma live_Stats [server_simps, simp]: "live (Stats node r) = live r"
  by (simp add: Stats_def split: option.split)

lemma live_with_stats [server_simps, simp]: "live (with_stats node f r) = live r"
  by (simp add: with_stats_def Let_def)

lemma stats_of_Stats [server_simps, simp]: "stats_of n (Stats node r) = stats_of n r"
  by (simp add: stats_of_def Stats_def update_conv' split: option.split)

lemma stats_of_with_stats [server_simps, simp]:
  "stats_of n (with_stats node f r) = (if n = node then f (stats_of n r) else stats_of n r)"
proof -
  have "stats_of n (with_stats node f r) =
      (if n = node then f (stats_of n (Stats node r)) else stats_of n (Stats node r))"
    by (simp add: with_stats_def Let_def stats_of_def update_conv')
  then show ?thesis by simp
qed

lemma Get_Stats [server_simps, simp]: "Get n (Stats node r) = Get n r"
  by (simp add: Get_def)

lemma Get_with_stats [server_simps, simp]: "Get n (with_stats node f r) = Get n r"
  by (simp add: Get_def)

lemma Get_Register:
  "Get n (snd (Register sess name t r)) =
     (if n = name \<and> Get name r = None then Some sess else Get n r)"
  by (auto simp: Register_def Get_def update_conv')

lemma fst_Register: "fst (Register sess name t r) \<longleftrightarrow> Get name r = None"
  by (simp add: Register_def Get_def)

lemma Get_Unregister:
  "Get n (Unregister sess name reason t r) =
     (if n = name \<and> Get name r = Some sess then None else Get n r)"
  by (auto simp: Unregister_def Get_def Let_def delete_conv' split: option.split)

lemma stats_of_Unregister_stale:
  "Get name r \<noteq> Some sess \<Longrightarrow> Unregister sess name reason t r = r"
  by (simp add: Unregister_def Get_def Let_def split: option.split)

section \<open>The contract of a session table\<close>

text \<open>What the server relies on: a free name can be taken, a taken one cannot, and only its
  holder can give it back. The clients' lemmas follow from these laws alone.\<close>

datatype 'x table_op = Take string 'x | Give_back string 'x

fun apply_table_op ::
  "(string \<Rightarrow> 'x \<Rightarrow> 's \<Rightarrow> bool \<times> 's) \<Rightarrow> (string \<Rightarrow> 'x \<Rightarrow> 's \<Rightarrow> 's) \<Rightarrow> 'x table_op \<Rightarrow> 's \<Rightarrow> 's" where
  "apply_table_op enter leave (Take n x) s = snd (enter n x s)"
| "apply_table_op enter leave (Give_back n x) s = leave n x s"

locale session_table =
  fixes holder :: "'s \<Rightarrow> string \<Rightarrow> 'x option"
    and enter :: "string \<Rightarrow> 'x \<Rightarrow> 's \<Rightarrow> bool \<times> 's"
    and leave :: "string \<Rightarrow> 'x \<Rightarrow> 's \<Rightarrow> 's"
  assumes enter_accepted: "fst (enter n x s) \<longleftrightarrow> holder s n = None"
    and holder_enter:
      "holder (snd (enter n x s)) m = (if m = n \<and> holder s n = None then Some x else holder s m)"
    and holder_leave: "holder (leave n x s) m = (if m = n \<and> holder s n = Some x then None else holder s m)"
begin

lemma holder_stays:
  "holder s n = Some x \<Longrightarrow> Give_back n x \<notin> set ops \<Longrightarrow>
     holder (fold (apply_table_op enter leave) ops s) n = Some x"
proof (induction ops arbitrary: s)
  case (Cons op ops)
  then have "holder (apply_table_op enter leave op s) n = Some x"
    by (cases op) (auto simp: holder_enter holder_leave)
  with Cons show ?case by simp
qed simp

lemma refused_while_held:
  "holder s n = Some x \<Longrightarrow> Give_back n x \<notin> set ops \<Longrightarrow>
     \<not> fst (enter n y (fold (apply_table_op enter leave) ops s))"
  using holder_stays [of s n x ops] by (simp add: enter_accepted)

lemma holder_came_in:
  "holder (fold (apply_table_op enter leave) ops s) n = Some x \<Longrightarrow>
     holder s n = Some x \<or> Take n x \<in> set ops"
proof (induction ops arbitrary: s)
  case (Cons op ops)
  then have "holder (apply_table_op enter leave op s) n = Some x \<or> Take n x \<in> set ops" by simp
  then show ?case
    by (cases op) (auto simp: holder_enter holder_leave split: if_splits)
qed simp

lemma foreign_leave: "holder s n \<noteq> Some x \<Longrightarrow> holder (leave n x s) = holder s"
  by (rule ext) (simp add: holder_leave)

end

text \<open>The registry is one, whatever the times and reasons of the sessions are.\<close>

interpretation reg: session_table "\<lambda>r n. Get n r"
    "\<lambda>n x. Register x n (since x)" "\<lambda>n x. Unregister x n (why x) (at x)" for since why at
  by unfold_locales (simp_all add: fst_Register Get_Register Get_Unregister)

text \<open>The table keeps one entry per name.\<close>

definition registry_wf :: "registry \<Rightarrow> bool" where
  "registry_wf r \<longleftrightarrow> distinct (keys (live r)) \<and> distinct (keys (stats r))"

lemma registry_wf_newRegistry: "registry_wf newRegistry"
  by (simp add: registry_wf_def newRegistry_def)

lemma registry_wf_with_stats: "registry_wf r \<Longrightarrow> registry_wf (with_stats n f r)"
  by (simp add: registry_wf_def with_stats_def Let_def Stats_def split: option.split)

lemma registry_wf_Register: "registry_wf r \<Longrightarrow> registry_wf (snd (Register x n t r))"
  by (auto simp: Register_def intro!: registry_wf_with_stats) (simp add: registry_wf_def)

lemma registry_wf_Unregister: "registry_wf r \<Longrightarrow> registry_wf (Unregister x n why t r)"
  by (auto simp: Unregister_def registry_wf_def Let_def split: option.split)

lemma List_sessions_iff: "registry_wf r \<Longrightarrow> x \<in> set (List_sessions r) \<longleftrightarrow> (\<exists>n. Get n r = Some x)"
  by (auto simp: List_sessions_def registry_wf_def Get_def image_iff intro: rev_bexI dest: map_of_SomeD)

section \<open>Truncation\<close>

lemma truncate_at_le: "truncate_at s n \<le> n"
  by (induction n) auto

lemma truncate_at_start: "truncate_at s n = 0 \<or> RuneStart (s ! truncate_at s n)"
  by (induction n) auto

lemma truncate_at_max: "truncate_at s n < m \<Longrightarrow> m \<le> n \<Longrightarrow> \<not> RuneStart (s ! m)"
  by (induction n) (auto simp: le_Suc_eq split: if_splits)

section \<open>Properties\<close>

text \<open>At most one control session per node, and it cannot be displaced. Over any sequence of
  registrations and unregistrations, by any sessions with any times and reasons, the session
  that holds a node keeps it until it is unregistered itself; until then every registration for
  that node is refused, and an Unregister by a superseded session changes nothing.\<close>

theorem one_session_per_node:
  assumes "Get n r = Some x" and "Give_back n x \<notin> set ops"
    and "run = fold (apply_table_op (\<lambda>m y. Register y m (since y)) (\<lambda>m y. Unregister y m (why y) (at y))) ops r"
  shows "Get n run = Some x \<and> \<not> fst (Register y n (since y) run) \<and>
    (y \<noteq> x \<longrightarrow> Unregister y n (why y) (at y) run = run)"
  using reg.holder_stays [OF assms(1,2), of since why at]
    reg.refused_while_held [OF assms(1,2), of y since why at]
  by (auto simp: assms(3) intro: stats_of_Unregister_stale)

theorem one_session_per_node_witness:
  "Get ''a'' (snd (Register 1 ''a'' 0 newRegistry)) = Some 1 \<and>
   \<not> fst (Register 2 ''a'' 0
     (fold (apply_table_op (\<lambda>m y. Register y m 0) (\<lambda>m y. Unregister y m ''gone'' 9))
        [Take ''a'' 3, Give_back ''a'' 2] (snd (Register 1 ''a'' 0 newRegistry))))"
proof -
  have "Get ''a'' (snd (Register 1 ''a'' 0 newRegistry)) = Some 1"
    by (simp add: Get_Register) (simp add: Get_def newRegistry_def)
  then show ?thesis
    using one_session_per_node [of "''a''" _ 1 "[Take ''a'' 3, Give_back ''a'' 2]" _ "\<lambda>_. 0" "\<lambda>_. ''gone''" "\<lambda>_. 9" 2]
    by simp
qed

text \<open>The bytes of a close reason are cut to at most \<open>n\<close> without splitting a rune: the cut is
  at the start of a rune (or empties the string), it is the longest such prefix, and a string
  that fits is left alone.\<close>

theorem truncate_whole_runes:
  "length (truncate s n) \<le> n \<and> (\<exists>rest. s = truncate s n @ rest) \<and>
   (n < length s \<longrightarrow> truncate s n = [] \<or> RuneStart (s ! length (truncate s n))) \<and>
   (n < length s \<longrightarrow> (\<forall>m. length (truncate s n) < m \<longrightarrow> m \<le> n \<longrightarrow> \<not> RuneStart (s ! m)))"
proof (cases "length s \<le> n")
  case True
  then show ?thesis by (simp add: truncate_def)
next
  case False
  have "length (truncate s n) = truncate_at s n"
    using truncate_at_le [of s n] False by (simp add: truncate_def)
  moreover have "s = truncate s n @ drop (truncate_at s n) s"
    using False by (simp add: truncate_def)
  ultimately show ?thesis
    using truncate_at_le [of s n] truncate_at_start [of s n] truncate_at_max [of s n]
    by (metis length_0_conv)
qed

theorem truncate_whole_runes_witness:
  "length (truncate [0x61, 0xC3, 0xA9] 2) \<le> 2 \<and> truncate [0x61, 0xC3, 0xA9] 2 = [0x61]"
  by (rule conjI, rule truncate_whole_runes [THEN conjunct1], code_simp)

end
