(* ===== verification/Forwarding.thy ===== *)
theory Forwarding
  imports Registry Client_Stream
begin

text \<open>
  internal/server/listener.go, \<open>forward\<close>: one external connection through the tunnel, and the
  two ends of a stream put together. The environment of a forward is the outcome of
  \<open>OpenStream\<close> (Open_Stream models it), the stream's sink and source, the pieces the upload copy
  reads from the external connection until it ends, and how much that connection accepts.
\<close>

datatype open_error = Saturated | OtherOpenError string

record forward_env =
  fe_open :: "open_error + cref"
  fe_sink :: sink
  fe_source :: source
  fe_chunks :: "byte list list"
  fe_external_room :: "nat option"

record forward_result =
  fr_release :: "cref option"
  fr_stream :: sink
  fr_delivered :: "byte list"

definition nothing_forwarded :: "cref option \<Rightarrow> sink \<Rightarrow> forward_result" where
  "nothing_forwarded rel k = \<lparr>fr_release = rel, fr_stream = k, fr_delivered = []\<rparr>"

text \<open>The part of \<open>forward\<close> after the header: the upload goroutine, the ack, the download.\<close>

definition forward_ack :: "string \<Rightarrow> cref \<Rightarrow> sink \<Rightarrow> forward_env \<Rightarrow> registry \<Rightarrow> registry \<times> forward_result" where
  "forward_ack node ch k env reg =
     (let fw = NewFrameWriter k;
          up = copied_count (fe_chunks env) fw;
          k' = fw_w (send_direction (fe_chunks env) fw);
          reg1 = with_stats node (\<lambda>s. s\<lparr>BytesIn := BytesIn s + int up\<rparr>) reg
      in case ReadAck (fe_source env) of
           (Inl e, r) \<Rightarrow>
             (with_stats node (RecordResult ''timeout'') reg1, nothing_forwarded (Some ch) k')
         | (Inr status, r) \<Rightarrow>
             if status \<noteq> AckOK
             then (let reg2 = with_stats node (RecordResult (AckResult status)) reg1;
                       reg3 = (if status = AckDialFailed
                               then with_stats node (\<lambda>s. s\<lparr>LocalDialErrors := LocalDialErrors s + 1\<rparr>) reg2
                               else reg2)
                   in (with_stats node (SetLastError (AckReason status)) reg3,
                       nothing_forwarded (Some ch) k'))
             else (let reg2 = with_stats node (RecordResult ''ok'') reg1;
                       down = accepted_part (fe_external_room env) (read_payload r)
                   in (with_stats node (\<lambda>s. s\<lparr>BytesOut := BytesOut s + int (length down)\<rparr>) reg2,
                       \<lparr>fr_release = Some ch, fr_stream = k', fr_delivered = down\<rparr>)))"

definition forward :: "int \<Rightarrow> string \<Rightarrow> forward_env \<Rightarrow> registry \<Rightarrow> registry \<times> forward_result" where
  "forward port node env reg0 =
     (let reg = Stats node reg0
      in if Get node reg = None
         then (with_stats node (RecordResult ''rejected'') reg, nothing_forwarded None (fe_sink env))
         else (case fe_open env of
                 Inl e \<Rightarrow>
                   (with_stats node (RecordResult ''rejected'') reg, nothing_forwarded None (fe_sink env))
               | Inr ch \<Rightarrow>
                   (case WriteStreamHeader port (fe_sink env) of
                      (Some e, k) \<Rightarrow>
                        (with_stats node (RecordResult ''rejected'') reg, nothing_forwarded (Some ch) k)
                    | (None, k) \<Rightarrow> forward_ack node ch k env reg)))"

text \<open>The label under which the forward is counted.\<close>

definition forward_label :: "int \<Rightarrow> string \<Rightarrow> forward_env \<Rightarrow> registry \<Rightarrow> string" where
  "forward_label port node env reg =
     (if Get node reg = None \<or> isl (fe_open env) \<or> fst (WriteStreamHeader port (fe_sink env)) \<noteq> None
      then ''rejected''
      else case fst (ReadAck (fe_source env)) of
             Inl _ \<Rightarrow> ''timeout''
           | Inr status \<Rightarrow> AckResult status)"

lemma Result_frames [simp]:
  "Result l (s\<lparr>BytesIn := x\<rparr>) = Result l s" "Result l (s\<lparr>BytesOut := x\<rparr>) = Result l s"
  "Result l (s\<lparr>LocalDialErrors := x\<rparr>) = Result l s" "Result l (SetLastError m s) = Result l s"
  by (simp_all add: Result_def SetLastError_def)

lemma AckResult_label: "AckResult status \<in> set streamResults"
  by (simp add: AckResult_def streamResults_def)

lemma AckResult_ok: "status \<noteq> AckOK \<Longrightarrow> AckResult status \<noteq> ''ok''"
  by (simp add: AckResult_def)

lemma forward_counts:
  "Result l (stats_of node (fst (forward port node env reg))) =
     Result l (RecordResult (forward_label port node env reg) (stats_of node reg))"
  by (auto simp: forward_def forward_ack_def forward_label_def Let_def Result_RecordResult AckResult_def
      split: prod.split sum.split option.split)

lemma forward_other_node:
  "n \<noteq> node \<Longrightarrow> stats_of n (fst (forward port node env reg)) = stats_of n reg"
  by (auto simp: forward_def forward_ack_def Let_def split: prod.split sum.split option.split)

lemma forward_live [simp]: "live (fst (forward port node env reg)) = live reg"
  by (auto simp: forward_def forward_ack_def Let_def split: prod.split sum.split option.split)

lemma forward_delivers:
  "fr_delivered (snd (forward port node env reg)) \<noteq> [] \<Longrightarrow> forward_label port node env reg = ''ok''"
  by (auto simp: forward_def forward_ack_def forward_label_def nothing_forwarded_def Let_def AckResult_def
      split: prod.splits sum.splits option.splits if_splits)

section \<open>Both ends\<close>

text \<open>A whole stream: the server's half feeds the client through a transport that may cut the
  bytes as it likes, and the client's answer feeds the server the same way. \<open>net\<close> is the
  transport: a source with the bytes of a sink.\<close>

definition carries :: "(byte list \<Rightarrow> source) \<Rightarrow> bool" where
  "carries net \<longleftrightarrow> (\<forall>bs. src_bytes (net bs) = bs \<and> final_err (net bs) = EOF)"

definition upload :: "int \<Rightarrow> byte list list \<Rightarrow> byte list" where
  "upload port chunks =
     (case WriteStreamHeader port empty_sink of
        (_, k) \<Rightarrow> sink_bytes (fw_w (send_direction chunks (NewFrameWriter k))))"

definition client_end ::
  "(byte list \<Rightarrow> source) \<Rightarrow> int \<Rightarrow> byte list list \<Rightarrow> (string \<Rightarrow> duration \<Rightarrow> bool) \<Rightarrow>
     (byte list \<Rightarrow> byte list list) \<Rightarrow> client \<Rightarrow> client \<times> stream_result" where
  "client_end net port chunks dial service c =
     handleStream \<lparr>se_source = net (upload port chunks), se_sink = empty_sink, se_dial = dial,
       se_service = service, se_local_room = None\<rparr> c"

definition server_end ::
  "(byte list \<Rightarrow> source) \<Rightarrow> int \<Rightarrow> string \<Rightarrow> cref \<Rightarrow> byte list list \<Rightarrow> byte list \<Rightarrow> registry \<Rightarrow>
     registry \<times> forward_result" where
  "server_end net port node ch chunks answer reg =
     forward port node \<lparr>fe_open = Inr ch, fe_sink = empty_sink, fe_source = net answer,
       fe_chunks = chunks, fe_external_room = None\<rparr> reg"

lemma sink_bytes_empty [simp]: "sink_bytes empty_sink = []" "room empty_sink = None"
  by (simp_all add: empty_sink_def sink_bytes_def)

lemma upload_bytes:
  assumes "\<forall>p \<in> set chunks. frame_sized p"
  shows "upload port chunks = stream_header port @ frames_of chunks @ [frameEOF]"
  using send_direction_bytes [OF assms, of "snd (WriteStreamHeader port empty_sink)"]
  by (simp add: upload_def WriteStreamHeader_def sink_write_def split_beta)
    (simp add: sink_bytes_def empty_sink_def)

lemma copied_count_ok:
  "\<forall>p \<in> set ps. frame_sized p \<Longrightarrow> room (fw_w f) = None \<Longrightarrow> \<not> fw_eof f \<Longrightarrow>
     copied_count ps f = length (concat ps)"
proof (induction ps arbitrary: f)
  case (Cons p ps)
  obtain f1 where f1: "fw_write p f = (Inr (length p), f1)" "room (fw_w f1) = None" "\<not> fw_eof f1"
    using fw_write_ok [of p f] Cons.prems by auto
  with Cons show ?case by simp
qed simp

lemma ReadAck_bytes:
  assumes "src_bytes r = s # bs"
  shows "\<exists>r'. ReadAck r = (Inr s, r') \<and> src_bytes r' = bs \<and> final_err r' = final_err r"
  using read_byte_Cons [OF assms] by (metis ReadAck_def)

lemma client_end_header:
  assumes "valid_port port" "carries net" "\<forall>p \<in> set chunks. frame_sized p"
  obtains r where "ReadStreamHeader (net (upload port chunks)) = (Inr port, r)"
    "read_payload r = concat chunks"
proof -
  have "src_bytes (net (upload port chunks)) = stream_header port @ (frames_of chunks @ [frameEOF])"
    using assms(2) upload_bytes [OF assms(3)] by (simp add: carries_def)
  from ReadStreamHeader_header [OF assms(1) this] obtain r where
    "ReadStreamHeader (net (upload port chunks)) = (Inr port, r)"
    "src_bytes r = frames_of chunks @ [frameEOF]" "final_err r = final_err (net (upload port chunks))"
    by blast
  moreover then have "read_payload r = concat chunks"
    by (simp add: read_payload_decode decode_frames_of [OF assms(3)])
  ultimately show thesis using that by blast
qed

section \<open>Properties\<close>

text \<open>A forward is counted exactly once. Whatever happens to the connection, exactly one of
  the five outcome counters of its node goes up by one, "ok" exactly when the node was online, a
  stream was opened, the header was written and the client answered "ok"; bytes reach the
  external connection only in that case; no other node's statistics change, and the slot taken
  by the stream, if any, is the one given back.\<close>

theorem forward_counted_once:
  "sum_list (map (\<lambda>l. Result l (stats_of node (fst (forward port node env reg)))) streamResults) =
     sum_list (map (\<lambda>l. Result l (stats_of node reg)) streamResults) + 1 \<and>
   Result ''ok'' (stats_of node (fst (forward port node env reg))) = Result ''ok'' (stats_of node reg) +
     (if Get node reg \<noteq> None \<and> \<not> isl (fe_open env) \<and> fst (WriteStreamHeader port (fe_sink env)) = None \<and>
         fst (ReadAck (fe_source env)) = Inr AckOK then 1 else 0) \<and>
   (fr_delivered (snd (forward port node env reg)) = [] \<or> fst (ReadAck (fe_source env)) = Inr AckOK) \<and>
   (n = node \<or> stats_of n (fst (forward port node env reg)) = stats_of n reg) \<and>
   fr_release (snd (forward port node env reg)) =
     (if Get node reg = None then None else case fe_open env of Inl _ \<Rightarrow> None | Inr ch \<Rightarrow> Some ch)"
proof (intro conjI)
  let ?l = "forward_label port node env reg"
  show "sum_list (map (\<lambda>l. Result l (stats_of node (fst (forward port node env reg)))) streamResults) =
     sum_list (map (\<lambda>l. Result l (stats_of node reg)) streamResults) + 1"
    by (simp only: forward_counts Result_RecordResult) (simp add: streamResults_def)
  have ok: "?l = ''ok'' \<longleftrightarrow> Get node reg \<noteq> None \<and> \<not> isl (fe_open env) \<and>
      fst (WriteStreamHeader port (fe_sink env)) = None \<and> fst (ReadAck (fe_source env)) = Inr AckOK"
    by (auto simp: forward_label_def AckResult_def split: sum.split)
  show "Result ''ok'' (stats_of node (fst (forward port node env reg))) = Result ''ok'' (stats_of node reg) +
     (if Get node reg \<noteq> None \<and> \<not> isl (fe_open env) \<and> fst (WriteStreamHeader port (fe_sink env)) = None \<and>
         fst (ReadAck (fe_source env)) = Inr AckOK then 1 else 0)"
    by (simp only: forward_counts Result_RecordResult ok [symmetric]) (simp add: streamResults_def)
  show "fr_delivered (snd (forward port node env reg)) = [] \<or> fst (ReadAck (fe_source env)) = Inr AckOK"
    using forward_delivers [of port node env reg] ok by blast
  show "n = node \<or> stats_of n (fst (forward port node env reg)) = stats_of n reg"
    using forward_other_node by blast
  show "fr_release (snd (forward port node env reg)) =
     (if Get node reg = None then None else case fe_open env of Inl _ \<Rightarrow> None | Inr ch \<Rightarrow> Some ch)"
    by (auto simp: forward_def forward_ack_def nothing_forwarded_def Let_def
        split: prod.split sum.split option.split)
qed

text \<open>C6: the tunnel is transparent end to end. When the client's configuration lists the port,
  the client is not draining and the dial succeeds, the local service receives exactly the bytes
  of the external connection, the external connection receives exactly what the service answers
  to them, both ends count those bytes, and the forward is counted as "ok" - for every chunking
  of the data and of the transport.\<close>

theorem tunnel_transparent:
  assumes "valid_port port" and "carries net" and "\<forall>p \<in> set chunks. frame_sized p"
    and "\<forall>p \<in> set (service (concat chunks)). frame_sized p"
    and "remoteFor port c \<noteq> ''''" and "\<not> cl_draining c" and "dial (remoteFor port c) (dial_limit c)"
    and "Get node reg \<noteq> None"
    and "client_end net port chunks dial service c = (c', res)"
    and "server_end net port node ch chunks (sink_bytes (sr_sink res)) reg = (reg', out)"
  shows "sr_delivered res = concat chunks \<and> fr_delivered out = concat (service (concat chunks)) \<and>
    cl_bytes_in c' = cl_bytes_in c + int (length (concat chunks)) \<and>
    cl_bytes_out c' = cl_bytes_out c + int (length (concat (service (concat chunks)))) \<and>
    BytesIn (stats_of node reg') = BytesIn (stats_of node reg) + int (length (concat chunks)) \<and>
    BytesOut (stats_of node reg') =
      BytesOut (stats_of node reg) + int (length (concat (service (concat chunks)))) \<and>
    Result ''ok'' (stats_of node reg') = Result ''ok'' (stats_of node reg) + 1"
proof -
  let ?ans = "service (concat chunks)"
  obtain r where r: "ReadStreamHeader (net (upload port chunks)) = (Inr port, r)"
    "read_payload r = concat chunks"
    using client_end_header [OF assms(1-3)] .
  define k where "k = \<lparr>written = [[AckOK]], room = None\<rparr>"
  have ack: "WriteAck AckOK empty_sink = (None, k)"
    by (simp add: WriteAck_room k_def) (simp add: empty_sink_def)
  have res: "sr_delivered res = concat chunks" "sr_sink res = fw_w (send_direction ?ans (NewFrameWriter k))"
    "cl_bytes_in c' = cl_bytes_in c + int (length (concat chunks))"
    "cl_bytes_out c' = cl_bytes_out c + int (copied_count ?ans (NewFrameWriter k))"
    using assms(5-7,9) r ack
    by (auto simp: client_end_def handleStream_def serve_stream_def pipe_stream_def Let_def
        accepted_part_def stream_leave_def split: prod.splits) (auto simp: stream_enter_def)
  have "sink_bytes (sr_sink res) = AckOK # frames_of ?ans @ [frameEOF]"
    unfolding res(2) using send_direction_bytes [OF assms(4), of k]
    by (simp add: k_def) (simp add: sink_bytes_def)
  then have "src_bytes (net (sink_bytes (sr_sink res))) = AckOK # frames_of ?ans @ [frameEOF]"
    "final_err (net (sink_bytes (sr_sink res))) = EOF"
    using assms(2) by (simp_all add: carries_def)
  then obtain r' where r': "ReadAck (net (sink_bytes (sr_sink res))) = (Inr AckOK, r')"
    "src_bytes r' = frames_of ?ans @ [frameEOF]"
    using ReadAck_bytes by blast
  have down: "read_payload r' = concat ?ans"
    by (simp add: read_payload_decode r'(2) decode_frames_of [OF assms(4)])
  define k0 where "k0 = snd (WriteStreamHeader port empty_sink)"
  have hdr: "WriteStreamHeader port empty_sink = (None, k0)" "room k0 = None"
    by (simp_all add: k0_def WriteStreamHeader_def sink_write_def empty_sink_def)
  have up: "copied_count chunks (NewFrameWriter k0) = length (concat chunks)"
    using hdr(2) by (intro copied_count_ok [OF assms(3)]) (simp_all add: NewFrameWriter_def)
  have dn: "copied_count ?ans (NewFrameWriter k) = length (concat ?ans)"
    by (intro copied_count_ok [OF assms(4)]) (simp_all add: NewFrameWriter_def k_def)
  have srv: "fr_delivered out = concat ?ans"
    "BytesIn (stats_of node reg') = BytesIn (stats_of node reg) + int (length (concat chunks))"
    "BytesOut (stats_of node reg') = BytesOut (stats_of node reg) + int (length (concat ?ans))"
    "Result ''ok'' (stats_of node reg') = Result ''ok'' (stats_of node reg) + 1"
    using assms(8,10) r'(1) hdr(1) up down
    by (auto simp: server_end_def forward_def forward_ack_def Let_def accepted_part_def RecordResult_def
        Result_def)
  show ?thesis using res srv dn by simp
qed

lemma carries_header_source: "carries header_source"
  by (simp add: carries_def header_source_def src_bytes_def)

lemma sample_remotes: "remoteFor 80 sample_client = ''h:1''" "remoteFor 81 sample_client = ''''"
proof -
  have "itoa 80 = ''80''" "itoa 81 = ''81''" by code_simp+
  then show "remoteFor 80 sample_client = ''h:1''" "remoteFor 81 sample_client = ''''"
    by (simp_all add: remoteFor_def sample_client_def sample_node_config_def map_index_def)
qed

lemma sample_online: "Get ''a'' (snd (Register 1 ''a'' 0 newRegistry)) \<noteq> None"
  by (simp add: Get_Register)

theorem tunnel_transparent_witness:
  "sr_delivered (snd (client_end header_source 80 [[1, 2], [3]] (\<lambda>_ _. True) (\<lambda>_. [[9, 8]]) sample_client)) = [1, 2, 3]"
proof -
  have c: "\<forall>p \<in> set [[1, 2], [3]]. frame_sized p" "\<forall>p \<in> set ((\<lambda>_. [[9, 8]]) (concat [[1, 2], [3 :: byte]])). frame_sized p"
    "remoteFor 80 sample_client \<noteq> ''''" "valid_port 80"
    by (simp_all add: frame_sized_def maxFrameLen_def sample_remotes valid_port_def)
  have d: "\<not> cl_draining sample_client" by (simp add: sample_client_def new_client_def)
  obtain c' res where e: "client_end header_source 80 [[1, 2], [3]] (\<lambda>_ _. True) (\<lambda>_. [[9, 8]]) sample_client = (c', res)"
    by fastforce
  obtain reg' out where s: "server_end header_source 80 ''a'' 0 [[1, 2], [3]] (sink_bytes (sr_sink res))
      (snd (Register 1 ''a'' 0 newRegistry)) = (reg', out)"
    by fastforce
  from tunnel_transparent [OF c(4) carries_header_source c(1,2,3) d _ sample_online e s] e
  show ?thesis by simp
qed

text \<open>Node isolation end to end. When the client's configuration does not list the port, the
  external connection receives nothing, nothing is dialled, no byte of it reaches any service,
  and the forward is counted as "not_allowed" with the reason recorded.\<close>

theorem unlisted_port_refused:
  assumes "valid_port port" and "carries net" and "\<forall>p \<in> set chunks. frame_sized p"
    and "remoteFor port c = ''''" and "\<not> cl_draining c" and "Get node reg \<noteq> None"
    and "client_end net port chunks dial service c = (c', res)"
    and "server_end net port node ch chunks (sink_bytes (sr_sink res)) reg = (reg', out)"
  shows "sr_dialled res = None \<and> sr_delivered res = [] \<and> fr_delivered out = [] \<and>
    Result ''not_allowed'' (stats_of node reg') = Result ''not_allowed'' (stats_of node reg) + 1 \<and>
    lastError (stats_of node reg') = ''port id not in allow-list''"
proof -
  obtain r where r: "ReadStreamHeader (net (upload port chunks)) = (Inr port, r)"
    using client_end_header [OF assms(1-3)] .
  have res: "sr_dialled res = None" "sr_delivered res = []" "sink_bytes (sr_sink res) = [AckPortNotAllowed]"
    using assms(4,5,7) r
    by (auto simp: client_end_def handleStream_def serve_stream_def refuse_stream_def Let_def
        sink_bytes_ack split: prod.splits)
  have "src_bytes (net (sink_bytes (sr_sink res))) = AckPortNotAllowed # []"
    using assms(2) res(3) by (simp add: carries_def)
  from ReadAck_bytes [OF this] obtain r' where
    r': "ReadAck (net (sink_bytes (sr_sink res))) = (Inr AckPortNotAllowed, r')" by blast
  have hdr: "fst (WriteStreamHeader port empty_sink) = None"
    by (simp add: WriteStreamHeader_def sink_write_def empty_sink_def)
  have "fr_delivered out = [] \<and>
      Result ''not_allowed'' (stats_of node reg') = Result ''not_allowed'' (stats_of node reg) + 1 \<and>
      lastError (stats_of node reg') = ''port id not in allow-list''"
    using assms(6,8) r' hdr
    by (auto simp: server_end_def forward_def forward_ack_def nothing_forwarded_def Let_def ack_defs
        AckResult_def AckReason_def RecordResult_def Result_def SetLastError_def split: prod.splits)
  with res show ?thesis by blast
qed

theorem unlisted_port_refused_witness:
  "sr_dialled (snd (client_end header_source 81 [[1, 2], [3]] (\<lambda>_ _. True) (\<lambda>_. [[9, 8]]) sample_client)) = None"
proof -
  have c: "\<forall>p \<in> set [[1, 2], [3]]. frame_sized p" "valid_port 81"
    by (simp_all add: frame_sized_def maxFrameLen_def valid_port_def)
  have d: "\<not> cl_draining sample_client" by (simp add: sample_client_def new_client_def)
  obtain c' res where e: "client_end header_source 81 [[1, 2], [3]] (\<lambda>_ _. True) (\<lambda>_. [[9, 8]]) sample_client = (c', res)"
    by fastforce
  obtain reg' out where s: "server_end header_source 81 ''a'' 0 [[1, 2], [3]] (sink_bytes (sr_sink res))
      (snd (Register 1 ''a'' 0 newRegistry)) = (reg', out)"
    by fastforce
  from unlisted_port_refused [OF c(2) carries_header_source c(1) sample_remotes(2) d sample_online e s] e
  show ?thesis by simp
qed

end
