(* ===== verification/Port_Listeners.thy ===== *)
theory Port_Listeners
  imports Config_Laws Registry
begin

text \<open>
  internal/server/listener.go: the reverse TCP listeners. \<open>listenerManager.items\<close> maps a port to
  the current \<open>portListener\<close>, a pointer (\<open>plref\<close>) into the heap \<open>lm_heap\<close>: a listener that has
  left the map still has its accept loop and its connections. The loop \<open>run\<close> is the four steps
  between which another goroutine can act: \<open>run_listen\<close> (the check of the context and the bind),
  \<open>run_publish\<close> (the lock hold that stores the socket), \<open>run_accept\<close> and \<open>run_retry\<close>.
  Sockets are numbered per listener; \<open>pl_socket\<close> is the one that is open, \<open>pl_ln\<close> the one the
  field \<open>ln\<close> refers to.
\<close>

type_synonym plref = nat
type_synonym conn = nat

datatype run_pc = RunTop | RunBound | RunWait | RunAccept | RunDone

record port_listener =
  pl_port :: int
  pl_node :: string
  pl_cancelled :: bool
  pl_ln :: "nat option"
  pl_listening :: bool
  pl_last_err :: string
  pl_conns :: "conn list"
  pl_active_conns :: int
  pl_pc :: run_pc
  pl_backoff :: duration
  pl_socket :: "nat option"
  pl_sockets_made :: nat

record listeners =
  items :: "(int \<times> plref) list"
  lm_heap :: "plref \<Rightarrow> port_listener"
  lm_next :: plref
  lm_closed :: "conn list"

definition new_listener :: "int \<Rightarrow> string \<Rightarrow> port_listener" where
  "new_listener port node =
     \<lparr>pl_port = port, pl_node = node, pl_cancelled = False, pl_ln = None, pl_listening = False,
      pl_last_err = '''', pl_conns = [], pl_active_conns = 0, pl_pc = RunTop, pl_backoff = second,
      pl_socket = None, pl_sockets_made = 0\<rparr>"

definition newListenerManager :: listeners where
  "newListenerManager =
     \<lparr>items = [], lm_heap = (\<lambda>_. new_listener 0 ''''), lm_next = 0, lm_closed = []\<rparr>"

section \<open>One listener\<close>

text \<open>\<open>stop\<close>: the context is cancelled, the stored socket closed, and, unless the stop is
  graceful, the connections are closed too.\<close>

definition pl_stop :: "bool \<Rightarrow> port_listener \<Rightarrow> port_listener \<times> conn list" where
  "pl_stop graceful pl =
     (pl\<lparr>pl_cancelled := True, pl_listening := False,
         pl_socket := (if pl_ln pl \<noteq> None \<and> pl_ln pl = pl_socket pl then None else pl_socket pl)\<rparr>,
      if graceful then [] else pl_conns pl)"

definition track :: "conn \<Rightarrow> port_listener \<Rightarrow> port_listener" where
  "track c pl = pl\<lparr>pl_conns := List.insert c (pl_conns pl), pl_active_conns := pl_active_conns pl + 1\<rparr>"

definition untrack :: "conn \<Rightarrow> port_listener \<Rightarrow> port_listener" where
  "untrack c pl = pl\<lparr>pl_conns := removeAll c (pl_conns pl), pl_active_conns := pl_active_conns pl - 1\<rparr>"

definition run_listen :: "string option \<Rightarrow> port_listener \<Rightarrow> port_listener" where
  "run_listen bind_error pl =
     (if pl_cancelled pl then pl\<lparr>pl_pc := RunDone\<rparr>
      else case bind_error of
             Some e \<Rightarrow> pl\<lparr>pl_listening := False, pl_last_err := e, pl_pc := RunWait\<rparr>
           | None \<Rightarrow> pl\<lparr>pl_socket := Some (pl_sockets_made pl), pl_sockets_made := Suc (pl_sockets_made pl),
                        pl_pc := RunBound\<rparr>)"

definition run_retry :: "bool \<Rightarrow> port_listener \<Rightarrow> port_listener" where
  "run_retry ctx_done pl =
     (if ctx_done then pl\<lparr>pl_pc := RunDone\<rparr>
      else pl\<lparr>pl_backoff := (if pl_backoff pl < 30 * second then pl_backoff pl * 2 else pl_backoff pl),
              pl_pc := RunTop\<rparr>)"

definition run_publish :: "port_listener \<Rightarrow> port_listener" where
  "run_publish pl =
     pl\<lparr>pl_backoff := second, pl_ln := pl_socket pl, pl_listening := True, pl_last_err := '''',
        pl_pc := RunAccept\<rparr>"

definition run_accept :: "string + conn \<Rightarrow> port_listener \<Rightarrow> port_listener" where
  "run_accept result pl =
     (case result of
        Inr c \<Rightarrow> track c pl
      | Inl e \<Rightarrow>
          pl\<lparr>pl_last_err := (if pl_cancelled pl then pl_last_err pl else e),
             pl_socket := None, pl_listening := False,
             pl_pc := (if pl_cancelled pl then RunDone else RunTop)\<rparr>)"

datatype run_event =
  Bind "string option" | Publish | Accepted "string + conn" | Retry bool | Untrack conn

text \<open>A step happens only at its program point; \<open>Accept\<close> can succeed only on an open socket, and
  the wait ends by cancellation only if the listener was cancelled.\<close>

definition run_step :: "run_event \<Rightarrow> port_listener \<Rightarrow> port_listener" where
  "run_step e pl =
     (case e of
        Bind r \<Rightarrow> if pl_pc pl = RunTop then run_listen r pl else pl
      | Publish \<Rightarrow> if pl_pc pl = RunBound then run_publish pl else pl
      | Accepted r \<Rightarrow>
          if pl_pc pl = RunAccept \<and>
             (case r of Inl _ \<Rightarrow> True | Inr c \<Rightarrow> pl_socket pl \<noteq> None \<and> c \<notin> set (pl_conns pl))
          then run_accept r pl else pl
      | Retry d \<Rightarrow> if pl_pc pl = RunWait \<and> (d \<longrightarrow> pl_cancelled pl) then run_retry d pl else pl
      | Untrack c \<Rightarrow> if c \<in> set (pl_conns pl) then untrack c pl else pl)"

section \<open>The manager\<close>

definition stop_ref :: "bool \<Rightarrow> plref \<Rightarrow> listeners \<Rightarrow> listeners" where
  "stop_ref graceful r lm =
     (case pl_stop graceful (lm_heap lm r) of
        (pl, closed) \<Rightarrow> lm\<lparr>lm_heap := (lm_heap lm)(r := pl), lm_closed := lm_closed lm @ closed\<rparr>)"

definition StopPort :: "int \<Rightarrow> bool \<Rightarrow> listeners \<Rightarrow> listeners" where
  "StopPort port graceful lm =
     (case map_of (items lm) port of
        None \<Rightarrow> lm
      | Some r \<Rightarrow> stop_ref graceful r (lm\<lparr>items := AList.delete port (items lm)\<rparr>))"

definition owned_items :: "string \<Rightarrow> listeners \<Rightarrow> (int \<times> plref) list" where
  "owned_items node lm = filter (\<lambda>(p, r). pl_node (lm_heap lm r) = node) (items lm)"

definition StopNode :: "string \<Rightarrow> bool \<Rightarrow> listeners \<Rightarrow> listeners" where
  "StopNode node graceful lm =
     fold (stop_ref graceful) (map snd (owned_items node lm))
       (lm\<lparr>items := filter (\<lambda>(p, r). pl_node (lm_heap lm r) \<noteq> node) (items lm)\<rparr>)"

definition StopAll :: "bool \<Rightarrow> listeners \<Rightarrow> listeners" where
  "StopAll graceful lm = fold (stop_ref graceful) (map snd (items lm)) (lm\<lparr>items := []\<rparr>)"

text \<open>\<open>StartPort\<close> in its two lock holds, with \<open>StopPort\<close> between them when the port has to be
  taken from another node. \<open>StartPort\<close> here, like the stops above, is the run that no other goroutine
  interrupts; Listener_Account lets others act between the lock holds.\<close>

definition start_install :: "PortSpec \<Rightarrow> listeners \<Rightarrow> listeners" where
  "start_install spec lm =
     lm\<lparr>items := AList.update (ps_port spec) (lm_next lm) (items lm),
        lm_heap := (lm_heap lm)(lm_next lm := new_listener (ps_port spec) (ps_node spec)),
        lm_next := Suc (lm_next lm)\<rparr>"

definition start_lookup :: "PortSpec \<Rightarrow> bool \<Rightarrow> listeners \<Rightarrow> bool \<times> listeners" where
  "start_lookup spec online lm =
     (if \<not> online then (False, lm)
      else case map_of (items lm) (ps_port spec) of
             Some cur \<Rightarrow> if pl_node (lm_heap lm cur) = ps_node spec then (False, lm) else (True, lm)
           | None \<Rightarrow> (False, start_install spec lm))"

definition StartPort :: "PortSpec \<Rightarrow> bool \<Rightarrow> listeners \<Rightarrow> listeners" where
  "StartPort spec online lm =
     (case start_lookup spec online lm of
        (conflict, lm') \<Rightarrow>
          if conflict then start_install spec (StopPort (ps_port spec) False lm') else lm')"

definition StartNode :: "config \<Rightarrow> string \<Rightarrow> bool \<Rightarrow> listeners \<Rightarrow> listeners" where
  "StartNode cfg node online lm = fold (\<lambda>spec. StartPort spec online) (PortsOf cfg node) lm"

definition listening :: "listeners \<Rightarrow> plref list" where
  "listening lm = map snd (items lm)"

record PortStatus =
  pst_port :: int
  pst_remote :: string
  pst_listening :: bool
  pst_active_conns :: int
  pst_bind_errors :: int
  pst_error :: "string option"

definition port_status :: "string \<Rightarrow> registry \<Rightarrow> listeners \<Rightarrow> PortSpec \<Rightarrow> PortStatus" where
  "port_status node reg lm spec =
     (let st = \<lparr>pst_port = ps_port spec, pst_remote = ps_remote spec, pst_listening = False,
                pst_active_conns = 0, pst_bind_errors = BindErrors (ps_port spec) (stats_of node reg),
                pst_error = None\<rparr>
      in case map_of (owned_items node lm) (ps_port spec) of
           Some r \<Rightarrow>
             (let pl = lm_heap lm r;
                  st' = st\<lparr>pst_listening := pl_listening pl, pst_active_conns := pl_active_conns pl\<rparr>
              in if pl_last_err pl \<noteq> '''' then st'\<lparr>pst_error := Some (pl_last_err pl)\<rparr> else st')
         | None \<Rightarrow> st\<lparr>pst_error := Some ''node offline''\<rparr>)"

definition Snapshot :: "string \<Rightarrow> config \<Rightarrow> registry \<Rightarrow> listeners \<Rightarrow> PortStatus list" where
  "Snapshot node cfg reg lm = map (port_status node reg lm) (PortsOf cfg node)"

text \<open>One step of a listener in the heap; a failed bind is counted for its node.\<close>

definition lm_run :: "plref \<Rightarrow> run_event \<Rightarrow> listeners \<Rightarrow> listeners" where
  "lm_run r e lm =
     lm\<lparr>lm_heap := (lm_heap lm)(r := run_step e (lm_heap lm r)),
        lm_closed := (case e of Untrack c \<Rightarrow>
            if c \<in> set (pl_conns (lm_heap lm r)) then lm_closed lm @ [c] else lm_closed lm
          | _ \<Rightarrow> lm_closed lm)\<rparr>"

definition bind_failed :: "plref \<Rightarrow> run_event \<Rightarrow> listeners \<Rightarrow> registry \<Rightarrow> registry" where
  "bind_failed r e lm reg =
     (case e of
        Bind (Some err) \<Rightarrow>
          if pl_pc (lm_heap lm r) = RunTop \<and> \<not> pl_cancelled (lm_heap lm r)
          then with_stats (pl_node (lm_heap lm r)) (RecordBindError (pl_port (lm_heap lm r))) reg
          else reg
      | _ \<Rightarrow> reg)"

end
