(* ===== verification/Listener_Laws.thy ===== *)
theory Listener_Laws
  imports Port_Listeners
begin

text \<open>
  Properties of the reverse listeners: the invariant of one accept loop (\<open>pl_inv\<close>), the account
  of the manager (\<open>lm_wf\<close>: one live listener per port, every listener outside the map has been
  told to stop) kept by every operation that runs without interruption (Listener_Account has the
  interleavings), exact effects of starting and stopping, and the
  windows in which a listener escapes its stop.
\<close>

section \<open>One listener\<close>

definition conn_inv :: "port_listener \<Rightarrow> bool" where
  "conn_inv pl \<longleftrightarrow> distinct (pl_conns pl) \<and> pl_active_conns pl = int (length (pl_conns pl))"

definition wait_inv :: "port_listener \<Rightarrow> bool" where
  "wait_inv pl \<longleftrightarrow> pl_backoff pl \<in> {1 * second, 2 * second, 4 * second, 8 * second, 16 * second, 32 * second}"

definition sock_inv :: "port_listener \<Rightarrow> bool" where
  "sock_inv pl \<longleftrightarrow>
     (\<forall>k. pl_ln pl = Some k \<longrightarrow> k < pl_sockets_made pl) \<and>
     (case pl_pc pl of
        RunBound \<Rightarrow>
          pl_socket pl = Some (pl_sockets_made pl - 1) \<and> pl_ln pl \<noteq> pl_socket pl \<and>
          0 < pl_sockets_made pl \<and> \<not> pl_listening pl
      | RunAccept \<Rightarrow>
          pl_ln pl \<noteq> None \<and> (pl_socket pl = None \<or> pl_socket pl = pl_ln pl) \<and>
          (pl_cancelled pl \<or> pl_listening pl) \<and> (pl_listening pl \<longrightarrow> pl_socket pl \<noteq> None)
      | _ \<Rightarrow> pl_socket pl = None \<and> \<not> pl_listening pl)"

definition pl_inv :: "port_listener \<Rightarrow> bool" where
  "pl_inv pl \<longleftrightarrow> conn_inv pl \<and> wait_inv pl \<and> sock_inv pl"

lemma pl_inv_new: "pl_inv (new_listener p n)"
  by (simp add: pl_inv_def conn_inv_def wait_inv_def sock_inv_def new_listener_def)

lemma sock_inv_stop: "sock_inv pl \<Longrightarrow> sock_inv (fst (pl_stop g pl))"
  by (cases "pl_pc pl") (auto simp: sock_inv_def pl_stop_def)

lemma pl_inv_stop: "pl_inv pl \<Longrightarrow> pl_inv (fst (pl_stop g pl))"
  by (simp add: pl_inv_def sock_inv_stop) (simp add: conn_inv_def wait_inv_def pl_stop_def)

lemma conn_inv_track: "conn_inv pl \<Longrightarrow> c \<notin> set (pl_conns pl) \<Longrightarrow> conn_inv (track c pl)"
  by (simp add: conn_inv_def track_def)

lemma conn_inv_untrack:
  assumes "conn_inv pl" "c \<in> set (pl_conns pl)"
  shows "conn_inv (untrack c pl)"
proof -
  have "removeAll c (pl_conns pl) = remove1 c (pl_conns pl)"
    using assms(1) by (simp add: conn_inv_def distinct_remove1_removeAll)
  moreover have "Suc 0 \<le> length (pl_conns pl)"
    using assms(2) by (cases "pl_conns pl") auto
  ultimately show ?thesis
    using assms by (simp add: conn_inv_def untrack_def length_remove1 of_nat_diff)
qed

lemma wait_inv_double:
  "wait_inv pl \<Longrightarrow> pl_backoff pl < 30 * second \<Longrightarrow> wait_inv (pl\<lparr>pl_backoff := pl_backoff pl * 2\<rparr>)"
  by (auto simp: wait_inv_def second_def)

lemma sock_inv_conns [simp]: "sock_inv (track c pl) = sock_inv pl" "sock_inv (untrack c pl) = sock_inv pl"
  by (simp_all add: sock_inv_def track_def untrack_def cong: run_pc.case_cong)

lemma wait_inv_conns [simp]: "wait_inv (track c pl) = wait_inv pl" "wait_inv (untrack c pl) = wait_inv pl"
  by (simp_all add: wait_inv_def track_def untrack_def)

lemma conn_inv_run:
  "conn_inv pl \<Longrightarrow> conn_inv (run_step e pl)"
  by (cases e)
    (auto simp: run_step_def run_listen_def run_publish_def run_accept_def run_retry_def
      conn_inv_track conn_inv_untrack split: option.split sum.split,
     auto simp: conn_inv_def)

lemma wait_inv_run: "wait_inv pl \<Longrightarrow> wait_inv (run_step e pl)"
  by (cases e)
    (auto simp: run_step_def run_listen_def run_publish_def run_accept_def run_retry_def
      split: option.split sum.split,
     auto simp: wait_inv_def second_def)

lemma sock_inv_run: "sock_inv pl \<Longrightarrow> sock_inv (run_step e pl)"
proof (cases e)
  case (Bind r)
  moreover assume "sock_inv pl"
  ultimately show ?thesis
    by (auto simp: run_step_def run_listen_def sock_inv_def split: option.splits)
next
  case Publish
  moreover assume "sock_inv pl"
  ultimately show ?thesis
    by (auto simp: run_step_def run_publish_def sock_inv_def)
next
  case (Accepted r)
  moreover assume "sock_inv pl"
  ultimately show ?thesis
    by (auto simp: run_step_def run_accept_def split: sum.split) (auto simp: sock_inv_def)
next
  case (Retry d)
  moreover assume "sock_inv pl"
  ultimately show ?thesis
    by (auto simp: run_step_def run_retry_def sock_inv_def)
next
  case (Untrack c)
  moreover assume "sock_inv pl"
  ultimately show ?thesis by (simp add: run_step_def)
qed

lemma pl_inv_run: "pl_inv pl \<Longrightarrow> pl_inv (run_step e pl)"
  by (simp add: pl_inv_def conn_inv_run wait_inv_run sock_inv_run)

interpretation accept_loop: invariant_system pl_inv run_step
  by unfold_locales (rule pl_inv_run)

lemma run_step_frame [server_simps, simp]:
  "pl_port (run_step e pl) = pl_port pl" "pl_node (run_step e pl) = pl_node pl"
  "pl_cancelled (run_step e pl) = pl_cancelled pl"
  by (cases e; simp add: run_step_def run_listen_def run_publish_def run_accept_def run_retry_def
      track_def untrack_def split: option.split sum.split)+

lemma pl_stop_frame [server_simps, simp]:
  "pl_port (fst (pl_stop g pl)) = pl_port pl" "pl_node (fst (pl_stop g pl)) = pl_node pl"
  "pl_cancelled (fst (pl_stop g pl))" "pl_conns (fst (pl_stop g pl)) = pl_conns pl"
  by (simp_all add: pl_stop_def)

text \<open>A stopped listener outside the window between bind and publication has no open socket and
  never opens one again.\<close>

lemma stopped_run:
  "pl_cancelled pl \<Longrightarrow> pl_socket pl = None \<Longrightarrow> pl_pc pl \<noteq> RunBound \<Longrightarrow>
     pl_socket (run_step e pl) = None \<and> pl_pc (run_step e pl) \<noteq> RunBound"
  by (cases e)
    (auto simp: run_step_def run_listen_def run_publish_def run_accept_def run_retry_def
      track_def untrack_def split: option.split sum.split)

lemma stopped_runs:
  assumes "pl_cancelled pl" "pl_socket pl = None" "pl_pc pl \<noteq> RunBound"
  shows "pl_socket (fold run_step es pl) = None"
proof -
  have "pl_cancelled (fold run_step es pl) \<and> pl_socket (fold run_step es pl) = None \<and>
      pl_pc (fold run_step es pl) \<noteq> RunBound"
    using assms by (induction es arbitrary: pl) (simp_all add: stopped_run)
  then show ?thesis by simp
qed

lemma pl_stop_closes:
  "sock_inv pl \<Longrightarrow> pl_pc pl \<noteq> RunBound \<Longrightarrow>
     pl_socket (fst (pl_stop g pl)) = None \<and> pl_pc (fst (pl_stop g pl)) \<noteq> RunBound"
  by (auto simp: sock_inv_def pl_stop_def split: run_pc.splits)

text \<open>A listener that was stopped while its socket was bound but not yet published.\<close>

definition escaped :: "port_listener \<Rightarrow> bool" where
  "escaped pl \<longleftrightarrow> pl_cancelled pl \<and> pl_pc pl = RunAccept \<and> pl_socket pl \<noteq> None \<and> pl_listening pl"

lemma escaped_run: "escaped pl \<Longrightarrow> (\<And>err. e \<noteq> Accepted (Inl err)) \<Longrightarrow> escaped (run_step e pl)"
proof (cases e)
  case (Accepted r)
  moreover assume "escaped pl" and "\<And>err. e \<noteq> Accepted (Inl err)"
  ultimately show ?thesis
    by (cases r) (auto simp: run_step_def run_accept_def escaped_def track_def)
qed (auto simp: run_step_def escaped_def untrack_def)

section \<open>The manager\<close>

lemma stop_ref_frame [server_simps, simp]:
  "items (stop_ref g r lm) = items lm" "lm_next (stop_ref g r lm) = lm_next lm"
  "pl_node (lm_heap (stop_ref g r lm) x) = pl_node (lm_heap lm x)"
  "pl_port (lm_heap (stop_ref g r lm) x) = pl_port (lm_heap lm x)"
  "pl_cancelled (lm_heap (stop_ref g r lm) x) \<longleftrightarrow> x = r \<or> pl_cancelled (lm_heap lm x)"
  "pl_conns (lm_heap (stop_ref g r lm) x) = pl_conns (lm_heap lm x)"
  by (simp_all add: stop_ref_def split_beta)

lemma stop_refs_frame [server_simps, simp]:
  "items (fold (stop_ref g) rs lm) = items lm" "lm_next (fold (stop_ref g) rs lm) = lm_next lm"
  "pl_node (lm_heap (fold (stop_ref g) rs lm) x) = pl_node (lm_heap lm x)"
  "pl_port (lm_heap (fold (stop_ref g) rs lm) x) = pl_port (lm_heap lm x)"
  "pl_cancelled (lm_heap (fold (stop_ref g) rs lm) x) \<longleftrightarrow> x \<in> set rs \<or> pl_cancelled (lm_heap lm x)"
  "pl_conns (lm_heap (fold (stop_ref g) rs lm) x) = pl_conns (lm_heap lm x)"
  by (induction rs arbitrary: lm) auto

lemma stop_refs_closed:
  "lm_closed (fold (stop_ref g) rs lm) =
     lm_closed lm @ (if g then [] else concat (map (\<lambda>r. pl_conns (lm_heap lm r)) rs))"
proof (induction rs arbitrary: lm)
  case (Cons r rs)
  have "lm_closed (stop_ref g r lm) = lm_closed lm @ (if g then [] else pl_conns (lm_heap lm r))"
    by (simp add: stop_ref_def pl_stop_def)
  with Cons show ?case by simp
qed simp

lemma stop_refs_heap_other:
  "x \<notin> set rs \<Longrightarrow> lm_heap (fold (stop_ref g) rs lm) x = lm_heap lm x"
  by (induction rs arbitrary: lm) (auto simp: stop_ref_def split_beta)

text \<open>The account of the manager.\<close>

definition lm_wf :: "listeners \<Rightarrow> bool" where
  "lm_wf lm \<longleftrightarrow>
     distinct (keys (items lm)) \<and> distinct (map snd (items lm)) \<and>
     (\<forall>(p, r) \<in> set (items lm). r < lm_next lm \<and> pl_port (lm_heap lm r) = p \<and> \<not> pl_cancelled (lm_heap lm r)) \<and>
     (\<forall>r < lm_next lm. r \<notin> set (map snd (items lm)) \<longrightarrow> pl_cancelled (lm_heap lm r)) \<and>
     (\<forall>r. pl_inv (lm_heap lm r))"

lemma lm_wf_new: "lm_wf newListenerManager"
  by (simp add: lm_wf_def newListenerManager_def pl_inv_new)

lemma pl_inv_stop_ref: "\<forall>x. pl_inv (lm_heap lm x) \<Longrightarrow> pl_inv (lm_heap (stop_ref g r lm) x)"
  by (simp add: stop_ref_def split_beta pl_inv_stop)

lemma pl_inv_stop_refs: "\<forall>x. pl_inv (lm_heap lm x) \<Longrightarrow> \<forall>x. pl_inv (lm_heap (fold (stop_ref g) rs lm) x)"
  by (induction rs arbitrary: lm) (simp_all add: pl_inv_stop_ref)

text \<open>Taking some items out and stopping exactly them keeps the account.\<close>

lemma lm_wf_stop:
  assumes "lm_wf lm"
  shows "lm_wf (fold (stop_ref g) (map snd (filter (\<lambda>i. \<not> P i) (items lm))) (lm\<lparr>items := filter P (items lm)\<rparr>))"
proof -
  let ?out = "map snd (filter (\<lambda>i. \<not> P i) (items lm))"
  let ?lm = "fold (stop_ref g) ?out (lm\<lparr>items := filter P (items lm)\<rparr>)"
  have d: "distinct (keys (items lm))" "distinct (map snd (items lm))"
    using assms by (simp_all add: lm_wf_def)
  have sep: "r \<notin> set ?out" if "(p, r) \<in> set (items lm)" "P (p, r)" for p r
  proof
    assume "r \<in> set ?out"
    then obtain q where "(q, r) \<in> set (items lm)" "\<not> P (q, r)" by auto
    moreover have "inj_on snd (set (items lm))" using d(2) by (simp add: distinct_map)
    ultimately have "(q, r) = (p, r)" using that(1) inj_onD [of snd "set (items lm)" "(q, r)" "(p, r)"] by simp
    with that(2) \<open>\<not> P (q, r)\<close> show False by simp
  qed
  have "distinct (keys (items ?lm)) \<and> distinct (map snd (items ?lm))"
    using d by (simp add: distinct_map inj_on_subset [of _ "set (items lm)"])
  moreover have "r < lm_next ?lm \<and> pl_port (lm_heap ?lm r) = p \<and> \<not> pl_cancelled (lm_heap ?lm r)"
    if "(p, r) \<in> set (items ?lm)" for p r
    using that assms sep [of p r] by (auto simp: lm_wf_def)
  moreover have "pl_cancelled (lm_heap ?lm r)" if "r < lm_next ?lm" "r \<notin> set (map snd (items ?lm))" for r
  proof (cases "r \<in> set (map snd (items lm))")
    case True
    with that(2) have "r \<in> set ?out" by auto
    then show ?thesis by simp
  next
    case False
    with that(1) assms show ?thesis by (simp add: lm_wf_def)
  qed
  moreover have "\<forall>r. pl_inv (lm_heap ?lm r)"
    using assms by (intro pl_inv_stop_refs) (simp add: lm_wf_def)
  ultimately show ?thesis unfolding lm_wf_def by blast
qed

lemma StopNode_filter:
  "StopNode n g lm = fold (stop_ref g) (map snd (filter (\<lambda>i. \<not> (\<lambda>(p, r). pl_node (lm_heap lm r) \<noteq> n) i) (items lm)))
     (lm\<lparr>items := filter (\<lambda>(p, r). pl_node (lm_heap lm r) \<noteq> n) (items lm)\<rparr>)"
  by (simp add: StopNode_def owned_items_def case_prod_unfold)

lemma StopAll_filter:
  "StopAll g lm = fold (stop_ref g) (map snd (filter (\<lambda>i. \<not> (\<lambda>_. False) i) (items lm)))
     (lm\<lparr>items := filter (\<lambda>_. False) (items lm)\<rparr>)"
  by (simp add: StopAll_def)

lemma filter_key:
  "distinct (keys m) \<Longrightarrow> map_of m k = Some v \<Longrightarrow> filter (\<lambda>i. fst i = k) m = [(k, v)]"
  by (induction m) (force simp: filter_empty_conv split: if_splits)+

lemma StopPort_filter:
  assumes "distinct (keys (items lm))"
  shows "StopPort p g lm = fold (stop_ref g) (map snd (filter (\<lambda>i. \<not> fst i \<noteq> p) (items lm)))
     (lm\<lparr>items := filter (\<lambda>i. fst i \<noteq> p) (items lm)\<rparr>)"
proof (cases "map_of (items lm) p")
  case None
  then have "p \<notin> set (keys (items lm))" by (simp add: map_of_eq_None_iff)
  then have "filter (\<lambda>i. fst i = p) (items lm) = []" "filter (\<lambda>i. fst i \<noteq> p) (items lm) = items lm"
    by (auto simp: filter_empty_conv filter_id_conv)
  with None show ?thesis by (simp add: StopPort_def)
next
  case (Some r)
  moreover have "AList.delete p (items lm) = filter (\<lambda>i. fst i \<noteq> p) (items lm)"
    unfolding AList.delete_eq by (rule filter_cong) auto
  ultimately show ?thesis
    by (simp add: StopPort_def filter_key [OF assms Some])
qed

lemma lm_wf_StopNode: "lm_wf lm \<Longrightarrow> lm_wf (StopNode n g lm)"
  unfolding StopNode_filter by (rule lm_wf_stop)

lemma lm_wf_StopAll: "lm_wf lm \<Longrightarrow> lm_wf (StopAll g lm)"
  unfolding StopAll_filter by (rule lm_wf_stop)

lemma lm_wf_StopPort: "lm_wf lm \<Longrightarrow> lm_wf (StopPort p g lm)"
  by (subst StopPort_filter) (simp add: lm_wf_def, rule lm_wf_stop)

lemma lm_wf_install:
  assumes "lm_wf lm" "map_of (items lm) (ps_port spec) = None"
  shows "lm_wf (start_install spec lm)"
proof -
  have "ps_port spec \<notin> set (keys (items lm))" using assms(2) by (simp add: map_of_eq_None_iff)
  moreover have "lm_next lm \<notin> snd ` set (items lm)"
    using assms(1) by (force simp: lm_wf_def)
  ultimately show ?thesis
    using assms(1)
    by (auto simp: lm_wf_def start_install_def update_fresh pl_inv_new less_Suc_eq)
      (auto simp: new_listener_def)
qed

lemma map_of_StopPort: "map_of (items (StopPort p g lm)) q = (if q = p then None else map_of (items lm) q)"
  by (simp add: StopPort_def delete_conv' split: option.split)

lemma lm_wf_StartPort: "lm_wf lm \<Longrightarrow> lm_wf (StartPort spec online lm)"
  by (auto simp: StartPort_def start_lookup_def map_of_StopPort
      intro!: lm_wf_install lm_wf_StopPort split: option.split)

lemma lm_wf_StartNode: "lm_wf lm \<Longrightarrow> lm_wf (StartNode cfg n online lm)"
proof -
  have "lm_wf lm \<Longrightarrow> lm_wf (fold (\<lambda>spec. StartPort spec online) specs lm)" for specs
    by (induction specs arbitrary: lm) (simp_all add: lm_wf_StartPort)
  then show "lm_wf lm \<Longrightarrow> lm_wf (StartNode cfg n online lm)" by (simp add: StartNode_def)
qed

lemma lm_run_frame [server_simps, simp]:
  "items (lm_run r e lm) = items lm" "lm_next (lm_run r e lm) = lm_next lm"
  "pl_node (lm_heap (lm_run r e lm) x) = pl_node (lm_heap lm x)"
  "pl_port (lm_heap (lm_run r e lm) x) = pl_port (lm_heap lm x)"
  "pl_cancelled (lm_heap (lm_run r e lm) x) = pl_cancelled (lm_heap lm x)"
  by (simp_all add: lm_run_def)

lemma lm_wf_run: "lm_wf lm \<Longrightarrow> lm_wf (lm_run r e lm)"
  by (simp add: lm_wf_def) (simp add: lm_run_def pl_inv_run)

text \<open>The operations of the manager and the steps of its listeners, in any order.\<close>

datatype lm_op =
    DoStartPort PortSpec bool | DoStartNode config string bool | DoStopPort int bool
  | DoStopNode string bool | DoStopAll bool | DoRun plref run_event

fun lm_step :: "lm_op \<Rightarrow> listeners \<Rightarrow> listeners" where
  "lm_step (DoStartPort spec online) lm = StartPort spec online lm"
| "lm_step (DoStartNode cfg node online) lm = StartNode cfg node online lm"
| "lm_step (DoStopPort port graceful) lm = StopPort port graceful lm"
| "lm_step (DoStopNode node graceful) lm = StopNode node graceful lm"
| "lm_step (DoStopAll graceful) lm = StopAll graceful lm"
| "lm_step (DoRun r e) lm = lm_run r e lm"

interpretation manager: invariant_system lm_wf lm_step
proof
  show "lm_wf lm \<Longrightarrow> lm_wf (lm_step op lm)" for op lm
    by (cases op) (simp_all add: lm_wf_StartPort lm_wf_StartNode lm_wf_StopPort lm_wf_StopNode
        lm_wf_StopAll lm_wf_run)
qed

section \<open>What starting and stopping does\<close>

lemma map_of_filter_items:
  "distinct (keys m) \<Longrightarrow>
     map_of (filter (\<lambda>(k, v). P v) m) k = (case map_of m k of None \<Rightarrow> None | Some v \<Rightarrow> if P v then Some v else None)"
  using map_of_filter_key [of m "\<lambda>_ v. P v"] by simp

text \<open>The owner of the listener of a port.\<close>

definition holder_of :: "listeners \<Rightarrow> int \<Rightarrow> string option" where
  "holder_of lm p = map_option (\<lambda>r. pl_node (lm_heap lm r)) (map_of (items lm) p)"

lemma holder_StopNode:
  "lm_wf lm \<Longrightarrow> holder_of (StopNode n g lm) p = (if holder_of lm p = Some n then None else holder_of lm p)"
proof -
  assume wf: "lm_wf lm"
  then have "distinct (keys (items lm))" by (simp add: lm_wf_def)
  then have "map_of (items (StopNode n g lm)) p = (case map_of (items lm) p of None \<Rightarrow> None
      | Some r \<Rightarrow> if pl_node (lm_heap lm r) \<noteq> n then Some r else None)"
    using map_of_filter_items [of "items lm" "\<lambda>r. pl_node (lm_heap lm r) \<noteq> n" p] by (simp add: StopNode_def)
  then show ?thesis
    by (auto simp: holder_of_def split: option.split) (simp_all add: StopNode_def)
qed

lemma holder_StopPort: "holder_of (StopPort p g lm) q = (if q = p then None else holder_of lm q)"
proof -
  have "pl_node (lm_heap (StopPort p g lm) r) = pl_node (lm_heap lm r)" for r
    by (simp add: StopPort_def split: option.split)
  then show ?thesis by (simp add: holder_of_def map_of_StopPort)
qed

lemma holder_install:
  "lm_wf lm \<Longrightarrow>
     holder_of (start_install spec lm) q = (if q = ps_port spec then Some (ps_node spec) else holder_of lm q)"
proof -
  assume wf: "lm_wf lm"
  show ?thesis
  proof (cases "map_of (items lm) q")
    case (Some r)
    then have "(q, r) \<in> set (items lm)" by (rule map_of_SomeD)
    with wf have "r < lm_next lm" by (auto simp: lm_wf_def)
    with Some show ?thesis
      by (simp add: holder_of_def start_install_def update_conv' new_listener_def)
  qed (simp add: holder_of_def start_install_def update_conv' new_listener_def)
qed

lemma holder_StartPort:
  assumes "lm_wf lm"
  shows "holder_of (StartPort spec online lm) q =
    (if online \<and> q = ps_port spec then Some (ps_node spec) else holder_of lm q)"
proof (cases "map_of (items lm) (ps_port spec)")
  case None
  then show ?thesis
    by (auto simp: StartPort_def start_lookup_def holder_install assms)
next
  case (Some r)
  then show ?thesis
    using lm_wf_StopPort [OF assms]
    by (auto simp: StartPort_def start_lookup_def holder_install holder_StopPort)
      (auto simp: holder_of_def)
qed

lemma holder_StartNode:
  assumes "lm_wf lm" "ports_wf cfg"
  shows "holder_of (StartNode cfg node online lm) q =
    (if online \<and> owned_by cfg node q \<noteq> None then Some node else holder_of lm q)"
proof -
  have "holder_of (fold (\<lambda>spec. StartPort spec online) specs lm) q =
      (if online \<and> q \<in> ps_port ` set specs then Some node else holder_of lm q)"
    if "\<And>s. s \<in> set specs \<Longrightarrow> ps_node s = node" for specs
    using that assms(1)
    by (induction specs arbitrary: lm) (auto simp: holder_StartPort lm_wf_StartPort)
  moreover have "ps_node s = node" if "s \<in> set (PortsOf cfg node)" for s
    using that by (auto simp: PortsOf_map owned_by_Some)
  moreover have "q \<in> ps_port ` set (PortsOf cfg node) \<longleftrightarrow> owned_by cfg node q \<noteq> None"
  proof
    assume "q \<in> ps_port ` set (PortsOf cfg node)"
    then obtain s p where s: "q = ps_port s" "owned_by cfg node p = Some s" by (auto simp: PortsOf_map)
    then have "p = q" using ports_wf_lookup [OF assms(2)] by (auto simp: owned_by_Some port_ok_def)
    with s show "owned_by cfg node q \<noteq> None" by simp
  next
    assume "owned_by cfg node q \<noteq> None"
    then obtain s where s: "owned_by cfg node q = Some s" by auto
    then have "q \<in> set (cfg_port_order cfg)" "ps_port s = q"
      using ports_wf_order [OF assms(2)] ports_wf_lookup [OF assms(2)] by (auto simp: owned_by_Some port_ok_def)
    with s show "q \<in> ps_port ` set (PortsOf cfg node)" by (auto simp: PortsOf_map image_iff)
  qed
  ultimately show ?thesis unfolding StartNode_def by simp
qed

section \<open>Properties\<close>

definition spec_80 :: PortSpec where
  "spec_80 = \<lparr>ps_port = 80, ps_node = ''a'', ps_remote = ''h:1''\<rparr>"

text \<open>Who holds a port. Bringing a node online gives it a listener on exactly the ports it
  owns, taking a port from another node if it has to, and nothing happens while it is offline;
  stopping a node releases exactly its listeners; nothing else changes hands.\<close>

theorem start_stop_node:
  assumes "lm_wf lm" and "ports_wf cfg"
  shows "holder_of (StartNode cfg node online lm) p =
      (if online \<and> owned_by cfg node p \<noteq> None then Some node else holder_of lm p) \<and>
    holder_of (StopNode node g lm) p = (if holder_of lm p = Some node then None else holder_of lm p) \<and>
    holder_of (StopPort q g lm) p = (if p = q then None else holder_of lm p)"
  using assms by (simp add: holder_StartNode holder_StopNode holder_StopPort)

theorem start_stop_node_witness:
  "holder_of (StartNode sample_config ''a'' True newListenerManager) 80 = Some ''a'' \<and>
   holder_of (StartNode sample_config ''a'' True newListenerManager) 84 = None"
proof -
  have "ports_wf sample_config" using sample_config_wf by (simp add: config_wf_def)
  then show ?thesis
    using start_stop_node [OF lm_wf_new, of sample_config "''a''" True 80]
      start_stop_node [OF lm_wf_new, of sample_config "''a''" True 84]
    by (simp add: holder_of_def newListenerManager_def owned_by_def sample_config_def)
qed

text \<open>A stop closes the socket of a listener for good, graceful or not, unless it falls between
  the bind and the lock hold that publishes the socket: whatever the loop does afterwards, no
  socket is open. The connections are closed exactly when the stop is not graceful.\<close>

theorem stop_is_final:
  assumes "pl_inv pl" and "pl_pc pl \<noteq> RunBound"
  shows "pl_socket (fold run_step es (fst (pl_stop graceful pl))) = None \<and>
    snd (pl_stop graceful pl) = (if graceful then [] else pl_conns pl)"
proof -
  have "pl_socket (fst (pl_stop graceful pl)) = None \<and> pl_pc (fst (pl_stop graceful pl)) \<noteq> RunBound"
    using assms by (intro pl_stop_closes) (simp_all add: pl_inv_def)
  then show ?thesis using stopped_runs [of "fst (pl_stop graceful pl)" es] by (simp add: pl_stop_def)
qed

theorem stop_is_final_witness:
  "pl_socket (fold run_step [Accepted (Inl ''closed''), Bind None, Publish]
     (fst (pl_stop True (fold run_step [Bind None, Publish] (new_listener 80 ''a''))))) = None"
proof -
  have "pl_inv (fold run_step [Bind None, Publish] (new_listener 80 ''a''))"
    by (rule accept_loop.run_inv) (rule pl_inv_new)
  moreover have "pl_pc (fold run_step [Bind None, Publish] (new_listener 80 ''a'')) \<noteq> RunBound"
    by (simp add: run_step_def run_listen_def run_publish_def new_listener_def)
  ultimately show ?thesis by (rule stop_is_final [THEN conjunct1])
qed

text \<open>What a stop does to one of the listeners that it takes out of the map.\<close>

lemma stop_refs_heap_one:
  "distinct rs \<Longrightarrow> r \<in> set rs \<Longrightarrow> lm_heap (fold (stop_ref g) rs lm) r = fst (pl_stop g (lm_heap lm r))"
proof (induction rs arbitrary: lm)
  case (Cons x rs)
  have one: "lm_heap (stop_ref g x lm) y = (if y = x then fst (pl_stop g (lm_heap lm x)) else lm_heap lm y)" for y
    by (simp add: stop_ref_def split_beta)
  with Cons show ?case by (cases "x = r") (simp_all add: stop_refs_heap_other)
qed simp

lemma stop_victim:
  fixes g
  assumes wf: "lm_wf lm" and r: "(p, r) \<in> set (items lm)" "\<not> P (p, r)"
  defines "lm' \<equiv> fold (stop_ref g) (map snd (filter (\<lambda>i. \<not> P i) (items lm))) (lm\<lparr>items := filter P (items lm)\<rparr>)"
  shows "r \<notin> snd ` set (items lm') \<and> lm_heap lm' r = fst (pl_stop g (lm_heap lm r)) \<and> lm_next lm' = lm_next lm"
proof -
  have "distinct (map snd (items lm))" using wf by (simp add: lm_wf_def)
  then have inj: "inj_on snd (set (items lm))" by (simp add: distinct_map)
  have "r \<notin> snd ` set (filter P (items lm))"
  proof
    assume "r \<in> snd ` set (filter P (items lm))"
    then obtain q where q: "(q, r) \<in> set (items lm)" "P (q, r)" by auto
    then have "(q, r) = (p, r)" using inj_onD [OF inj, of "(q, r)" "(p, r)"] r(1) by simp
    with q r show False by simp
  qed
  moreover have "distinct (map snd (filter (\<lambda>i. \<not> P i) (items lm)))"
    using \<open>distinct (map snd (items lm))\<close> by (simp add: distinct_map_filter)
  moreover have "r \<in> set (map snd (filter (\<lambda>i. \<not> P i) (items lm)))" using r by force
  ultimately show ?thesis by (simp add: lm'_def stop_refs_heap_one del: set_map)
qed

lemma stop_ops_victim:
  assumes wf: "lm_wf lm" and r: "map_of (items lm) p = Some r"
    and stop: "stop \<in> {DoStopPort p g, DoStopNode (pl_node (lm_heap lm r)) g, DoStopAll g}"
  shows "r \<notin> snd ` set (items (lm_step stop lm)) \<and>
    lm_heap (lm_step stop lm) r = fst (pl_stop g (lm_heap lm r)) \<and> lm_next (lm_step stop lm) = lm_next lm"
proof -
  have r': "(p, r) \<in> set (items lm)" using r by (rule map_of_SomeD)
  have d: "distinct (keys (items lm))" using wf by (simp add: lm_wf_def)
  note v = stop_victim [OF wf r', where g = g]
  from stop show ?thesis
  proof (elim insertE emptyE)
    assume "stop = DoStopPort p g"
    then show ?thesis using v [of "\<lambda>i. fst i \<noteq> p"] by (simp add: StopPort_filter [OF d])
  next
    assume "stop = DoStopNode (pl_node (lm_heap lm r)) g"
    then show ?thesis
      using v [of "\<lambda>(q, x). pl_node (lm_heap lm x) \<noteq> pl_node (lm_heap lm r)"] by (simp add: StopNode_filter)
  next
    assume "stop = DoStopAll g"
    then show ?thesis using v [of "\<lambda>_. False"] by (simp add: StopAll_filter)
  qed
qed

text \<open>A listener that has left the map: no operation brings it back or touches it, but its own steps.\<close>

definition outside :: "plref \<Rightarrow> listeners \<Rightarrow> bool" where
  "outside r lm \<longleftrightarrow> r < lm_next lm \<and> r \<notin> snd ` set (items lm)"

lemma values_update: "snd ` set (AList.update k v m) \<subseteq> insert v (snd ` set m)"
  by (induction m) auto

lemma values_delete: "snd ` set (AList.delete k m) \<subseteq> snd ` set m"
  by (auto simp: AList.delete_eq)

lemma outside_StopPort: "outside r lm \<Longrightarrow> outside r (StopPort p g lm) \<and> lm_heap (StopPort p g lm) r = lm_heap lm r"
  using values_delete [of p "items lm"]
  by (auto simp: StopPort_def outside_def stop_ref_def split_beta image_iff dest!: map_of_SomeD split: option.split)

lemma outside_install:
  "outside r lm \<Longrightarrow> outside r (start_install spec lm) \<and> lm_heap (start_install spec lm) r = lm_heap lm r"
  using values_update [of "ps_port spec" "lm_next lm" "items lm"] by (auto simp: start_install_def outside_def)

lemma outside_StartPort:
  "outside r lm \<Longrightarrow> outside r (StartPort spec online lm) \<and> lm_heap (StartPort spec online lm) r = lm_heap lm r"
  using outside_install outside_StopPort
  by (auto simp: StartPort_def start_lookup_def split: option.split)

lemma outside_step:
  assumes "outside r lm"
  shows "outside r (lm_step op lm) \<and>
    lm_heap (lm_step op lm) r = (case op of DoRun x e \<Rightarrow> if x = r then run_step e (lm_heap lm r) else lm_heap lm r
      | _ \<Rightarrow> lm_heap lm r)"
proof (cases op)
  case (DoStartNode cfg node online)
  have "outside r (fold (\<lambda>spec. StartPort spec online) specs lm) \<and>
      lm_heap (fold (\<lambda>spec. StartPort spec online) specs lm) r = lm_heap lm r" for specs
    using assms by (induction specs arbitrary: lm) (auto simp: outside_StartPort)
  with DoStartNode show ?thesis by (simp add: StartNode_def)
next
  case (DoStopNode node g)
  have "r \<notin> set (map snd (owned_items node lm))" using assms by (auto simp: outside_def owned_items_def)
  then show ?thesis using DoStopNode assms by (auto simp: StopNode_def outside_def stop_refs_heap_other)
next
  case (DoStopAll g)
  then show ?thesis using assms by (auto simp: StopAll_def outside_def stop_refs_heap_other)
next
  case (DoRun x e)
  then show ?thesis using assms by (auto simp: outside_def lm_run_def)
qed (use assms outside_StartPort outside_StopPort in auto)

lemma escaped_steps:
  assumes "outside r lm" "escaped (lm_heap lm r)" "\<And>err. DoRun r (Accepted (Inl err)) \<notin> set ops"
  shows "outside r (fold lm_step ops lm) \<and> escaped (lm_heap (fold lm_step ops lm) r)"
  using assms
proof (induction ops arbitrary: lm)
  case (Cons op ops)
  have "escaped (lm_heap (lm_step op lm) r)"
  proof (cases "\<exists>e. op = DoRun r e")
    case True
    then obtain e where e: "op = DoRun r e" by blast
    then have "e \<noteq> Accepted (Inl err)" for err using Cons.prems(3) [of err] by auto
    from escaped_run [OF Cons.prems(2) this] e show ?thesis using outside_step [OF Cons.prems(1), of op] by simp
  next
    case False
    then have "lm_heap (lm_step op lm) r = lm_heap lm r"
      using outside_step [OF Cons.prems(1), of op] by (cases op) auto
    with Cons.prems(2) show ?thesis by simp
  qed
  then show ?case using Cons.IH [of "lm_step op lm"] outside_step [OF Cons.prems(1), of op] Cons.prems(3) by simp
qed simp

text \<open>C39: the window. Take any port whose listener has bound its socket and not yet published it. A stop
  that comes then, of the port, of its node or of all, graceful or not, takes the listener out of the
  map and misses the socket: the loop announces the port as listening and accepts on it although it
  was told to stop. Whatever is started and stopped afterwards, the listener stays outside the map
  and goes on accepting; only an error of its Accept ends that.\<close>

theorem stop_misses_bound_socket:
  assumes "lm_wf lm" and "map_of (items lm) p = Some r" and "pl_pc (lm_heap lm r) = RunBound"
    and "stop \<in> {DoStopPort p graceful, DoStopNode (pl_node (lm_heap lm r)) graceful, DoStopAll graceful}"
    and "\<And>err. DoRun r (Accepted (Inl err)) \<notin> set ops"
  defines "lm' \<equiv> fold lm_step ops (lm_run r Publish (lm_step stop lm))"
  shows "r \<notin> set (map snd (items lm')) \<and> pl_cancelled (lm_heap lm' r) \<and> pl_listening (lm_heap lm' r) \<and>
    pl_socket (lm_heap lm' r) \<noteq> None \<and> pl_pc (lm_heap lm' r) = RunAccept"
proof -
  note s = stop_ops_victim [OF assms(1,2,4)]
  have "r < lm_next lm" using assms(1) map_of_SomeD [OF assms(2)] by (auto simp: lm_wf_def)
  then have out: "outside r (lm_run r Publish (lm_step stop lm))" using s by (simp add: outside_def)
  have "sock_inv (lm_heap lm r)" using assms(1) by (simp add: lm_wf_def pl_inv_def)
  then have "escaped (lm_heap (lm_run r Publish (lm_step stop lm)) r)"
    using s assms(3) by (auto simp: lm_run_def run_step_def run_publish_def pl_stop_def escaped_def sock_inv_def)
  from escaped_steps [OF out this assms(5)] show ?thesis by (auto simp: lm'_def outside_def escaped_def)
qed

theorem stop_misses_bound_socket_witness:
  "pl_listening (lm_heap (fold lm_step [DoStartPort spec_80 True, DoRun 0 (Accepted (Inr 7)), DoStopAll False]
    (lm_run 0 Publish (StopNode ''a'' True (fold lm_step [DoStartPort spec_80 True, DoRun 0 (Bind None)] newListenerManager)))) 0)"
proof -
  let ?lm = "fold lm_step [DoStartPort spec_80 True, DoRun 0 (Bind None)] newListenerManager"
  have wf: "lm_wf ?lm" by (rule manager.run_inv) (rule lm_wf_new)
  have lm: "map_of (items ?lm) 80 = Some 0" "pl_pc (lm_heap ?lm 0) = RunBound" "pl_node (lm_heap ?lm 0) = ''a''"
    by (simp_all add: StartPort_def start_lookup_def start_install_def spec_80_def newListenerManager_def
        lm_run_def run_step_def run_listen_def new_listener_def)
  show ?thesis
    using stop_misses_bound_socket [OF wf lm(1,2), of "DoStopNode ''a'' True" True
        "[DoStartPort spec_80 True, DoRun 0 (Accepted (Inr 7)), DoStopAll False]"]
    by (simp only: lm) simp
qed

text \<open>A graceful stop is never completed. Once a node, or all nodes, have been stopped
  gracefully, the later non-graceful stop closes no connection at all: the listeners that hold
  them have left the map. Their connections outlive the drain.\<close>

theorem graceful_then_hard_stop_closes_nothing:
  assumes "lm_wf lm"
  shows "lm_closed (StopNode node False (StopNode node True lm)) = lm_closed lm \<and>
    lm_closed (StopAll False (StopAll True lm)) = lm_closed lm \<and>
    pl_conns (lm_heap (StopNode node False (StopNode node True lm)) r) = pl_conns (lm_heap lm r) \<and>
    pl_conns (lm_heap (StopAll False (StopAll True lm)) r) = pl_conns (lm_heap lm r)"
proof -
  have "owned_items node (StopNode node True lm) = []"
    by (auto simp: owned_items_def StopNode_def filter_empty_conv)
  moreover have "lm_closed (StopNode node True lm) = lm_closed lm"
    by (simp add: StopNode_def stop_refs_closed)
  moreover have "pl_conns (lm_heap (StopNode node g lm') r) = pl_conns (lm_heap lm' r)" for g lm'
    by (simp add: StopNode_def)
  ultimately show ?thesis
    by (simp add: StopNode_def [of node False] StopAll_def stop_refs_closed)
qed

theorem graceful_then_hard_stop_closes_nothing_witness:
  "lm_closed (StopNode ''a'' False (StopNode ''a'' True (fold lm_step
      [DoStartPort spec_80 True, DoRun 0 (Bind None), DoRun 0 Publish, DoRun 0 (Accepted (Inr 7))] newListenerManager))) = [] \<and>
   pl_conns (lm_heap (StopNode ''a'' False (StopNode ''a'' True (fold lm_step
      [DoStartPort spec_80 True, DoRun 0 (Bind None), DoRun 0 Publish, DoRun 0 (Accepted (Inr 7))] newListenerManager))) 0) = [7]"
proof -
  let ?lm = "fold lm_step [DoStartPort spec_80 True, DoRun 0 (Bind None), DoRun 0 Publish, DoRun 0 (Accepted (Inr 7))]
    newListenerManager"
  have "lm_wf ?lm" by (rule manager.run_inv) (rule lm_wf_new)
  moreover have "lm_closed ?lm = [] \<and> pl_conns (lm_heap ?lm 0) = [7]"
    by (simp add: StartPort_def start_lookup_def start_install_def spec_80_def newListenerManager_def
        lm_run_def run_step_def run_listen_def run_publish_def run_accept_def track_def new_listener_def)
  ultimately show ?thesis
    using graceful_then_hard_stop_closes_nothing [of ?lm "''a''" 0] by simp
qed

text \<open>The telemetry of a node's ports lists exactly the ports the configuration gives it, in
  document order; a port is reported as listening only if the node's own listener is, and a port
  without a listener of the node carries the error "node offline".\<close>

theorem snapshot_exact:
  assumes "lm_wf lm"
  shows "map pst_port (Snapshot node cfg reg lm) = map ps_port (PortsOf cfg node) \<and>
    list_all (\<lambda>st. (holder_of lm (pst_port st) \<noteq> Some node \<longrightarrow>
        \<not> pst_listening st \<and> pst_error st = Some ''node offline'') \<and>
      (pst_listening st \<longrightarrow> (case map_of (items lm) (pst_port st) of None \<Rightarrow> False
         | Some r \<Rightarrow> pl_listening (lm_heap lm r) \<and> pl_node (lm_heap lm r) = node)))
      (Snapshot node cfg reg lm)"
proof -
  have "map_of (owned_items node lm) p =
      (case map_of (items lm) p of None \<Rightarrow> None
       | Some r \<Rightarrow> if pl_node (lm_heap lm r) = node then Some r else None)" for p
    using assms unfolding owned_items_def by (intro map_of_filter_items) (simp add: lm_wf_def)
  then show ?thesis
    by (auto simp: Snapshot_def list_all_iff port_status_def Let_def holder_of_def split: option.split)
qed

theorem snapshot_exact_witness:
  "map pst_port (Snapshot ''a'' sample_config newRegistry newListenerManager) = map ps_port (PortsOf sample_config ''a'')"
  using snapshot_exact [OF lm_wf_new] by blast

end
