(* ===== verification/Open_Stream.thy ===== *)
theory Open_Stream
  imports Session_Pool
begin

text \<open>
  \<open>NodeSession.OpenStream\<close> (internal/server/registry.go) run by any number of goroutines at
  once. \<open>open_step\<close> is the body of \<open>OpenStream\<close> cut at its atomic actions (a hold of
  \<open>chMu\<close>, an atomic counter, the call into smux), \<open>req_pc\<close> the point a goroutine has
  reached; \<open>pool_step\<close> adds the other operations on the session and what smux, the clock and
  the map iteration order may do. A run is any list of events: every interleaving.
\<close>

datatype open_error = ErrNoChannel | ErrSaturated | ErrSessionClosed | ErrDraining | ErrContext

datatype req_pc =
    Arriving
  | Entered
  | Queued
  | Parked wref
  | Expired
  | Holding cref
  | Broken cref
  | Dropping cref
  | Opening cref
  | Counted cref
  | Streaming cref
  | Leaving open_error
  | Failed open_error
  | Finished

text \<open>The alternatives of the \<open>select\<close>, and the outcome of \<open>ch.sess.OpenStream\<close>.\<close>

datatype choice = Receive | Timer | SessDone | CtxDone | SmuxOk | SmuxError

definition after_abandon :: "cref option \<Rightarrow> req_pc \<Rightarrow> req_pc" where
  "after_abandon r pc = (case r of Some c \<Rightarrow> Holding c | None \<Rightarrow> pc)"

definition open_step ::
  "choice \<Rightarrow> req_pc \<Rightarrow> node_session \<Rightarrow> node_stats \<Rightarrow> req_pc \<times> node_session \<times> node_stats" where
  "open_step ch pc s st =
     (case pc of
        Arriving \<Rightarrow>
          if ns_draining s then (Failed ErrDraining, s, st)
          else (Entered, s\<lparr>ns_queue_depth := ns_queue_depth s + 1\<rparr>, st)
      | Entered \<Rightarrow> (Queued, s, observe_demand s st)
      | Queued \<Rightarrow>
          (case acquire s of
             (Inl c, s') \<Rightarrow> (Holding c, s', st)
           | (Inr w, s') \<Rightarrow> (Parked w, s', st))
      | Parked w \<Rightarrow>
          (case ch of
             Receive \<Rightarrow>
               (case take_ready w s of
                  (Some c, s') \<Rightarrow> (Holding c, s', st)
                | (None, _) \<Rightarrow> (pc, s, st))
           | Timer \<Rightarrow> (case abandon w s of (r, s') \<Rightarrow> (after_abandon r Expired, s', st))
           | SessDone \<Rightarrow>
               if ns_done s
               then (case abandon w s of (r, s') \<Rightarrow> (after_abandon r (Leaving ErrSessionClosed), s', st))
               else (pc, s, st)
           | CtxDone \<Rightarrow>
               (case abandon w s of (r, s') \<Rightarrow> (after_abandon r (Leaving ErrContext), s', st))
           | _ \<Rightarrow> (pc, s, st))
      | Expired \<Rightarrow>
          if OnlineChannels s = 0 then (Leaving ErrNoChannel, s, st)
          else (Leaving ErrSaturated, s, st\<lparr>Saturated := Saturated st + 1\<rparr>)
      | Holding c \<Rightarrow>
          if ch = SmuxOk \<and> \<not> ch_sess_closed (ns_chans s c) then (Opening c, s, st)
          else (Broken c, s, st)
      | Broken c \<Rightarrow> (Dropping c, release (Some c) s, st)
      | Dropping c \<Rightarrow> (Queued, RemoveChannel c s, st)
      | Opening c \<Rightarrow>
          (Counted c, s\<lparr>ns_queue_depth := ns_queue_depth s - 1\<rparr>, st\<lparr>Opened := Opened st + 1\<rparr>)
      | Counted c \<Rightarrow> (Streaming c, s, observe_demand s st)
      | Streaming c \<Rightarrow> (Finished, CloseStream (Some c) s, st)
      | Leaving e \<Rightarrow> (Failed e, s\<lparr>ns_queue_depth := ns_queue_depth s - 1\<rparr>, st)
      | Failed e \<Rightarrow> (pc, s, st)
      | Finished \<Rightarrow> (pc, s, st))"

record pool =
  p_sess :: node_session
  p_stats :: node_stats
  p_reqs :: "req_pc list"
  p_cfg_pending :: nat

datatype pool_event =
    Arrive
  | Run nat choice
  | ChannelUp
  | ChannelDown cref
  | SmuxDies cref
  | ConfigStore node_config duration
  | ConfigHandoff
  | CloseSession string
  | Drain bool
  | Reorder "(int \<times> cref) list"

definition pool_step :: "pool_event \<Rightarrow> pool \<Rightarrow> pool" where
  "pool_step e p =
     (let s = p_sess p in
      case e of
        Arrive \<Rightarrow> p\<lparr>p_reqs := p_reqs p @ [Arriving]\<rparr>
      | Run i ch \<Rightarrow>
          if i < length (p_reqs p)
          then (case open_step ch (p_reqs p ! i) s (p_stats p) of
                  (pc, s', st) \<Rightarrow> p\<lparr>p_sess := s', p_stats := st, p_reqs := (p_reqs p)[i := pc]\<rparr>)
          else p
      | ChannelUp \<Rightarrow>
          (case NextChannelID s of
             (i, s1) \<Rightarrow> (case new_channel i s1 of (c, s2) \<Rightarrow> p\<lparr>p_sess := AddChannel c s2\<rparr>))
      | ChannelDown c \<Rightarrow> p\<lparr>p_sess := RemoveChannel c s\<rparr>
      | SmuxDies c \<Rightarrow>
          p\<lparr>p_sess := s\<lparr>ns_chans := (ns_chans s)(c := (ns_chans s c)\<lparr>ch_sess_closed := True\<rparr>)\<rparr>\<rparr>
      | ConfigStore cfg qt \<Rightarrow>
          p\<lparr>p_sess := SetConfig_store cfg qt s, p_cfg_pending := Suc (p_cfg_pending p)\<rparr>
      | ConfigHandoff \<Rightarrow>
          if p_cfg_pending p = 0 then p
          else p\<lparr>p_sess := handoffLocked s, p_cfg_pending := p_cfg_pending p - 1\<rparr>
      | CloseSession reason \<Rightarrow> p\<lparr>p_sess := Session_Close reason s\<rparr>
      | Drain v \<Rightarrow> p\<lparr>p_sess := SetDraining v s\<rparr>
      | Reorder cs \<Rightarrow>
          if mset cs = mset (ns_channels s) then p\<lparr>p_sess := s\<lparr>ns_channels := cs\<rparr>\<rparr> else p)"

text \<open>A pool starts as a fresh session with no request on it; the node's statistics may carry
  anything from before.\<close>

definition pool_init :: "node_session \<Rightarrow> node_stats \<Rightarrow> pool" where
  "pool_init s st = \<lparr>p_sess = s, p_stats = st, p_reqs = [], p_cfg_pending = 0\<rparr>"

inductive reachable :: "pool \<Rightarrow> bool" where
  start: "reachable (pool_init (newNodeSession name sid cfg qt now) st)"
| step: "reachable p \<Longrightarrow> reachable (pool_step e p)"

lemma reachable_run: "reachable p \<Longrightarrow> reachable (fold pool_step es p)"
  by (induction es arbitrary: p) (auto intro: reachable.step)

section \<open>Who holds a slot, who is queued\<close>

fun held :: "node_session \<Rightarrow> cref \<Rightarrow> req_pc \<Rightarrow> bool" where
  "held s c (Parked w) = (w_ready (ns_slots s w) = Some c)"
| "held s c (Holding d) = (c = d)"
| "held s c (Broken d) = (c = d)"
| "held s c (Opening d) = (c = d)"
| "held s c (Counted d) = (c = d)"
| "held s c (Streaming d) = (c = d)"
| "held s c _ = False"

definition occupied :: "node_session \<Rightarrow> req_pc \<Rightarrow> bool" where
  "occupied s pc \<longleftrightarrow> (\<exists>c. held s c pc)"

fun queued :: "req_pc \<Rightarrow> bool" where
  "queued Arriving = False"
| "queued (Counted c) = False"
| "queued (Streaming c) = False"
| "queued (Failed e) = False"
| "queued Finished = False"
| "queued _ = True"

definition parked :: "wref \<Rightarrow> req_pc list \<Rightarrow> int" where
  "parked w reqs = count_if (\<lambda>pc. pc = Parked w) reqs"

lemma parked_update:
  "i < length reqs \<Longrightarrow>
     parked w (reqs[i := pc]) =
       parked w reqs - (if reqs ! i = Parked w then 1 else 0) + (if pc = Parked w then 1 else 0)"
  by (simp add: parked_def count_if_update)

lemma parked_snoc: "parked w (reqs @ [pc]) = parked w reqs + (if pc = Parked w then 1 else 0)"
  by (simp add: parked_def)

lemma parked_nonneg [simp]: "0 \<le> parked w reqs"
  by (simp add: parked_def)

lemma parked_mem: "0 < parked w reqs \<longleftrightarrow> Parked w \<in> set reqs"
  unfolding parked_def count_if_pos_iff by auto

text \<open>The slot account: every channel's counter is the number of requests that hold a slot on it,
  the session's counter the number that hold any; \<open>x\<close> is a slot in the hands of an operation.\<close>

definition slots_ok :: "cref option \<Rightarrow> node_session \<Rightarrow> req_pc list \<Rightarrow> bool" where
  "slots_ok x s reqs \<longleftrightarrow>
     (\<forall>c. ch_active (ns_chans s c) = count_if (held s c) reqs + (if x = Some c then 1 else 0)) \<and>
     ns_active_streams s = count_if (occupied s) reqs + (if x = None then 0 else 1)"

text \<open>The queue: the waiters in it are distinct, untouched, and each belongs to exactly one parked
  request; a parked request outside it has been handed a slot.\<close>

definition queue_ok :: "node_session \<Rightarrow> req_pc list \<Rightarrow> bool" where
  "queue_ok s reqs \<longleftrightarrow>
     distinct (ns_waiters s) \<and> \<not> ns_stuck s \<and>
     (\<forall>w \<in> set (ns_waiters s). ns_slots s w = zero_waiter \<and> parked w reqs = 1) \<and>
     (\<forall>w. parked w reqs \<le> 1) \<and>
     (\<forall>w. 0 < parked w reqs \<longrightarrow> w < ns_next_slot s \<and>
        (w \<in> set (ns_waiters s) \<or> w_handed (ns_slots s w) \<and> w_ready (ns_slots s w) \<noteq> None))"

definition chans_ok :: "node_session \<Rightarrow> bool" where
  "chans_ok s \<longleftrightarrow>
     (\<forall>c. ns_next_chan s \<le> c \<longrightarrow> ch_active (ns_chans s c) = 0) \<and>
     (\<forall>c \<in> snd ` set (ns_channels s). c < ns_next_chan s)"

definition no_room :: "node_session \<Rightarrow> bool" where
  "no_room s \<longleftrightarrow> (\<forall>c \<in> snd ` set (ns_channels s). \<not> eligible (ns_max_streams s) (ns_chans s) c)"

definition depth_ok :: "node_session \<Rightarrow> req_pc list \<Rightarrow> bool" where
  "depth_ok s reqs \<longleftrightarrow> ns_queue_depth s = count_if queued reqs"

definition pool_ok :: "pool \<Rightarrow> bool" where
  "pool_ok p \<longleftrightarrow>
     slots_ok None (p_sess p) (p_reqs p) \<and> queue_ok (p_sess p) (p_reqs p) \<and>
     chans_ok (p_sess p) \<and> depth_ok (p_sess p) (p_reqs p) \<and>
     (p_cfg_pending p = 0 \<longrightarrow> ns_waiters (p_sess p) = [] \<or> no_room (p_sess p))"

section \<open>Slots move, none is made or lost\<close>

lemma slots_cong:
  assumes "slots_ok x s reqs"
    and "\<And>c. ch_active (ns_chans s' c) = ch_active (ns_chans s c)"
    and "ns_active_streams s' = ns_active_streams s"
    and "\<And>pc c. pc \<in> set reqs \<Longrightarrow> held s' c pc = held s c pc"
  shows "slots_ok x s' reqs"
proof -
  have "count_if (held s' c) reqs = count_if (held s c) reqs" for c
    by (rule count_if_cong) (use assms(4) in simp)
  moreover have "count_if (occupied s') reqs = count_if (occupied s) reqs"
    by (rule count_if_cong) (use assms(4) in \<open>simp add: occupied_def\<close>)
  ultimately show ?thesis using assms(1-3) by (simp add: slots_ok_def)
qed

lemma slots_same:
  assumes "slots_ok x s reqs" "i < length reqs" "\<And>c. held s c pc = held s c (reqs ! i)"
  shows "slots_ok x s (reqs[i := pc])"
proof -
  have "occupied s pc = occupied s (reqs ! i)" using assms(3) by (simp add: occupied_def)
  then show ?thesis using assms by (simp add: slots_ok_def count_if_update)
qed

lemma slots_gain:
  assumes "slots_ok (Some c) s reqs" "i < length reqs"
    and "\<And>d. \<not> held s d (reqs ! i)" "\<And>d. held s d pc \<longleftrightarrow> d = c"
  shows "slots_ok None s (reqs[i := pc])"
proof -
  have "\<not> occupied s (reqs ! i)" "occupied s pc" using assms(3,4) by (auto simp: occupied_def)
  then show ?thesis using assms by (auto simp: slots_ok_def count_if_update)
qed

lemma slots_lose:
  assumes "slots_ok None s reqs" "i < length reqs"
    and "\<And>d. held s d (reqs ! i) \<longleftrightarrow> d = c" "\<And>d. \<not> held s d pc"
  shows "slots_ok (Some c) s (reqs[i := pc])"
proof -
  have "occupied s (reqs ! i)" "\<not> occupied s pc" using assms(3,4) by (auto simp: occupied_def)
  then show ?thesis using assms by (auto simp: slots_ok_def count_if_update)
qed

lemma slots_snoc: "slots_ok x s reqs \<Longrightarrow> (\<And>c. \<not> held s c pc) \<Longrightarrow> slots_ok x s (reqs @ [pc])"
  by (simp add: slots_ok_def occupied_def)

lemma slots_add_active:
  "slots_ok None s reqs \<Longrightarrow> slots_ok (Some c) (add_active c 1 s) reqs"
  "slots_ok (Some c) s reqs \<Longrightarrow> slots_ok None (add_active c (- 1) s) reqs"
proof -
  have "held (add_active c d s) = held s" for d
  proof (intro ext)
    show "held (add_active c d s) e pc = held s e pc" for e pc
      by (cases pc) (simp_all add: add_active_def)
  qed
  moreover from this have "occupied (add_active c d s) = occupied s" for d
    by (simp add: occupied_def fun_eq_iff)
  ultimately show "slots_ok None s reqs \<Longrightarrow> slots_ok (Some c) (add_active c 1 s) reqs"
    "slots_ok (Some c) s reqs \<Longrightarrow> slots_ok None (add_active c (- 1) s) reqs"
    by (auto simp: slots_ok_def) (auto simp: add_active_def)
qed

lemma count_if_extend:
  assumes "count_if (\<lambda>pc. pc = y) reqs = 1" "\<not> P y" "\<And>pc. pc \<noteq> y \<Longrightarrow> Q pc = P pc" "Q y = b"
  shows "count_if Q reqs = count_if P reqs + (if b then 1 else 0)"
proof -
  have "count_if Q xs = count_if P xs + (if b then count_if (\<lambda>pc. pc = y) xs else 0)" for xs
  proof (induction xs)
    case (Cons z zs)
    then show ?case using assms(2-4) by (cases "z = y") auto
  qed simp
  with assms(1) show ?thesis by simp
qed

text \<open>Handing a slot to the head of the queue.\<close>

lemma serve_head_slots:
  assumes "slots_ok (Some c) s reqs" "queue_ok s reqs" "ns_waiters s = w # ws"
  shows "slots_ok None (serve_head c s) reqs"
proof -
  let ?s = "serve_head c s"
  have w: "w_ready (ns_slots s w) = None" "parked w reqs = 1"
    using assms(2,3) by (auto simp: queue_ok_def zero_waiter_def)
  have h: "held ?s d (Parked w) \<longleftrightarrow> d = c" "\<not> held s d (Parked w)" for d
    using w(1) assms(3) by (auto simp: serve_head_def)
  have other: "held ?s d pc = held s d pc" if "pc \<noteq> Parked w" for d pc
    using that assms(3) by (cases pc) (auto simp: serve_head_def)
  have "count_if (held ?s d) reqs = count_if (held s d) reqs + (if d = c then 1 else 0)" for d
    by (rule count_if_extend [OF w(2) [unfolded parked_def]]) (use h other in auto)
  moreover have "count_if (occupied ?s) reqs = count_if (occupied s) reqs + (if True then 1 else 0)"
    by (rule count_if_extend [OF w(2) [unfolded parked_def]]) (use h other in \<open>auto simp: occupied_def\<close>)
  ultimately show ?thesis
    using assms(1,3) by (auto simp: slots_ok_def serve_head_def)
qed

lemma serve_head_queue:
  assumes "queue_ok s reqs" "ns_waiters s = w # ws"
  shows "queue_ok (serve_head c s) reqs"
  using assms by (auto simp: queue_ok_def serve_head_def zero_waiter_def)

lemma queue_ok_add_active [simp]: "queue_ok (add_active c d s) reqs = queue_ok s reqs"
  by (simp add: queue_ok_def add_active_def)

text \<open>The handoff loop keeps the account and the queue, serves the longest possible prefix of the
  queue in order, and touches nothing else.\<close>

definition same_setup :: "node_session \<Rightarrow> node_session \<Rightarrow> bool" where
  "same_setup s s' \<longleftrightarrow>
     ns_channels s' = ns_channels s \<and> ns_max_streams s' = ns_max_streams s \<and>
     ns_queue_depth s' = ns_queue_depth s \<and> ns_next_chan s' = ns_next_chan s \<and>
     ns_next_slot s' = ns_next_slot s \<and> ns_done s' = ns_done s \<and> ns_cfg s' = ns_cfg s \<and>
     ns_draining s' = ns_draining s \<and> ns_name s' = ns_name s \<and> ns_id s' = ns_id s \<and>
     ns_chan_seq s' = ns_chan_seq s \<and> ns_queue_timeout s' = ns_queue_timeout s"

lemma same_setup_refl [simp]: "same_setup s s"
  by (simp add: same_setup_def)

lemma same_setup_trans: "same_setup s t \<Longrightarrow> same_setup t u \<Longrightarrow> same_setup s u"
  by (simp add: same_setup_def)

lemma same_setup_add_active [simp]: "same_setup s (add_active c d s)"
  by (simp add: same_setup_def add_active_def)

lemma same_setup_serve [simp]: "same_setup s (serve_head c s)"
  by (simp add: same_setup_def serve_head_def split: list.split)

lemma handoff_cases:
  obtains (stop) "handoffLocked s = s" "ns_waiters s = [] \<or> no_room s"
    | (serve) c w ws where "ns_waiters s = w # ws" "reserveLocked s = (Some c, add_active c 1 s)"
      "c \<in> snd ` set (ns_channels s)" "eligible (ns_max_streams s) (ns_chans s) c"
      "handoffLocked s = handoffLocked (serve_head c (add_active c 1 s))"
proof (cases "ns_waiters s")
  case Nil
  then have "handoffLocked s = s" by (subst handoffLocked.simps) simp
  with Nil show thesis using stop by simp
next
  case (Cons w ws)
  obtain r s' where r: "reserveLocked s = (r, s')" by (metis surj_pair)
  show thesis
  proof (cases r)
    case None
    then have "handoffLocked s = s" using r by (subst handoffLocked.simps) simp
    then show thesis using stop r None reserveLocked_None [of s] by (simp add: no_room_def)
  next
    case (Some c)
    then have "handoffLocked s = handoffLocked (serve_head c s')"
      using r Cons by (subst handoffLocked.simps) simp
    then show thesis using serve Cons r Some reserveLocked_Some [of s c s'] by simp
  qed
qed

lemma handoff_induct [case_names stop serve]:
  assumes "\<And>s. handoffLocked s = s \<Longrightarrow> ns_waiters s = [] \<or> no_room s \<Longrightarrow> P s"
    and "\<And>s c w ws. ns_waiters s = w # ws \<Longrightarrow> c \<in> snd ` set (ns_channels s) \<Longrightarrow>
      eligible (ns_max_streams s) (ns_chans s) c \<Longrightarrow> reserveLocked s = (Some c, add_active c 1 s) \<Longrightarrow>
      handoffLocked s = handoffLocked (serve_head c (add_active c 1 s)) \<Longrightarrow>
      P (serve_head c (add_active c 1 s)) \<Longrightarrow> P s"
  shows "P s"
proof (induction "length (ns_waiters s)" arbitrary: s rule: less_induct)
  case less
  show ?case
  proof (cases rule: handoff_cases [of s])
    case stop
    then show ?thesis by (rule assms(1))
  next
    case (serve c w ws)
    have "length (ns_waiters (serve_head c (add_active c 1 s))) < length (ns_waiters s)"
      using serve(1) by (simp add: serve_head_def add_active_def)
    from assms(2) [OF serve(1,3,4,2,5) less [OF this]] show ?thesis .
  qed
qed

lemma handoff_setup: "same_setup s (handoffLocked s)"
proof (induction s rule: handoff_induct)
  case (stop s)
  then show ?case by simp
next
  case (serve s c w ws)
  have "same_setup s (serve_head c (add_active c 1 s))"
    by (rule same_setup_trans [OF same_setup_add_active same_setup_serve])
  then show ?case unfolding serve(5) by (rule same_setup_trans) (rule serve(6))
qed

lemma handoff_ok:
  "slots_ok None s reqs \<Longrightarrow> queue_ok s reqs \<Longrightarrow>
     slots_ok None (handoffLocked s) reqs \<and> queue_ok (handoffLocked s) reqs"
proof (induction s rule: handoff_induct)
  case (stop s)
  then show ?case by simp
next
  case (serve s c w ws)
  let ?s = "add_active c 1 s"
  have "slots_ok (Some c) ?s reqs" "queue_ok ?s reqs" "ns_waiters ?s = w # ws"
    using serve.prems serve(1) by (simp_all add: slots_add_active) (simp add: add_active_def)
  then have "slots_ok None (serve_head c ?s) reqs" "queue_ok (serve_head c ?s) reqs"
    using serve_head_slots serve_head_queue by blast+
  then show ?case unfolding serve(5) by (rule serve(6))
qed

lemma handoff_full: "ns_waiters (handoffLocked s) = [] \<or> no_room (handoffLocked s)"
  by (induction s rule: handoff_induct) auto

lemma handoff_chans: "chans_ok s \<Longrightarrow> chans_ok (handoffLocked s)"
proof (induction s rule: handoff_induct)
  case (stop s)
  then show ?case by simp
next
  case (serve s c w ws)
  have "c < ns_next_chan s" using serve.prems serve(2) by (auto simp: chans_ok_def)
  then have "chans_ok (serve_head c (add_active c 1 s))"
    using serve.prems serve(1) by (auto simp: chans_ok_def serve_head_def add_active_def)
  then show ?case unfolding serve(5) by (rule serve(6))
qed

lemma handoff_prefix:
  "\<exists>k. ns_waiters (handoffLocked s) = drop k (ns_waiters s) \<and>
     (\<forall>w. w \<notin> set (take k (ns_waiters s)) \<longrightarrow> ns_slots (handoffLocked s) w = ns_slots s w)"
proof (induction s rule: handoff_induct)
  case (stop s)
  then show ?case by (intro exI [of _ 0]) simp
next
  case (serve s c w ws)
  let ?s = "serve_head c (add_active c 1 s)"
  have s: "ns_waiters ?s = ws" "\<And>v. v \<noteq> w \<Longrightarrow> ns_slots ?s v = ns_slots s v"
    using serve(1) by (simp_all add: serve_head_def add_active_def)
  obtain k where "ns_waiters (handoffLocked ?s) = drop k ws"
      "\<forall>v. v \<notin> set (take k ws) \<longrightarrow> ns_slots (handoffLocked ?s) v = ns_slots ?s v"
    using serve(6) s(1) by auto
  then show ?case using serve(1,5) s by (intro exI [of _ "Suc k"]) auto
qed

section \<open>Every operation keeps the account and the queue\<close>

definition core_ok :: "node_session \<Rightarrow> req_pc list \<Rightarrow> bool" where
  "core_ok s reqs \<longleftrightarrow> slots_ok None s reqs \<and> queue_ok s reqs \<and> chans_ok s"

definition settled :: "node_session \<Rightarrow> bool" where
  "settled s \<longleftrightarrow> ns_waiters s = [] \<or> no_room s"

lemma handoff_core: "core_ok s reqs \<Longrightarrow> core_ok (handoffLocked s) reqs"
  by (simp add: core_ok_def handoff_ok handoff_chans)

lemma handoff_settled [simp]: "settled (handoffLocked s)"
  using handoff_full by (simp add: settled_def)

text \<open>What a request that is not parked does to the queue's account: nothing.\<close>

lemma queue_same:
  assumes "queue_ok s reqs" "i < length reqs" "\<And>w. reqs ! i \<noteq> Parked w" "\<And>w. pc \<noteq> Parked w"
  shows "queue_ok s (reqs[i := pc])"
proof -
  have "parked w (reqs[i := pc]) = parked w reqs" for w
    using assms(2-4) by (simp add: parked_update)
  with assms(1) show ?thesis by (simp add: queue_ok_def)
qed

lemma queue_cong:
  "queue_ok s reqs \<Longrightarrow> ns_waiters s' = ns_waiters s \<Longrightarrow> ns_stuck s' = ns_stuck s \<Longrightarrow>
     ns_slots s' = ns_slots s \<Longrightarrow> ns_next_slot s' = ns_next_slot s \<Longrightarrow> queue_ok s' reqs"
  by (simp add: queue_ok_def)

lemma held_cong: "ns_slots s' = ns_slots s \<Longrightarrow> held s' c pc = held s c pc"
  by (cases pc) simp_all

lemma core_cong:
  assumes "core_ok s reqs" "ns_waiters s' = ns_waiters s" "ns_stuck s' = ns_stuck s"
    "ns_slots s' = ns_slots s" "ns_next_slot s' = ns_next_slot s"
    "ns_active_streams s' = ns_active_streams s"
    "\<And>c. ch_active (ns_chans s' c) = ch_active (ns_chans s c)"
    "ns_next_chan s' = ns_next_chan s" "snd ` set (ns_channels s') \<subseteq> snd ` set (ns_channels s)"
  shows "core_ok s' reqs"
  using assms slots_cong [of None s reqs s'] queue_cong [of s reqs s'] held_cong [of s' s]
  by (fastforce simp: core_ok_def chans_ok_def)

lemma settled_mono:
  assumes "settled s" "ns_waiters s = [] \<Longrightarrow> ns_waiters s' = []"
    "snd ` set (ns_channels s') \<subseteq> snd ` set (ns_channels s)"
    "\<And>c. eligible (ns_max_streams s') (ns_chans s') c \<Longrightarrow> eligible (ns_max_streams s) (ns_chans s) c"
  shows "settled s'"
  using assms unfolding settled_def no_room_def by blast

lemma idle_request_core:
  assumes "core_ok s reqs" "i < length reqs" "\<And>w. reqs ! i \<noteq> Parked w" "\<And>w. pc \<noteq> Parked w"
    "\<And>c. held s c pc = held s c (reqs ! i)"
  shows "core_ok s (reqs[i := pc])"
  using assms by (simp add: core_ok_def queue_same slots_same)

lemma parked_not_Parked: "\<forall>w. x \<noteq> Parked w \<Longrightarrow> \<not> x = Parked w"
  by simp

lemma acquire_direct:
  assumes "core_ok s reqs" "i < length reqs" "reqs ! i = Queued" "acquire s = (Inl c, s')"
  shows "core_ok s' (reqs[i := Holding c])" "ns_waiters s = []" "settled s'"
    "s' = add_active c 1 s"
    "c \<in> snd ` set (ns_channels s)" "eligible (ns_max_streams s) (ns_chans s) c"
proof -
  from assms(4) have w: "ns_waiters s = []" and r: "reserveLocked s = (Some c, s')"
    by (auto simp: acquire_def park_def split: if_splits prod.splits option.splits)
  note r' = reserveLocked_Some [OF r]
  show "s' = add_active c 1 s" "c \<in> snd ` set (ns_channels s)"
    "eligible (ns_max_streams s) (ns_chans s) c" "ns_waiters s = []"
    using r' w by simp_all
  show "settled s'" using w r' by (simp add: settled_def add_active_def)
  have "slots_ok None s' (reqs[i := Holding c])"
    using assms r' by (intro slots_gain) (auto simp: core_ok_def slots_add_active)
  moreover have "queue_ok s' (reqs[i := Holding c])"
    using assms r' by (intro queue_same) (simp_all add: core_ok_def)
  moreover have "chans_ok s'"
    using assms(1) r' by (auto simp: core_ok_def chans_ok_def add_active_def)
  ultimately show "core_ok s' (reqs[i := Holding c])" by (simp add: core_ok_def)
qed

lemma park_core:
  assumes "core_ok s reqs" "i < length reqs" "reqs ! i = Queued" "park s = (w, s')"
  shows "core_ok s' (reqs[i := Parked w])"
proof -
  have q: "queue_ok s reqs" using assms(1) by (simp add: core_ok_def)
  have w: "w = ns_next_slot s" using assms(4) by (simp add: park_def)
  have "\<not> 0 < parked w reqs" using q w by (auto simp: queue_ok_def)
  then have fresh: "parked w reqs = 0" using parked_nonneg [of w reqs] by linarith
  have old: "v < w" if "v \<in> set (ns_waiters s)" for v
    using q w that by (simp add: queue_ok_def)
  have no_parked: "pc \<noteq> Parked w" if "pc \<in> set reqs" for pc
    using fresh that parked_mem [of w reqs] by auto
  have "s' = snd (park s)" using assms(4) by simp
  then have s': "ns_slots s' = (ns_slots s)(w := zero_waiter)" "ns_next_slot s' = Suc w"
      "ns_waiters s' = ns_waiters s @ [w]" "ns_stuck s' = ns_stuck s" "ns_chans s' = ns_chans s"
      "ns_active_streams s' = ns_active_streams s" "ns_next_chan s' = ns_next_chan s"
      "ns_channels s' = ns_channels s"
    by (simp_all add: park_def w)
  have "held s' c pc = held s c pc" if "pc \<in> set reqs" for c pc
    using no_parked [OF that] s'(1) by (cases pc) simp_all
  then have "slots_ok None s' reqs"
    using assms(1) s' slots_cong [of None s reqs s'] by (simp add: core_ok_def)
  then have "slots_ok None s' (reqs[i := Parked w])"
    using assms(2,3) s'(1) by (intro slots_same) (simp_all add: zero_waiter_def)
  have "parked v (reqs[i := Parked w]) = (if v = w then 1 else parked v reqs)" for v
    using assms(2,3) fresh by (simp add: parked_update)
  moreover have "w \<notin> set (ns_waiters s)" using old by blast
  ultimately have "queue_ok s' (reqs[i := Parked w])"
    using q s' w by (auto simp: queue_ok_def less_Suc_eq)
  moreover have "chans_ok s'" using assms(1) s' by (simp add: core_ok_def chans_ok_def)
  moreover note \<open>slots_ok None s' (reqs[i := Parked w])\<close>
  ultimately show ?thesis by (simp add: core_ok_def)
qed

lemma acquire_parked:
  assumes "acquire s = (Inr w, s')"
  shows "park s = (w, s')" "ns_waiters s = [] \<Longrightarrow> no_room s"
  using assms reserveLocked_None [of s]
  by (auto simp: acquire_def no_room_def split: if_splits prod.splits option.splits)

lemma park_settled: "ns_waiters s = [] \<longrightarrow> no_room s \<Longrightarrow> settled s \<Longrightarrow> park s = (w, s') \<Longrightarrow> settled s'"
  by (fastforce simp: settled_def no_room_def park_def)

lemma parked_request:
  assumes "core_ok s reqs" "i < length reqs" "reqs ! i = Parked w"
  shows "parked w reqs = 1" "parked w (reqs[i := pc]) = (if pc = Parked w then 1 else 0)"
    "w < ns_next_slot s"
    "w \<in> set (ns_waiters s) \<or> w_handed (ns_slots s w) \<and> w_ready (ns_slots s w) \<noteq> None"
proof -
  have "Parked w \<in> set reqs" using assms(2,3) by (metis nth_mem)
  then have "0 < parked w reqs" using parked_mem by simp
  then show p: "parked w reqs = 1" and "w < ns_next_slot s"
    "w \<in> set (ns_waiters s) \<or> w_handed (ns_slots s w) \<and> w_ready (ns_slots s w) \<noteq> None"
    using assms(1) by (auto simp: core_ok_def queue_ok_def intro: order_antisym)
  show "parked w (reqs[i := pc]) = (if pc = Parked w then 1 else 0)"
    using p assms(2,3) by (simp add: parked_update)
qed

text \<open>A handed slot is picked up, by the \<open>select\<close> or by a late \<open>abandon\<close>.\<close>

lemma take_ready_core:
  assumes "core_ok s reqs" "i < length reqs" "reqs ! i = Parked w" "take_ready w s = (Some c, s')"
  shows "core_ok s' (reqs[i := Holding c])" "ns_waiters s' = ns_waiters s"
    "ns_channels s' = ns_channels s" "ns_chans s' = ns_chans s" "ns_max_streams s' = ns_max_streams s"
    "ns_queue_depth s' = ns_queue_depth s"
proof -
  note p = parked_request [OF assms(1-3)]
  have r: "w_ready (ns_slots s w) = Some c" and "s' = snd (take_ready w s)"
    using assms(4) by (auto simp: take_ready_def)
  then have s': "ns_slots s' = (ns_slots s)(w := (ns_slots s w)\<lparr>w_ready := None\<rparr>)"
      "ns_waiters s' = ns_waiters s" "ns_channels s' = ns_channels s" "ns_chans s' = ns_chans s"
      "ns_max_streams s' = ns_max_streams s" "ns_stuck s' = ns_stuck s"
      "ns_next_slot s' = ns_next_slot s" "ns_active_streams s' = ns_active_streams s"
      "ns_next_chan s' = ns_next_chan s" "ns_queue_depth s' = ns_queue_depth s"
    by (simp_all add: take_ready_def)
  then show "ns_waiters s' = ns_waiters s" "ns_channels s' = ns_channels s"
    "ns_chans s' = ns_chans s" "ns_max_streams s' = ns_max_streams s"
    "ns_queue_depth s' = ns_queue_depth s" by simp_all
  let ?reqs = "reqs[i := Holding c]"
  have "slots_ok None s ?reqs"
    using assms(1-3) r by (intro slots_same) (auto simp: core_ok_def)
  moreover have "pc \<noteq> Parked w" if "pc \<in> set ?reqs" for pc
    using that p(2) [of "Holding c"] parked_mem [of w ?reqs] by auto
  then have "held s' d pc = held s d pc" if "pc \<in> set ?reqs" for d pc
    using that s'(1) by (cases pc) auto
  ultimately have "slots_ok None s' ?reqs"
    using s' slots_cong [of None s ?reqs s'] by simp
  moreover have "w \<notin> set (ns_waiters s)"
    using assms(1) r by (auto simp: core_ok_def queue_ok_def zero_waiter_def)
  then have "queue_ok s' ?reqs"
    using assms(1-3) p(2) [of "Holding c"] s'
    by (auto simp: core_ok_def queue_ok_def parked_update split: if_splits)
  moreover have "chans_ok s'" using assms(1) s' by (simp add: core_ok_def chans_ok_def)
  ultimately show "core_ok s' ?reqs" by (simp add: core_ok_def)
qed

lemma abandon_core:
  assumes "core_ok s reqs" "i < length reqs" "reqs ! i = Parked w" "abandon w s = (r, s')"
    and "\<And>d. \<not> held s' d pc" "\<And>v. pc \<noteq> Parked v"
  shows "core_ok s' (reqs[i := after_abandon r pc])"
    "ns_channels s' = ns_channels s" "ns_chans s' = ns_chans s" "ns_max_streams s' = ns_max_streams s"
    "ns_queue_depth s' = ns_queue_depth s" "ns_waiters s' = remove1 w (ns_waiters s)"
proof -
  note p = parked_request [OF assms(1-3)]
  have "core_ok s' (reqs[i := after_abandon r pc]) \<and>
    ns_channels s' = ns_channels s \<and> ns_chans s' = ns_chans s \<and> ns_max_streams s' = ns_max_streams s \<and>
    ns_queue_depth s' = ns_queue_depth s \<and> ns_waiters s' = remove1 w (ns_waiters s)"
  proof (cases "w_handed (ns_slots s w)")
    case True
    then have "w \<notin> set (ns_waiters s)"
      using assms(1) by (auto simp: core_ok_def queue_ok_def zero_waiter_def)
    moreover from this p(4) obtain c where "w_ready (ns_slots s w) = Some c" by auto
    then have "take_ready w s = (Some c, s')" "r = Some c"
      using assms(4) True by (auto simp: abandon_def take_ready_def)
    ultimately show ?thesis
      using take_ready_core [OF assms(1-3)] by (simp add: after_abandon_def remove1_idem)
  next
    case False
    with p(4) have w: "w \<in> set (ns_waiters s)" by simp
    have r: "r = None" and "s' = snd (abandon w s)" using assms(4) False by (auto simp: abandon_def)
    then have s': "ns_slots s' = ns_slots s" "ns_waiters s' = remove1 w (ns_waiters s)"
      "ns_channels s' = ns_channels s" "ns_chans s' = ns_chans s"
      "ns_max_streams s' = ns_max_streams s" "ns_stuck s' = ns_stuck s"
      "ns_next_slot s' = ns_next_slot s" "ns_active_streams s' = ns_active_streams s"
      "ns_next_chan s' = ns_next_chan s" "ns_queue_depth s' = ns_queue_depth s"
      using False by (simp_all add: abandon_def)
    let ?reqs = "reqs[i := pc]"
    have held: "held s' = held s" using held_cong [OF s'(1)] by (simp add: fun_eq_iff)
    have "w_ready (ns_slots s w) = None"
      using assms(1) w by (auto simp: core_ok_def queue_ok_def zero_waiter_def)
    then have "slots_ok None s ?reqs"
      using assms(1-3,5) held by (intro slots_same) (auto simp: core_ok_def)
    then have "slots_ok None s' ?reqs" using s' held slots_cong [of None s ?reqs s'] by simp
    moreover have "queue_ok s' ?reqs"
      using assms(1-3) p(1) s' assms(6) [of w]
      by (auto simp: core_ok_def queue_ok_def parked_update assms(6) split: if_splits)
    moreover have "chans_ok s'" using assms(1) s' by (simp add: core_ok_def chans_ok_def)
    ultimately show ?thesis using r s' by (simp add: core_ok_def after_abandon_def)
  qed
  then show "core_ok s' (reqs[i := after_abandon r pc])"
    "ns_channels s' = ns_channels s" "ns_chans s' = ns_chans s" "ns_max_streams s' = ns_max_streams s"
    "ns_queue_depth s' = ns_queue_depth s" "ns_waiters s' = remove1 w (ns_waiters s)" by simp_all
qed

lemma release_core:
  assumes "core_ok s reqs" "i < length reqs" "\<And>d. held s d (reqs ! i) \<longleftrightarrow> d = c"
    "\<And>w. reqs ! i \<noteq> Parked w" "\<And>d. \<not> held s d pc" "\<And>w. pc \<noteq> Parked w"
  shows "core_ok (release (Some c) s) (reqs[i := pc])"
proof -
  have "slots_ok (Some c) s (reqs[i := pc])" "queue_ok s (reqs[i := pc])"
    using assms by (auto simp: core_ok_def intro: slots_lose queue_same)
  moreover have "c < ns_next_chan s"
  proof -
    have "0 < count_if (held s c) reqs"
      unfolding count_if_pos_iff using assms(2,3) by (auto intro!: bexI [of _ "reqs ! i"])
    moreover have "ch_active (ns_chans s c) = count_if (held s c) reqs"
      using assms(1) by (simp add: core_ok_def slots_ok_def)
    moreover have "ns_next_chan s \<le> c \<Longrightarrow> ch_active (ns_chans s c) = 0"
      using assms(1) by (simp add: core_ok_def chans_ok_def)
    ultimately show ?thesis by (metis less_irrefl linorder_not_less)
  qed
  then have "chans_ok (add_active c (-1) s)"
    using assms(1) by (auto simp: core_ok_def chans_ok_def add_active_def)
  ultimately have "core_ok (add_active c (-1) s) (reqs[i := pc])"
    by (simp add: core_ok_def slots_add_active)
  then show ?thesis by (simp add: release_def handoff_core)
qed

text \<open>Operations on the channels: the account does not move.\<close>

lemma DataChannel_Close_frame [simp]:
  "ns_waiters (DataChannel_Close c s) = ns_waiters s"
  "ns_stuck (DataChannel_Close c s) = ns_stuck s"
  "ns_slots (DataChannel_Close c s) = ns_slots s"
  "ns_next_slot (DataChannel_Close c s) = ns_next_slot s"
  "ns_active_streams (DataChannel_Close c s) = ns_active_streams s"
  "ch_active (ns_chans (DataChannel_Close c s) d) = ch_active (ns_chans s d)"
  "ch_id (ns_chans (DataChannel_Close c s) d) = ch_id (ns_chans s d)"
  "ns_next_chan (DataChannel_Close c s) = ns_next_chan s"
  "ns_channels (DataChannel_Close c s) = ns_channels s"
  "ns_max_streams (DataChannel_Close c s) = ns_max_streams s"
  "ns_queue_depth (DataChannel_Close c s) = ns_queue_depth s"
  "ns_done (DataChannel_Close c s) = ns_done s"
  "ns_reason (DataChannel_Close c s) = ns_reason s"
  "ns_draining (DataChannel_Close c s) = ns_draining s"
  by (simp_all add: DataChannel_Close_def)

lemma DataChannel_Close_closed:
  "ch_closed (ns_chans (DataChannel_Close c s) d) \<longleftrightarrow> d = c \<or> ch_closed (ns_chans s d)"
  by (simp add: DataChannel_Close_def)

lemma DataChannel_Close_eligible:
  "eligible l (ns_chans (DataChannel_Close c s)) d \<Longrightarrow> eligible l (ns_chans s) d"
  by (auto simp: DataChannel_Close_def eligible_def split: if_splits)

lemma close_all_frame [simp]:
  "ns_waiters (fold DataChannel_Close cs s) = ns_waiters s"
  "ns_stuck (fold DataChannel_Close cs s) = ns_stuck s"
  "ns_slots (fold DataChannel_Close cs s) = ns_slots s"
  "ns_next_slot (fold DataChannel_Close cs s) = ns_next_slot s"
  "ns_active_streams (fold DataChannel_Close cs s) = ns_active_streams s"
  "ch_active (ns_chans (fold DataChannel_Close cs s) d) = ch_active (ns_chans s d)"
  "ns_next_chan (fold DataChannel_Close cs s) = ns_next_chan s"
  "ns_channels (fold DataChannel_Close cs s) = ns_channels s"
  "ns_max_streams (fold DataChannel_Close cs s) = ns_max_streams s"
  "ns_queue_depth (fold DataChannel_Close cs s) = ns_queue_depth s"
  "ns_done (fold DataChannel_Close cs s) = ns_done s"
  "ns_reason (fold DataChannel_Close cs s) = ns_reason s"
  by (induction cs arbitrary: s) simp_all

lemma close_all_closed:
  "ch_closed (ns_chans (fold DataChannel_Close cs s) d) \<longleftrightarrow> d \<in> set cs \<or> ch_closed (ns_chans s d)"
  by (induction cs arbitrary: s) (auto simp: DataChannel_Close_closed)

lemma delete_subset: "snd ` set (AList.delete k m) \<subseteq> snd ` set m"
  by (auto simp: AList.delete_eq)

lemma RemoveChannel_core: "core_ok s reqs \<Longrightarrow> core_ok (RemoveChannel c s) reqs"
  unfolding RemoveChannel_def by (rule core_cong [of s]) (auto simp: AList.delete_eq)

lemma RemoveChannel_settled: "settled s \<Longrightarrow> settled (RemoveChannel c s)"
  unfolding RemoveChannel_def
  by (rule settled_mono [of s]) (auto simp: AList.delete_eq dest!: DataChannel_Close_eligible split: if_splits)

lemma Session_Close_core: "core_ok s reqs \<Longrightarrow> core_ok (Session_Close r s) reqs"
  unfolding Session_Close_def by (simp, intro impI, rule core_cong [of s]) auto

lemma Session_Close_settled: "settled s \<Longrightarrow> settled (Session_Close r s)"
  by (auto simp: Session_Close_def settled_def no_room_def)

lemma AddChannel_core:
  assumes "core_ok s reqs" "new_channel i s = (c, s')"
  shows "core_ok (AddChannel c s') reqs"
proof -
  have c: "c = ns_next_chan s" and s': "s' = snd (new_channel i s)"
    using assms(2) by (auto simp: new_channel_def)
  let ?t = "s'\<lparr>ns_channels := AList.update (ch_id (ns_chans s' c)) c (ns_channels s')\<rparr>"
  have t: "ns_waiters ?t = ns_waiters s" "ns_stuck ?t = ns_stuck s" "ns_slots ?t = ns_slots s"
    "ns_next_slot ?t = ns_next_slot s" "ns_active_streams ?t = ns_active_streams s"
    "ns_next_chan ?t = Suc (ns_next_chan s)"
    by (simp_all add: s' new_channel_def)
  have active: "ch_active (ns_chans ?t d) = ch_active (ns_chans s d)" for d
    using assms(1) by (simp add: s' c new_channel_def zero_channel_def core_ok_def chans_ok_def)
  have sub: "snd ` set (ns_channels ?t) \<subseteq> insert c (snd ` set (ns_channels s))"
    by (auto simp: s' new_channel_def dest!: update_values [THEN subsetD, OF imageI])
  have "slots_ok None ?t reqs"
    using assms(1) t active held_cong [of ?t s] slots_cong [of None s reqs ?t] by (simp add: core_ok_def)
  moreover have "queue_ok ?t reqs"
    using assms(1) t queue_cong [of s reqs ?t] by (simp add: core_ok_def)
  moreover have "chans_ok ?t"
    using assms(1) t active sub c by (fastforce simp: core_ok_def chans_ok_def)
  ultimately have "core_ok ?t reqs" by (simp add: core_ok_def)
  then show ?thesis unfolding AddChannel_def by (rule handoff_core)
qed

section \<open>Every step keeps the invariant\<close>

lemma depth_update:
  assumes "depth_ok s reqs" "i < length reqs"
    "ns_queue_depth s' = ns_queue_depth s - (if queued (reqs ! i) then 1 else 0) + (if queued pc then 1 else 0)"
  shows "depth_ok s' (reqs[i := pc])"
  using assms by (simp add: depth_ok_def count_if_update)

lemma handoff_depth [simp]: "ns_queue_depth (handoffLocked s) = ns_queue_depth s"
  using handoff_setup [of s] by (simp add: same_setup_def)

lemma release_depth [simp]: "ns_queue_depth (release c s) = ns_queue_depth s"
  by (simp add: release_def add_active_def split: option.split)

lemma acquire_depth: "acquire s = (r, s') \<Longrightarrow> ns_queue_depth s' = ns_queue_depth s"
  by (auto simp: acquire_def reserveLocked_def park_def add_active_def
      split: if_splits option.splits prod.splits)

lemma RemoveChannel_depth [simp]: "ns_queue_depth (RemoveChannel c s) = ns_queue_depth s"
  by (simp add: RemoveChannel_def)

lemma release_settled [simp]: "settled (release (Some c) s)"
  by (simp add: release_def)

text \<open>What a step of one request must establish.\<close>

definition req_step_ok :: "node_session \<Rightarrow> req_pc list \<Rightarrow> nat \<Rightarrow> node_session \<Rightarrow> req_pc \<Rightarrow> bool" where
  "req_step_ok s reqs i s' pc \<longleftrightarrow>
     core_ok s' (reqs[i := pc]) \<and> (settled s \<longrightarrow> settled s') \<and>
     ns_queue_depth s' = ns_queue_depth s - (if queued (reqs ! i) then 1 else 0) + (if queued pc then 1 else 0)"

lemma queue_depth_core [simp]: "core_ok (s\<lparr>ns_queue_depth := d\<rparr>) reqs = core_ok s reqs"
  using core_cong [of s reqs "s\<lparr>ns_queue_depth := d\<rparr>"] core_cong [of "s\<lparr>ns_queue_depth := d\<rparr>" reqs s]
  by auto

lemma queue_depth_settled [simp]: "settled (s\<lparr>ns_queue_depth := d\<rparr>) = settled s"
  by (simp add: settled_def no_room_def)

lemma step_idle:
  assumes "core_ok s reqs" "i < length reqs" "\<And>w. reqs ! i \<noteq> Parked w" "\<And>w. pc \<noteq> Parked w"
    "\<And>c. held s c pc = held s c (reqs ! i)"
    "d = ns_queue_depth s - (if queued (reqs ! i) then 1 else 0) + (if queued pc then 1 else 0)"
  shows "req_step_ok s reqs i (s\<lparr>ns_queue_depth := d\<rparr>) pc"
  using idle_request_core [OF assms(1-5)] assms(6) by (simp add: req_step_ok_def)

lemma step_idle_same:
  assumes "core_ok s reqs" "i < length reqs" "\<And>w. reqs ! i \<noteq> Parked w" "\<And>w. pc \<noteq> Parked w"
    "\<And>c. held s c pc = held s c (reqs ! i)" "queued pc = queued (reqs ! i)"
  shows "req_step_ok s reqs i s pc"
  using step_idle [OF assms(1-5), of "ns_queue_depth s"] assms(6) by simp

lemma step_stay:
  assumes "core_ok s reqs"
  shows "req_step_ok s reqs i s (reqs ! i)"
  using assms by (cases "i < length reqs") (simp_all add: req_step_ok_def)

lemma step_acquire:
  assumes "core_ok s reqs" "i < length reqs" "reqs ! i = Queued" "acquire s = (r, s')"
  shows "req_step_ok s reqs i s' (case r of Inl c \<Rightarrow> Holding c | Inr w \<Rightarrow> Parked w)"
proof (cases r)
  case (Inl c)
  with acquire_direct [OF assms(1-3)] acquire_depth [OF assms(4)] assms show ?thesis
    by (simp add: req_step_ok_def)
next
  case (Inr w)
  then have p: "park s = (w, s')" "ns_waiters s = [] \<longrightarrow> no_room s"
    using acquire_parked [of s w s'] assms(4) by auto
  with park_core [OF assms(1-3) p(1)] park_settled [OF p(2) _ p(1)] acquire_depth [OF assms(4)] Inr assms(3)
  show ?thesis by (simp add: req_step_ok_def)
qed

lemma step_take_ready:
  assumes "core_ok s reqs" "i < length reqs" "reqs ! i = Parked w" "take_ready w s = (Some c, s')"
  shows "req_step_ok s reqs i s' (Holding c)"
  using take_ready_core [OF assms] assms(3)
  by (auto simp: req_step_ok_def settled_def no_room_def)

lemma step_abandon:
  assumes "core_ok s reqs" "i < length reqs" "reqs ! i = Parked w" "abandon w s = (r, s')"
    and "\<And>d. \<not> held s' d pc" "\<And>v. pc \<noteq> Parked v" "queued pc"
  shows "req_step_ok s reqs i s' (after_abandon r pc)"
  using abandon_core [OF assms(1-6)] assms(3,7)
  by (auto simp: req_step_ok_def settled_def no_room_def after_abandon_def split: option.splits)

lemma step_release:
  assumes "core_ok s reqs" "i < length reqs" "\<And>d. held s d (reqs ! i) \<longleftrightarrow> d = c"
    "\<And>w. reqs ! i \<noteq> Parked w" "\<And>d. \<not> held s d pc" "\<And>w. pc \<noteq> Parked w"
    "queued pc = queued (reqs ! i)"
  shows "req_step_ok s reqs i (release (Some c) s) pc"
  using release_core [OF assms(1-6)] assms(7) by (simp add: req_step_ok_def)

lemma step_remove:
  assumes "core_ok s reqs" "i < length reqs" "reqs ! i = Dropping c"
  shows "req_step_ok s reqs i (RemoveChannel c s) Queued"
proof -
  have "core_ok s (reqs[i := Queued])"
    using assms by (intro idle_request_core) auto
  then show ?thesis
    using assms(3) by (simp add: req_step_ok_def RemoveChannel_core RemoveChannel_settled)
qed

lemma open_step_ok:
  assumes "core_ok s reqs" "i < length reqs" "open_step ch (reqs ! i) s st = (pc, s', st')"
  shows "req_step_ok s reqs i s' pc"
proof (cases "reqs ! i")
  case (Parked w)
  note ab = step_abandon [OF assms(1,2) Parked]
  show ?thesis
  proof (cases ch)
    case Receive
    with assms(3) Parked step_take_ready [OF assms(1,2) Parked] step_stay [OF assms(1), of i] show ?thesis
      by (auto simp: open_step_def split: option.splits prod.splits)
  next
    case Timer
    with assms(3) Parked ab [of _ _ Expired] show ?thesis
      by (auto simp: open_step_def split: prod.splits)
  next
    case SessDone
    with assms(3) Parked ab [of _ _ "Leaving ErrSessionClosed"] step_stay [OF assms(1), of i] show ?thesis
      by (auto simp: open_step_def split: prod.splits if_splits)
  next
    case CtxDone
    with assms(3) Parked ab [of _ _ "Leaving ErrContext"] show ?thesis
      by (auto simp: open_step_def split: prod.splits)
  qed (use assms(3) Parked step_stay [OF assms(1), of i] in \<open>auto simp: open_step_def\<close>)
next
  case Queued
  with assms(3) step_acquire [OF assms(1,2) Queued] show ?thesis
    by (auto simp: open_step_def split: prod.splits sum.splits)
next
  case (Broken c)
  with assms(3) step_release [OF assms(1,2), of c "Dropping c"] show ?thesis
    by (auto simp: open_step_def)
next
  case (Streaming c)
  with assms(3) step_release [OF assms(1,2), of c Finished] show ?thesis
    by (auto simp: open_step_def CloseStream_def)
next
  case (Dropping c)
  with assms(3) step_remove [OF assms(1,2) Dropping] show ?thesis
    by (auto simp: open_step_def)
next
  case Arriving
  with assms(3) step_idle [OF assms(1,2), of Entered] step_idle_same [OF assms(1,2), of "Failed ErrDraining"]
  show ?thesis
    by (auto simp: open_step_def split: if_splits)
next
  case (Opening c)
  with assms(3) step_idle [OF assms(1,2), of "Counted c"] show ?thesis
    by (auto simp: open_step_def)
next
  case (Leaving e)
  with assms(3) step_idle [OF assms(1,2), of "Failed e"] show ?thesis
    by (auto simp: open_step_def)
next
  case (Holding c)
  with assms(3) step_idle_same [OF assms(1,2)] show ?thesis
    by (auto simp: open_step_def split: if_splits)
next
  case Expired
  with assms(3) step_idle_same [OF assms(1,2)] show ?thesis
    by (auto simp: open_step_def split: if_splits)
next
  case Entered
  with assms(3) step_idle_same [OF assms(1,2), of Queued] show ?thesis
    by (auto simp: open_step_def)
next
  case (Counted c)
  with assms(3) step_idle_same [OF assms(1,2), of "Streaming c"] show ?thesis
    by (auto simp: open_step_def)
qed (use assms(3) step_stay [OF assms(1), of i] in \<open>auto simp: open_step_def\<close>)

lemma pool_ok_alt:
  "pool_ok p \<longleftrightarrow> core_ok (p_sess p) (p_reqs p) \<and> depth_ok (p_sess p) (p_reqs p) \<and>
     (p_cfg_pending p = 0 \<longrightarrow> settled (p_sess p))"
  by (auto simp: pool_ok_def core_ok_def settled_def)

text \<open>One equation per event.\<close>

lemma pool_step_events [pool_simps]:
  "pool_step Arrive p = p\<lparr>p_reqs := p_reqs p @ [Arriving]\<rparr>"
  "pool_step (ChannelDown c) p = p\<lparr>p_sess := RemoveChannel c (p_sess p)\<rparr>"
  "pool_step (SmuxDies c) p =
     p\<lparr>p_sess := (p_sess p)\<lparr>ns_chans := (ns_chans (p_sess p))
         (c := (ns_chans (p_sess p) c)\<lparr>ch_sess_closed := True\<rparr>)\<rparr>\<rparr>"
  "pool_step (ConfigStore cfg qt) p =
     p\<lparr>p_sess := SetConfig_store cfg qt (p_sess p), p_cfg_pending := Suc (p_cfg_pending p)\<rparr>"
  "pool_step ConfigHandoff p =
     (if p_cfg_pending p = 0 then p
      else p\<lparr>p_sess := handoffLocked (p_sess p), p_cfg_pending := p_cfg_pending p - 1\<rparr>)"
  "pool_step (CloseSession reason) p = p\<lparr>p_sess := Session_Close reason (p_sess p)\<rparr>"
  "pool_step (Drain v) p = p\<lparr>p_sess := SetDraining v (p_sess p)\<rparr>"
  "pool_step (Reorder cs) p =
     (if mset cs = mset (ns_channels (p_sess p))
      then p\<lparr>p_sess := (p_sess p)\<lparr>ns_channels := cs\<rparr>\<rparr> else p)"
  by (simp_all add: pool_step_def Let_def)

lemma pool_step_ChannelUp:
  assumes "new_channel (ns_chan_seq (p_sess p) + 1)
      ((p_sess p)\<lparr>ns_chan_seq := ns_chan_seq (p_sess p) + 1\<rparr>) = (c, s')"
  shows "pool_step ChannelUp p = p\<lparr>p_sess := AddChannel c s'\<rparr>"
  using assms by (simp add: pool_step_def Let_def NextChannelID_def)

lemma pool_step_Run:
  assumes "i < length (p_reqs p)"
    "open_step ch (p_reqs p ! i) (p_sess p) (p_stats p) = (pc, s', st)"
  shows "pool_step (Run i ch) p = p\<lparr>p_sess := s', p_stats := st, p_reqs := (p_reqs p)[i := pc]\<rparr>"
  using assms by (simp add: pool_step_def Let_def)

lemma pool_step_Run_none: "\<not> i < length (p_reqs p) \<Longrightarrow> pool_step (Run i ch) p = p"
  by (simp add: pool_step_def Let_def)

lemma run_step_ok:
  assumes "pool_ok p"
  shows "pool_ok (pool_step (Run i ch) p)"
proof (cases "i < length (p_reqs p)")
  case True
  obtain pc s' st where o: "open_step ch (p_reqs p ! i) (p_sess p) (p_stats p) = (pc, s', st)"
    by (metis prod_cases3)
  have "req_step_ok (p_sess p) (p_reqs p) i s' pc"
    using open_step_ok [OF _ True o] assms by (simp add: pool_ok_alt)
  with assms True o show ?thesis
    by (auto simp: pool_ok_alt pool_step_Run [OF True o] req_step_ok_def intro: depth_update)
next
  case False
  with assms show ?thesis by (simp add: pool_step_Run_none)
qed

lemma arrive_ok: "pool_ok p \<Longrightarrow> pool_ok (pool_step Arrive p)"
  by (simp add: pool_ok_alt pool_simps core_ok_def slots_snoc queue_ok_def parked_snoc
      depth_ok_def)

lemma channel_up_ok:
  assumes "pool_ok p"
  shows "pool_ok (pool_step ChannelUp p)"
proof -
  let ?s = "p_sess p"
  let ?s1 = "?s\<lparr>ns_chan_seq := ns_chan_seq ?s + 1\<rparr>"
  obtain c s2 where n: "new_channel (ns_chan_seq ?s + 1) ?s1 = (c, s2)" by (metis surj_pair)
  then have "s2 = snd (new_channel (ns_chan_seq ?s + 1) ?s1)" by simp
  then have d: "ns_queue_depth (AddChannel c s2) = ns_queue_depth ?s"
    by (simp add: AddChannel_def new_channel_def)
  have "core_ok ?s (p_reqs p)" using assms by (simp add: pool_ok_alt)
  then have "core_ok ?s1 (p_reqs p)" by (rule core_cong) simp_all
  from AddChannel_core [OF this n] have "core_ok (AddChannel c s2) (p_reqs p)" .
  with assms d n show ?thesis
    by (simp add: pool_ok_alt pool_step_ChannelUp [OF n] depth_ok_def AddChannel_def)
qed

lemma session_event_ok:
  assumes "pool_ok p" "\<And>i ch. e \<noteq> Run i ch" "e \<noteq> Arrive" "e \<noteq> ChannelUp"
  shows "pool_ok (pool_step e p)"
proof -
  let ?s = "p_sess p"
  have ok: "core_ok ?s (p_reqs p)" "depth_ok ?s (p_reqs p)" "p_cfg_pending p = 0 \<longrightarrow> settled ?s"
    using assms(1) by (simp_all add: pool_ok_alt)
  show ?thesis
  proof (cases e)
    case (ChannelDown c)
    with ok show ?thesis
      by (simp add: pool_ok_alt pool_simps depth_ok_def RemoveChannel_core RemoveChannel_settled)
  next
    case (SmuxDies c)
    let ?t = "?s\<lparr>ns_chans := (ns_chans ?s)(c := (ns_chans ?s c)\<lparr>ch_sess_closed := True\<rparr>)\<rparr>"
    have "core_ok ?t (p_reqs p)" using ok(1) by (rule core_cong) simp_all
    moreover have "settled ?t" if "settled ?s"
      using that by (rule settled_mono) (auto simp: eligible_def split: if_splits)
    ultimately show ?thesis
      using ok SmuxDies by (simp add: pool_ok_alt pool_simps depth_ok_def)
  next
    case (ConfigStore cfg qt)
    have "core_ok (SetConfig_store cfg qt ?s) (p_reqs p)"
      using ok(1) by (rule core_cong) (simp_all add: SetConfig_store_def)
    with ok ConfigStore show ?thesis
      by (simp add: pool_ok_alt pool_simps depth_ok_def SetConfig_store_def)
  next
    case ConfigHandoff
    with ok show ?thesis
      by (simp add: pool_ok_alt pool_simps depth_ok_def handoff_core)
  next
    case (CloseSession r)
    with ok show ?thesis
      by (simp add: pool_ok_alt pool_simps depth_ok_def Session_Close_core Session_Close_settled)
        (simp add: Session_Close_def)
  next
    case (Drain v)
    have "core_ok (SetDraining v ?s) (p_reqs p)"
      using ok(1) by (rule core_cong) (simp_all add: SetDraining_def)
    with ok Drain show ?thesis
      by (simp add: pool_ok_alt pool_simps depth_ok_def SetDraining_def settled_def no_room_def)
  next
    case (Reorder cs)
    show ?thesis
    proof (cases "mset cs = mset (ns_channels ?s)")
      case True
      then have *: "set cs = set (ns_channels ?s)" by (metis set_mset_mset)
      have "core_ok (?s\<lparr>ns_channels := cs\<rparr>) (p_reqs p)"
        using ok(1) by (rule core_cong) (simp_all add: *)
      with ok Reorder True * show ?thesis
        by (simp add: pool_ok_alt pool_simps depth_ok_def settled_def no_room_def)
    qed (use assms(1) Reorder in \<open>simp add: pool_simps\<close>)
  qed (use assms in auto)
qed

lemma pool_step_ok: "pool_ok p \<Longrightarrow> pool_ok (pool_step e p)"
  by (cases e) (auto intro: run_step_ok arrive_ok channel_up_ok session_event_ok)

interpretation pool_sys: invariant_system pool_ok pool_step
  by unfold_locales (rule pool_step_ok)

lemma pool_ok_init: "pool_ok (pool_init (newNodeSession name sid cfg qt now) st)"
  by (simp add: pool_ok_def pool_init_def newNodeSession_def slots_ok_def queue_ok_def chans_ok_def
      depth_ok_def zero_channel_def parked_def)

lemma reachable_ok: "reachable p \<Longrightarrow> pool_ok p"
  by (induction rule: reachable.induct) (auto intro: pool_ok_init pool_step_ok)

section \<open>First in, first out\<close>

text \<open>How one step may change the queue: a prefix is served, one waiter leaves, one joins at the
  tail. Nobody outside the served prefix is marked as handed.\<close>

definition queue_move :: "node_session \<Rightarrow> node_session \<Rightarrow> bool" where
  "queue_move s s' \<longleftrightarrow>
     ns_next_slot s \<le> ns_next_slot s' \<and>
     ((\<exists>k. ns_waiters s' = drop k (ns_waiters s) \<and>
         (\<forall>w. w \<notin> set (take k (ns_waiters s)) \<longrightarrow>
            w_handed (ns_slots s' w) = w_handed (ns_slots s w))) \<or>
      (\<exists>v. ns_waiters s' = remove1 v (ns_waiters s) \<and>
         (\<forall>w. w_handed (ns_slots s' w) = w_handed (ns_slots s w))) \<or>
      (ns_waiters s' = ns_waiters s @ [ns_next_slot s] \<and>
         (\<forall>w. w \<noteq> ns_next_slot s \<longrightarrow> w_handed (ns_slots s' w) = w_handed (ns_slots s w))))"

lemma queue_move_same:
  "ns_waiters s' = ns_waiters s \<Longrightarrow> ns_next_slot s' = ns_next_slot s \<Longrightarrow>
     (\<And>w. w_handed (ns_slots s' w) = w_handed (ns_slots s w)) \<Longrightarrow> queue_move s s'"
  by (auto simp: queue_move_def intro: exI [of _ 0])

lemma queue_move_handoff:
  assumes "ns_waiters t = ns_waiters s" "ns_next_slot t = ns_next_slot s" "ns_slots t = ns_slots s"
  shows "queue_move s (handoffLocked t)"
  using handoff_prefix [of t] handoff_setup [of t] assms by (auto simp: queue_move_def same_setup_def)

lemma queue_move_release: "queue_move s (release c s)"
  by (cases c) (simp_all add: release_def queue_move_same queue_move_handoff add_active_def)

lemma queue_move_acquire: "acquire s = (r, s') \<Longrightarrow> queue_move s s'"
  by (auto simp: acquire_def reserveLocked_def park_def queue_move_def add_active_def zero_waiter_def
      intro: exI [of _ 0] split: if_splits option.splits prod.splits)

lemma queue_move_take_ready: "take_ready w s = (r, s') \<Longrightarrow> queue_move s s'"
  by (rule queue_move_same) (auto simp: take_ready_def split: if_splits)

lemma queue_move_abandon: "abandon w s = (r, s') \<Longrightarrow> queue_move s s'"
  by (auto simp: abandon_def queue_move_take_ready split: if_splits) (auto simp: queue_move_def)

lemma open_step_queue: "open_step ch pc s st = (pc', s', st') \<Longrightarrow> queue_move s s'"
  by (auto simp: open_step_def CloseStream_def RemoveChannel_def queue_move_release
      intro: queue_move_same queue_move_acquire queue_move_take_ready queue_move_abandon
      split: req_pc.splits choice.splits if_splits option.splits prod.splits sum.splits)

lemma pool_step_queue: "queue_move (p_sess p) (p_sess (pool_step e p))"
proof (cases e)
  case (Run i ch)
  show ?thesis
  proof (cases "i < length (p_reqs p)")
    case True
    obtain pc s' st where o: "open_step ch (p_reqs p ! i) (p_sess p) (p_stats p) = (pc, s', st)"
      by (metis prod_cases3)
    with Run open_step_queue [OF o] show ?thesis by (simp add: pool_step_Run [OF True o])
  qed (use Run in \<open>simp add: pool_step_Run_none queue_move_same\<close>)
next
  case ChannelUp
  obtain c s2 where n: "new_channel (ns_chan_seq (p_sess p) + 1)
      ((p_sess p)\<lparr>ns_chan_seq := ns_chan_seq (p_sess p) + 1\<rparr>) = (c, s2)" by (metis surj_pair)
  with ChannelUp show ?thesis
    by (auto simp: pool_step_ChannelUp [OF n] AddChannel_def new_channel_def intro!: queue_move_handoff)
next
  case ConfigHandoff
  then show ?thesis by (simp add: pool_simps queue_move_same queue_move_handoff)
qed (auto simp: pool_simps RemoveChannel_def Session_Close_def SetConfig_store_def SetDraining_def
      intro!: queue_move_same)

text \<open>\<open>u\<close> stands before \<open>v\<close> in the queue.\<close>

definition before :: "'a \<Rightarrow> 'a \<Rightarrow> 'a list \<Rightarrow> bool" where
  "before u v xs \<longleftrightarrow> (\<exists>as bs cs. xs = as @ u # bs @ v # cs)"

lemma before_drop: "before u v xs \<Longrightarrow> before u v (drop k xs) \<or> u \<in> set (take k xs)"
proof (induction xs arbitrary: k)
  case Nil
  then show ?case by (simp add: before_def)
next
  case (Cons x xs)
  show ?case
  proof (cases k)
    case 0
    with Cons.prems show ?thesis by simp
  next
    case (Suc j)
    from Cons.prems have "x = u \<or> before u v xs"
      by (auto simp: before_def Cons_eq_append_conv)
    with Cons.IH [of j] Suc show ?thesis by auto
  qed
qed

lemma before_remove1:
  assumes "before u v xs" "distinct xs" "w \<noteq> u" "w \<noteq> v"
  shows "before u v (remove1 w xs)"
proof -
  obtain as bs cs where xs: "xs = as @ u # bs @ v # cs" using assms(1) by (auto simp: before_def)
  have "\<exists>as' bs' cs'. remove1 w (as @ u # bs @ v # cs) = as' @ u # bs' @ v # cs'"
    using assms(3,4) by (auto simp: remove1_append)
  with xs show ?thesis by (auto simp: before_def)
qed

lemma before_append: "before u v xs \<Longrightarrow> before u v (xs @ ys)"
  unfolding before_def by (metis append.assoc append_Cons)

lemma before_mem: "before u v xs \<Longrightarrow> u \<in> set xs \<and> v \<in> set xs"
  by (auto simp: before_def)

definition in_order :: "wref \<Rightarrow> wref \<Rightarrow> node_session \<Rightarrow> bool" where
  "in_order u v s \<longleftrightarrow>
     u < ns_next_slot s \<and> v < ns_next_slot s \<and>
     (before u v (ns_waiters s) \<or> u \<notin> set (ns_waiters s) \<or>
      v \<notin> set (ns_waiters s) \<and> \<not> w_handed (ns_slots s v))"

lemma in_order_move:
  assumes "queue_ok s reqs" "queue_move s s'" "in_order u v s"
  shows "in_order u v s'"
proof -
  let ?ws = "ns_waiters s"
  have d: "distinct ?ws" and fresh: "x \<in> set ?ws \<Longrightarrow> \<not> w_handed (ns_slots s x)" for x
    using assms(1) by (auto simp: queue_ok_def zero_waiter_def)
  have uv: "u < ns_next_slot s" "v < ns_next_slot s" using assms(3) by (simp_all add: in_order_def)
  have n: "ns_next_slot s \<le> ns_next_slot s'" using assms(2) by (simp add: queue_move_def)
  from assms(2) consider
    k where "ns_waiters s' = drop k ?ws"
      "\<forall>w. w \<notin> set (take k ?ws) \<longrightarrow> w_handed (ns_slots s' w) = w_handed (ns_slots s w)"
    | w where "ns_waiters s' = remove1 w ?ws"
      "\<forall>w. w_handed (ns_slots s' w) = w_handed (ns_slots s w)"
    | "ns_waiters s' = ?ws @ [ns_next_slot s]"
      "\<forall>w. w \<noteq> ns_next_slot s \<longrightarrow> w_handed (ns_slots s' w) = w_handed (ns_slots s w)"
    unfolding queue_move_def by blast
  then show ?thesis
  proof cases
    case (1 k)
    have "set (take k ?ws) \<inter> set (drop k ?ws) = {}" using d by (rule set_take_disj_set_drop_if_distinct) simp
    moreover have "set (drop k ?ws) \<subseteq> set ?ws" "set (take k ?ws) \<subseteq> set ?ws"
      by (rule set_drop_subset, rule set_take_subset)
    ultimately show ?thesis
      using assms(3) 1 uv n before_drop [of u v ?ws k] unfolding in_order_def by auto
  next
    case (2 w)
    have "set (remove1 w ?ws) = set ?ws - {w}" using d by (simp add: set_remove1_eq)
    then show ?thesis
      using assms(3) 2 uv n before_remove1 [of u v ?ws w] before_mem [of u v ?ws] fresh d
      unfolding in_order_def by auto
  next
    case 3
    then show ?thesis
      using assms(3) uv n before_append [of u v ?ws] unfolding in_order_def by auto
  qed
qed

lemma in_order_run:
  assumes "reachable p" "in_order u v (p_sess p)"
  shows "in_order u v (p_sess (fold pool_step es p))"
  using assms
proof (induction es arbitrary: p)
  case Nil
  then show ?case by simp
next
  case (Cons e es)
  have "queue_ok (p_sess p) (p_reqs p)" using reachable_ok [OF Cons.prems(1)] by (simp add: pool_ok_def)
  from in_order_move [OF this pool_step_queue Cons.prems(2)]
  show ?case using Cons.IH reachable.step [OF Cons.prems(1)] by simp
qed

section \<open>No channel above the limit\<close>

lemma handoff_bound:
  "ch_active (ns_chans (handoffLocked s) c) \<le> max (ch_active (ns_chans s c)) (ns_max_streams s)"
proof (induction s rule: handoff_induct)
  case (stop s)
  then show ?case by simp
next
  case (serve s d w ws)
  have "ns_max_streams (serve_head d (add_active d 1 s)) = ns_max_streams s"
    "ch_active (ns_chans (serve_head d (add_active d 1 s)) c) \<le>
      max (ch_active (ns_chans s c)) (ns_max_streams s)"
    using serve(1,3) by (auto simp: serve_head_def add_active_def eligible_def)
  with serve(6) show ?case unfolding serve(5) by simp
qed

lemma release_bound:
  "ch_active (ns_chans (release d s) c) \<le> max (ch_active (ns_chans s c)) (ns_max_streams s)"
proof (cases d)
  case (Some e)
  have "ch_active (ns_chans (add_active e (-1) s) c) \<le> ch_active (ns_chans s c)"
    "ns_max_streams (add_active e (-1) s) = ns_max_streams s"
    by (simp_all add: add_active_def)
  with Some handoff_bound [of "add_active e (-1) s" c] show ?thesis by (simp add: release_def)
qed (simp add: release_def)

lemma acquire_bound:
  assumes "acquire s = (r, s')"
  shows "ch_active (ns_chans s' c) \<le> max (ch_active (ns_chans s c)) (ns_max_streams s)"
proof (cases "ns_waiters s = [] \<and> (\<exists>d t. reserveLocked s = (Some d, t))")
  case True
  then obtain d t where r: "reserveLocked s = (Some d, t)" by blast
  with True assms have "s' = t" by (simp add: acquire_def)
  with reserveLocked_Some [OF r] show ?thesis by (auto simp: add_active_def eligible_def)
next
  case False
  with assms have "s' = snd (park s)"
    by (auto simp: acquire_def split: if_splits option.splits prod.splits)
  then show ?thesis by (simp add: park_def)
qed

lemma open_step_bound:
  "open_step ch pc s st = (pc', s', st') \<Longrightarrow>
     ch_active (ns_chans s' c) \<le> max (ch_active (ns_chans s c)) (ns_max_streams s)"
  using acquire_bound [of s] release_bound [of _ s c]
  by (auto simp: open_step_def CloseStream_def RemoveChannel_def take_ready_def abandon_def
      split: req_pc.splits choice.splits if_splits option.splits prod.splits sum.splits)

lemma acquire_limit: "acquire s = (r, s') \<Longrightarrow> ns_max_streams s' = ns_max_streams s"
  by (auto simp: acquire_def reserveLocked_def park_def add_active_def
      split: if_splits option.splits prod.splits)

lemma handoff_limit [simp]: "ns_max_streams (handoffLocked s) = ns_max_streams s"
  using handoff_setup [of s] by (simp add: same_setup_def)

lemma release_limit [simp]: "ns_max_streams (release d s) = ns_max_streams s"
  by (cases d) (simp_all add: release_def add_active_def)

lemma open_step_limit: "open_step ch pc s st = (pc', s', st') \<Longrightarrow> ns_max_streams s' = ns_max_streams s"
  by (auto simp: open_step_def CloseStream_def RemoveChannel_def take_ready_def abandon_def
      dest: acquire_limit
      split: req_pc.splits choice.splits if_splits option.splits prod.splits sum.splits)

definition limited :: "int \<Rightarrow> node_session \<Rightarrow> bool" where
  "limited l s \<longleftrightarrow> 0 \<le> l \<and> ns_max_streams s \<le> l \<and> (\<forall>c. ch_active (ns_chans s c) \<le> l)"

fun event_limit :: "int \<Rightarrow> pool_event \<Rightarrow> bool" where
  "event_limit l (ConfigStore cfg qt) = (MaxStreamsPerConn cfg \<le> l)"
| "event_limit l _ = True"

lemma handoff_limited: "limited l s \<Longrightarrow> limited l (handoffLocked s)"
  unfolding limited_def using handoff_bound [of s] by (simp, meson max.boundedI order_trans)

lemma pool_step_limited:
  assumes "limited l (p_sess p)" "event_limit l e"
  shows "limited l (p_sess (pool_step e p))"
proof (cases e)
  case (Run i ch)
  show ?thesis
  proof (cases "i < length (p_reqs p)")
    case True
    obtain pc s' st where o: "open_step ch (p_reqs p ! i) (p_sess p) (p_stats p) = (pc, s', st)"
      by (metis prod_cases3)
    from assms(1) have "ch_active (ns_chans s' c) \<le> l" for c
      using open_step_bound [OF o, of c] unfolding limited_def by (meson max.boundedI order_trans)
    with Run assms(1) open_step_limit [OF o] show ?thesis
      by (simp add: pool_step_Run [OF True o] limited_def)
  qed (use Run assms in \<open>simp add: pool_step_Run_none\<close>)
next
  case ChannelUp
  obtain c s2 where n: "new_channel (ns_chan_seq (p_sess p) + 1)
      ((p_sess p)\<lparr>ns_chan_seq := ns_chan_seq (p_sess p) + 1\<rparr>) = (c, s2)" by (metis surj_pair)
  then have "limited l (s2\<lparr>ns_channels := cs\<rparr>)" for cs
    using assms(1) by (auto simp: limited_def new_channel_def zero_channel_def)
  with ChannelUp show ?thesis
    by (simp add: pool_step_ChannelUp [OF n] AddChannel_def handoff_limited)
next
  case ConfigHandoff
  with assms show ?thesis by (simp add: pool_simps handoff_limited)
qed (use assms in \<open>auto simp: pool_simps limited_def RemoveChannel_def Session_Close_def
      SetConfig_store_def SetDraining_def\<close>)

lemma run_limited:
  "limited l (p_sess p) \<Longrightarrow> \<forall>e \<in> set es. event_limit l e \<Longrightarrow> limited l (p_sess (fold pool_step es p))"
  by (induction es arbitrary: p) (auto intro: pool_step_limited)

end
