(* ===== verification/Server_Control.thy ===== *)
theory Server_Control
  imports Config_Diff Listener_Laws Open_Stream
begin

text \<open>
  internal/server/server.go: the server's state and its handlers. Sessions are pointers (\<open>sref\<close>)
  into \<open>sv_sess\<close>; a control message is recorded in \<open>sv_sent\<close> with the session it is written to.
  The outcome of a read, of a write, of a bind and the clock are arguments. Each definition is
  what one goroutine does between two points where others can act; the composite operations
  put them together in the order of the code.
\<close>

record server =
  sv_cfg :: config
  sv_reg :: registry
  sv_lm :: listeners
  sv_sess :: "sref \<Rightarrow> node_session"
  sv_next :: sref
  sv_sent :: "(sref \<times> message) list"
  sv_ws_addr :: string
  sv_status_addr :: string
  sv_drains :: "(sref \<times> string) list"

definition upd_sess :: "sref \<Rightarrow> (node_session \<Rightarrow> node_session) \<Rightarrow> server \<Rightarrow> server" where
  "upd_sess r f sv = sv\<lparr>sv_sess := (sv_sess sv)(r := f (sv_sess sv r))\<rparr>"

definition upd_lm :: "(listeners \<Rightarrow> listeners) \<Rightarrow> server \<Rightarrow> server" where
  "upd_lm f sv = sv\<lparr>sv_lm := f (sv_lm sv)\<rparr>"

definition SendControl :: "sref \<Rightarrow> message \<Rightarrow> server \<Rightarrow> server" where
  "SendControl r m sv = sv\<lparr>sv_sent := sv_sent sv @ [(r, m)]\<rparr>"

definition online :: "string \<Rightarrow> server \<Rightarrow> bool" where
  "online node sv \<longleftrightarrow> Get node (sv_reg sv) \<noteq> None"

text \<open>\<open>New\<close>, after the configuration has been loaded; an endpoint that is not bound has the address
  \<open>''''\<close>.\<close>

definition newServer :: "config \<Rightarrow> server" where
  "newServer cfg =
     \<lparr>sv_cfg = cfg, sv_reg = newRegistry, sv_lm = newListenerManager,
      sv_sess = (\<lambda>_. newNodeSession '''' '''' (sample_node_config []) 0 0), sv_next = 0, sv_sent = [],
      sv_ws_addr = '''', sv_status_addr = '''', sv_drains = []\<rparr>"

text \<open>The two binds at the start of \<open>Run\<close>: \<open>bind addr\<close> is the error of claiming the address.\<close>

definition run_binds :: "(string \<Rightarrow> string option) \<Rightarrow> server \<Rightarrow> string option \<times> server" where
  "run_binds bind sv =
     (case bind (cfg_listen (sv_cfg sv)) of
        Some e \<Rightarrow> (Some (''ws listener: '' @ e), sv)
      | None \<Rightarrow>
          (let sv1 = sv\<lparr>sv_ws_addr := cfg_listen (sv_cfg sv)\<rparr>
           in if cfg_status_listen (sv_cfg sv) = '''' then (None, sv1)
              else (case bind (cfg_status_listen (sv_cfg sv)) of
                      Some e \<Rightarrow> (Some (''status listener: '' @ e), sv1)
                    | None \<Rightarrow> (None, sv1\<lparr>sv_status_addr := cfg_status_listen (sv_cfg sv)\<rparr>))))"

section \<open>The entry point\<close>

datatype auth_error = EmptyKey | UnknownNode string | KeyMismatch string | NoSuchKey

definition authenticate :: "config \<Rightarrow> message \<Rightarrow> auth_error + NodeSpec" where
  "authenticate cfg msg =
     (if m_key msg = '''' then Inl EmptyKey
      else if m_node msg \<noteq> ''''
      then (case map_of (cfg_nodes cfg) (m_node msg) of
              None \<Rightarrow> Inl (UnknownNode (m_node msg))
            | Some spec \<Rightarrow>
                if ns_spec_key spec \<noteq> m_key msg then Inl (KeyMismatch (m_node msg)) else Inr spec)
      else (case NodeByKey cfg (m_key msg) of
              None \<Rightarrow> Inl NoSuchKey
            | Some spec \<Rightarrow> Inr spec))"

text \<open>What becomes of a connection: closed with a status and a reason, refused with an error message
  (its code, format and arguments, as \<open>reject\<close> is given them), left to the session that was
  closed, or served.\<close>

datatype ws_status = StatusPolicyViolation | StatusInternalError

datatype ws_action =
    CloseWS ws_status string
  | Reject string string "string list"
  | SessionClosed
  | ServeControl NodeSpec
  | ServeData NodeSpec message

definition reject :: "string \<Rightarrow> string \<Rightarrow> string list \<Rightarrow> ws_action" where
  "reject code format args = Reject code format args"

definition handleWS :: "config \<Rightarrow> string + message \<Rightarrow> ws_action" where
  "handleWS cfg hello =
     (case hello of
        Inl e \<Rightarrow> CloseWS StatusPolicyViolation ''handshake read failed''
      | Inr msg \<Rightarrow>
          if m_type msg \<noteq> TypeHello then reject CodeBadRequest ''expected hello'' []
          else (case authenticate cfg msg of
                  Inl e \<Rightarrow> reject CodeAuthFailed ''authentication failed'' []
                | Inr spec \<Rightarrow>
                    if m_role msg = RoleControl then ServeControl spec
                    else if m_role msg = RoleData then ServeData spec msg
                    else reject CodeBadRequest ''unknown role %q'' [m_role msg]))"

section \<open>A control channel\<close>

text \<open>\<open>serveControl\<close>, step by step. The configuration is read once, before the session is
  registered; \<open>StartNode\<close> reads it again.\<close>

definition control_prepare ::
  "NodeSpec \<Rightarrow> string \<Rightarrow> time \<Rightarrow> server \<Rightarrow> (ws_action + sref) \<times> server" where
  "control_prepare spec sid now sv =
     (case Config_NodeConfig (sv_cfg sv) (ns_spec_name spec) of
        None \<Rightarrow> (Inl (reject CodeInternal ''node vanished from config'' []), sv)
      | Some nc \<Rightarrow>
          (Inr (sv_next sv),
           sv\<lparr>sv_reg := Stats (ns_spec_name spec) (sv_reg sv),
              sv_sess := (sv_sess sv)(sv_next sv :=
                newNodeSession (ns_spec_name spec) sid nc (st_queue_timeout (cfg_settings (sv_cfg sv))) now),
              sv_next := Suc (sv_next sv)\<rparr>))"

definition control_register :: "sref \<Rightarrow> server \<Rightarrow> ws_action option \<times> server" where
  "control_register r sv =
     (case Register r (ns_name (sv_sess sv r)) (ns_connected_at (sv_sess sv r)) (sv_reg sv) of
        (ok, reg) \<Rightarrow>
          (if ok then None
           else Some (reject CodeNodeBusy ''node %s already has a control channel'' [ns_name (sv_sess sv r)]),
           sv\<lparr>sv_reg := reg\<rparr>))"

definition welcome_message :: "node_session \<Rightarrow> message" where
  "welcome_message s = zero_message\<lparr>m_type := TypeWelcome, m_session := ns_id s,
     m_heartbeat := Heartbeat (ns_cfg s), m_channels := Channels (ns_cfg s), m_config := Some (ns_cfg s)\<rparr>"

definition control_offline :: "sref \<Rightarrow> string \<Rightarrow> time \<Rightarrow> server \<Rightarrow> server" where
  "control_offline r reason now sv =
     sv\<lparr>sv_reg := Unregister r (ns_name (sv_sess sv r)) reason now (sv_reg sv)\<rparr>"

definition close_session :: "sref \<Rightarrow> string \<Rightarrow> server \<Rightarrow> server" where
  "close_session r reason = upd_sess r (Session_Close reason)"

definition start_node :: "string \<Rightarrow> server \<Rightarrow> server" where
  "start_node node sv = upd_lm (StartNode (sv_cfg sv) node (online node sv)) sv"

definition stop_node :: "string \<Rightarrow> bool \<Rightarrow> server \<Rightarrow> server" where
  "stop_node node graceful = upd_lm (StopNode node graceful)"

text \<open>The welcome is written; a write error unwinds the registration.\<close>

definition control_welcome :: "sref \<Rightarrow> string option \<Rightarrow> time \<Rightarrow> server \<Rightarrow> bool \<times> server" where
  "control_welcome r write_error now sv =
     (case write_error of
        Some e \<Rightarrow>
          (False, close_session r ''welcome write failed''
                    (control_offline r (''welcome write failed: '' @ e) now sv))
      | None \<Rightarrow> (True, SendControl r (welcome_message (sv_sess sv r)) sv))"

definition serveControl_start ::
  "NodeSpec \<Rightarrow> string \<Rightarrow> string option \<Rightarrow> time \<Rightarrow> server \<Rightarrow> (ws_action + sref) \<times> server" where
  "serveControl_start spec sid write_error now sv =
     (case control_prepare spec sid now sv of
        (Inl a, sv1) \<Rightarrow> (Inl a, sv1)
      | (Inr r, sv1) \<Rightarrow>
          (case control_register r sv1 of
             (Some a, sv2) \<Rightarrow> (Inl a, sv2)
           | (None, sv2) \<Rightarrow>
               (case control_welcome r write_error now sv2 of
                  (False, sv3) \<Rightarrow> (Inl SessionClosed, sv3)
                | (True, sv3) \<Rightarrow> (Inr r, start_node (ns_spec_name spec) sv3))))"

text \<open>The end of \<open>serveControl\<close>.\<close>

definition serveControl_end :: "sref \<Rightarrow> string \<Rightarrow> time \<Rightarrow> server \<Rightarrow> server" where
  "serveControl_end r reason now sv =
     close_session r reason
       (control_offline r reason now (stop_node (ns_name (sv_sess sv r)) False sv))"

text \<open>The dispatch of \<open>controlReadLoop\<close>; \<open>Some reason\<close> ends the loop. \<open>time.Since(time.Unix(0, ts))\<close>
  is \<open>now - ts\<close>.\<close>

definition server_message :: "sref \<Rightarrow> time \<Rightarrow> message \<Rightarrow> server \<Rightarrow> string option \<times> server" where
  "server_message r now msg sv0 =
     (let sv = upd_sess r (Touch now 0) sv0
      in if m_type msg = TypePing
         then (None, SendControl r (zero_message\<lparr>m_type := TypePong, m_nonce := m_nonce msg, m_ts := m_ts msg\<rparr>) sv)
         else if m_type msg = TypePong
         then (None, if 0 < m_ts msg then upd_sess r (Touch now (now - m_ts msg)) sv else sv)
         else if m_type msg = TypeStats
         then (None, case m_stats msg of
                 None \<Rightarrow> sv
               | Some cs \<Rightarrow>
                   (let sv1 = upd_sess r (SetClientStats cs) sv
                    in sv1\<lparr>sv_reg := with_stats (ns_name (sv_sess sv r))
                         (\<lambda>s. s\<lparr>LocalDialErrors := cs_local_dial_errors cs\<rparr>) (sv_reg sv1)\<rparr>))
         else if m_type msg = TypeBye then (Some (''client said bye: '' @ m_reason msg), sv)
         else (None, sv))"

fun controlReadLoop ::
  "sref \<Rightarrow> (time \<times> bool \<times> (string + message)) list \<Rightarrow> server \<Rightarrow> string option \<times> server" where
  "controlReadLoop r [] sv = (None, sv)"
| "controlReadLoop r ((now, ctx_done, Inl e) # rest) sv =
     (Some (if ctx_done then ''server closed the session'' else ''control channel closed: '' @ e), sv)"
| "controlReadLoop r ((now, ctx_done, Inr msg) # rest) sv =
     (case server_message r now msg sv of
        (Some reason, sv') \<Rightarrow> (Some reason, sv')
      | (None, sv') \<Rightarrow> controlReadLoop r rest sv')"

text \<open>The deadline of each read of \<open>controlReadLoop\<close>.\<close>

definition control_read_timeout :: "sref \<Rightarrow> server \<Rightarrow> duration" where
  "control_read_timeout r sv = 3 * Heartbeat (ns_cfg (sv_sess sv r))"

text \<open>One tick of \<open>pingLoop\<close>: the interval it goes on with (\<open>None\<close>: it returns).\<close>

definition ping_tick ::
  "sref \<Rightarrow> time \<Rightarrow> string \<Rightarrow> string option \<Rightarrow> duration \<Rightarrow> server \<Rightarrow> duration option \<times> server" where
  "ping_tick r now nonce write_error interval sv =
     (let cur = Heartbeat (ns_cfg (sv_sess sv r));
          interval' = (if cur \<noteq> interval \<and> 0 < cur then cur else interval)
      in if ns_done (sv_sess sv r) then (None, sv)
         else if 3 * interval' < now - ns_last_seen (sv_sess sv r)
         then (None, close_session r ''control heartbeat timeout'' sv)
         else (case write_error of
                 Some e \<Rightarrow> (None, close_session r (''ping write failed: '' @ e) sv)
               | None \<Rightarrow> (Some interval',
                   SendControl r (zero_message\<lparr>m_type := TypePing, m_nonce := nonce, m_ts := now\<rparr>) sv)))"

text \<open>\<open>pingLoop\<close> over the ticks it gets: the time of each, the nonce it draws and the outcome of the
  write.\<close>

fun pingLoop ::
  "sref \<Rightarrow> duration \<Rightarrow> (time \<times> string \<times> string option) list \<Rightarrow> server \<Rightarrow> duration option \<times> server" where
  "pingLoop r interval [] sv = (Some interval, sv)"
| "pingLoop r interval ((now, nonce, write_error) # ticks) sv =
     (case ping_tick r now nonce write_error interval sv of
        (None, sv') \<Rightarrow> (None, sv')
      | (Some interval', sv') \<Rightarrow> pingLoop r interval' ticks sv')"

section \<open>A data channel\<close>

definition data_accept :: "NodeSpec \<Rightarrow> message \<Rightarrow> server \<Rightarrow> (ws_action + sref \<times> message) \<times> server" where
  "data_accept spec hello sv =
     (case Get (ns_spec_name spec) (sv_reg sv) of
        None \<Rightarrow> (Inl (reject CodeBadSession ''session is unknown or superseded'' []), sv)
      | Some r \<Rightarrow>
          if m_session hello = '''' \<or> m_session hello \<noteq> ns_id (sv_sess sv r)
          then (Inl (reject CodeBadSession ''session is unknown or superseded'' []), sv)
          else (case NextChannelID (sv_sess sv r) of
                  (i, s) \<Rightarrow>
                    (Inr (r, zero_message\<lparr>m_type := TypeWelcome, m_channel_id := i, m_session := ns_id s\<rparr>),
                     sv\<lparr>sv_sess := (sv_sess sv)(r := s)\<rparr>)))"

definition data_up :: "sref \<Rightarrow> int \<Rightarrow> server \<Rightarrow> cref \<times> server" where
  "data_up r i sv =
     (case new_channel i (sv_sess sv r) of
        (c, s) \<Rightarrow> (c, sv\<lparr>sv_sess := (sv_sess sv)(r := AddChannel c s)\<rparr>))"

definition data_down :: "sref \<Rightarrow> cref \<Rightarrow> server \<Rightarrow> server" where
  "data_down r c = upd_sess r (RemoveChannel c)"

text \<open>\<open>serveData\<close> up to the accept loop; the outcome of the welcome and of smux is an argument.\<close>

datatype data_setup = SetupDone | WelcomeFailed | SmuxFailed

definition serveData ::
  "NodeSpec \<Rightarrow> message \<Rightarrow> data_setup \<Rightarrow> server \<Rightarrow> (ws_action + sref \<times> cref) \<times> server" where
  "serveData spec hello outcome sv =
     (case data_accept spec hello sv of
        (Inl a, sv1) \<Rightarrow> (Inl a, sv1)
      | (Inr (r, welcome), sv1) \<Rightarrow>
          (case outcome of
             WelcomeFailed \<Rightarrow> (Inl (CloseWS StatusInternalError ''welcome write failed''), sv1)
           | SmuxFailed \<Rightarrow> (Inl (CloseWS StatusInternalError ''smux setup failed''), sv1)
           | SetupDone \<Rightarrow>
               (case data_up r (m_channel_id welcome) sv1 of (c, sv2) \<Rightarrow> (Inr (r, c), sv2))))"

text \<open>One tick of \<open>sampleRates\<close>; the quotient of \<open>SampleRates\<close> is an argument.\<close>

definition sample_tick :: "(int \<Rightarrow> duration \<Rightarrow> int) \<Rightarrow> time \<Rightarrow> server \<Rightarrow> server" where
  "sample_tick per_second now sv =
     fold (\<lambda>r sv. sv\<lparr>sv_reg := with_stats (ns_name (sv_sess sv r)) (SampleRates per_second now) (sv_reg sv)\<rparr>)
       (List_sessions (sv_reg sv)) sv"

section \<open>Reload\<close>

definition setServerConfig :: "config \<Rightarrow> server \<Rightarrow> server" where
  "setServerConfig cfg sv = sv\<lparr>sv_cfg := cfg\<rparr>"

definition pushConfig :: "string \<Rightarrow> config \<Rightarrow> server \<Rightarrow> server" where
  "pushConfig node cfg sv =
     (case Get node (sv_reg sv) of
        None \<Rightarrow> sv
      | Some r \<Rightarrow>
          (case Config_NodeConfig cfg node of
             None \<Rightarrow> sv
           | Some nc \<Rightarrow>
               SendControl r (zero_message\<lparr>m_type := TypeReloadConfig, m_config := Some nc\<rparr>)
                 (upd_sess r (SetConfig nc (st_queue_timeout (cfg_settings cfg))) sv)))"

definition ShutdownGrace :: duration where
  "ShutdownGrace = 30 * second"

text \<open>\<open>drainNode\<close> up to the goroutine it starts, which \<open>sv_drains\<close> records, and that goroutine's
  work after the wait.\<close>

definition drainNode :: "duration \<Rightarrow> time \<Rightarrow> string \<Rightarrow> string \<Rightarrow> server \<Rightarrow> server" where
  "drainNode grace now reason name sv =
     (case Get name (sv_reg sv) of
        None \<Rightarrow> sv
      | Some r \<Rightarrow>
          (let sv1 = upd_sess r (SetDraining True) sv;
               sv2 = SendControl r (zero_message\<lparr>m_type := TypeDrain, m_deadline := Some (now + grace)\<rparr>) sv1;
               sv3 = stop_node name True sv2
           in sv3\<lparr>sv_drains := sv_drains sv3 @ [(r, reason)]\<rparr>))"

text \<open>\<open>waitDrained\<close> over the rounds of its loop: the number of streams it sees at the top, and what ends the
  select after that, the session (\<open>done\<close>) or the ticker, at the time \<open>now\<close>.\<close>

fun waitDrained :: "time \<Rightarrow> (int \<times> time \<times> bool) list \<Rightarrow> bool" where
  "waitDrained deadline [] = False"
| "waitDrained deadline ((active, now, done) # rest) =
     (if active = 0 \<or> done \<or> deadline < now then True else waitDrained deadline rest)"

definition drain_finish :: "sref \<Rightarrow> string \<Rightarrow> server \<Rightarrow> server" where
  "drain_finish r reason sv =
     close_session r reason
       (stop_node (ns_name (sv_sess sv r)) False
          (SendControl r (zero_message\<lparr>m_type := TypeBye, m_reason := reason\<rparr>)
             (sv\<lparr>sv_drains := remove1 (r, reason) (sv_drains sv)\<rparr>)))"

definition force_reconnect :: "string \<Rightarrow> server \<Rightarrow> server" where
  "force_reconnect name sv =
     (case Get name (sv_reg sv) of
        None \<Rightarrow> sv
      | Some r \<Rightarrow> close_session r ''node key changed'' (stop_node name False sv))"

definition stop_port :: "int \<Rightarrow> server \<Rightarrow> server" where
  "stop_port p = upd_lm (StopPort p True)"

definition start_port :: "config \<Rightarrow> int \<Rightarrow> server \<Rightarrow> server" where
  "start_port cfg p sv =
     (case map_of (cfg_ports cfg) p of
        None \<Rightarrow> sv
      | Some spec \<Rightarrow> upd_lm (StartPort spec (online (ps_node spec) sv)) sv)"

text \<open>\<open>rebindEndpoints\<close>: \<open>bind addr\<close> says whether the address could be claimed.\<close>

definition rebindEndpoints :: "(string \<Rightarrow> bool) \<Rightarrow> config \<Rightarrow> config \<Rightarrow> server \<Rightarrow> server" where
  "rebindEndpoints bind old new sv =
     (let sv1 = (if cfg_listen old \<noteq> cfg_listen new \<and> bind (cfg_listen new)
                 then sv\<lparr>sv_ws_addr := cfg_listen new\<rparr> else sv)
      in if cfg_status_listen old = cfg_status_listen new then sv1
         else if cfg_status_listen new \<noteq> '''' \<and> \<not> bind (cfg_status_listen new) then sv1
         else sv1\<lparr>sv_status_addr := cfg_status_listen new\<rparr>)"

definition push_rest :: "config \<Rightarrow> string list \<Rightarrow> sref \<Rightarrow> server \<Rightarrow> server" where
  "push_rest cfg pushed r sv =
     (if ns_name (sv_sess sv r) \<in> set pushed then sv else pushConfig (ns_name (sv_sess sv r)) cfg sv)"

definition endpoints_changed :: "config \<Rightarrow> config \<Rightarrow> bool" where
  "endpoints_changed old new \<longleftrightarrow>
     cfg_listen old \<noteq> cfg_listen new \<or> cfg_status_listen old \<noteq> cfg_status_listen new"

text \<open>The first half of \<open>applyReload\<close>, up to the publication of the new configuration, and the
  second.\<close>

definition reload_teardown :: "Diff \<Rightarrow> time \<Rightarrow> server \<Rightarrow> server" where
  "reload_teardown d now sv =
     fold stop_port (RemovedPorts d)
       (fold force_reconnect (KeyChangedNodes d)
          (fold (drainNode ShutdownGrace now ''node removed from config'') (RemovedNodes d) sv))"

definition reload_pushes :: "Diff \<Rightarrow> config \<Rightarrow> server \<Rightarrow> server" where
  "reload_pushes d new sv =
     (let sv1 = fold (\<lambda>name. pushConfig name new) (ChangedNodes d) sv
      in if SettingsChanged d
         then fold (push_rest new (ChangedNodes d)) (List_sessions (sv_reg sv1)) sv1
         else sv1)"

definition applyReload :: "(string \<Rightarrow> bool) \<Rightarrow> time \<Rightarrow> config \<Rightarrow> server \<Rightarrow> server" where
  "applyReload bind now new sv =
     (let old = sv_cfg sv; d = DiffConfig (Some old) new
      in if Diff_Empty d \<and> \<not> SettingsChanged d \<and> \<not> endpoints_changed old new
         then setServerConfig new sv
         else (let sv1 = setServerConfig new (reload_teardown d now sv);
                   sv2 = (if endpoints_changed old new then rebindEndpoints bind old new sv1 else sv1)
               in reload_pushes d new (fold (start_port new) (AddedPorts d) sv2)))"

section \<open>Shutdown\<close>

definition announce_drain :: "time \<Rightarrow> sref \<Rightarrow> server \<Rightarrow> server" where
  "announce_drain deadline r sv =
     SendControl r (zero_message\<lparr>m_type := TypeDrain, m_deadline := Some deadline\<rparr>)
       (upd_sess r (SetDraining True) sv)"

definition say_bye :: "sref \<Rightarrow> server \<Rightarrow> server" where
  "say_bye r sv =
     close_session r ''server shutting down''
       (SendControl r (zero_message\<lparr>m_type := TypeBye, m_reason := ''server shutting down''\<rparr>) sv)"

definition shutdown_start :: "time \<Rightarrow> server \<Rightarrow> sref list \<times> server" where
  "shutdown_start now sv =
     (let sv1 = upd_lm (StopAll True) sv; sessions = List_sessions (sv_reg sv1)
      in (sessions, fold (announce_drain (now + ShutdownGrace)) sessions sv1))"

definition shutdown_finish :: "sref list \<Rightarrow> server \<Rightarrow> server" where
  "shutdown_finish sessions sv = upd_lm (StopAll False) (fold say_bye sessions sv)"

end
