(* ===== verification/Server_Laws.thy ===== *)
theory Server_Laws
  imports Server_Control
begin

text \<open>
  The consistency of the running server: \<open>server_ok\<close> says that every listener serves a port the
  configuration gives to an online node, that every port of a serving node has its listener, and
  that every serving session has the configuration that is in force. \<open>server_ok_but X\<close> spares the
  nodes of \<open>X\<close> the second of these. Each handler, run without interruption, keeps it (\<open>server_step\<close>),
  except that the late end of a drain adds a node to \<open>X\<close>. Server_Properties states what follows, and what the
  interleavings of the handlers can break.
\<close>

section \<open>What each operation leaves alone\<close>

lemma setup_attributes:
  "ns_name (handoffLocked s) = ns_name s" "ns_id (handoffLocked s) = ns_id s"
  "ns_done (handoffLocked s) = ns_done s" "ns_draining (handoffLocked s) = ns_draining s"
  "ns_cfg (handoffLocked s) = ns_cfg s" "ns_queue_timeout (handoffLocked s) = ns_queue_timeout s"
  using handoff_setup [of s] by (simp_all add: same_setup_def)

lemma SetConfig_attributes [server_simps, simp]:
  "ns_name (SetConfig nc qt s) = ns_name s" "ns_id (SetConfig nc qt s) = ns_id s"
  "ns_done (SetConfig nc qt s) = ns_done s" "ns_draining (SetConfig nc qt s) = ns_draining s"
  "ns_cfg (SetConfig nc qt s) = nc" "ns_queue_timeout (SetConfig nc qt s) = qt"
  by (simp_all add: SetConfig_def setup_attributes SetConfig_store_def)

lemma close_channels_attributes:
  "ns_name (fold DataChannel_Close cs s) = ns_name s" "ns_id (fold DataChannel_Close cs s) = ns_id s"
  "ns_done (fold DataChannel_Close cs s) = ns_done s" "ns_draining (fold DataChannel_Close cs s) = ns_draining s"
  "ns_cfg (fold DataChannel_Close cs s) = ns_cfg s"
  "ns_queue_timeout (fold DataChannel_Close cs s) = ns_queue_timeout s"
  by (induction cs arbitrary: s) (simp_all add: DataChannel_Close_def)

lemma Close_attributes [server_simps, simp]:
  "ns_name (Session_Close why s) = ns_name s" "ns_id (Session_Close why s) = ns_id s"
  "ns_done (Session_Close why s)" "ns_draining (Session_Close why s) = ns_draining s"
  "ns_cfg (Session_Close why s) = ns_cfg s" "ns_queue_timeout (Session_Close why s) = ns_queue_timeout s"
  by (simp_all add: Session_Close_def close_channels_attributes)

lemma Draining_attributes [server_simps, simp]:
  "ns_name (SetDraining v s) = ns_name s" "ns_id (SetDraining v s) = ns_id s"
  "ns_done (SetDraining v s) = ns_done s" "ns_draining (SetDraining v s) = v"
  "ns_cfg (SetDraining v s) = ns_cfg s" "ns_queue_timeout (SetDraining v s) = ns_queue_timeout s"
  by (simp_all add: SetDraining_def)

lemma upd_simps [server_simps, simp]:
  "sv_reg (upd_sess r f sv) = sv_reg sv" "sv_cfg (upd_sess r f sv) = sv_cfg sv"
  "sv_lm (upd_sess r f sv) = sv_lm sv" "sv_next (upd_sess r f sv) = sv_next sv"
  "sv_sess (upd_sess r f sv) x = (if x = r then f (sv_sess sv r) else sv_sess sv x)"
  "sv_sent (upd_sess r f sv) = sv_sent sv"
  "sv_reg (upd_lm g sv) = sv_reg sv" "sv_cfg (upd_lm g sv) = sv_cfg sv"
  "sv_lm (upd_lm g sv) = g (sv_lm sv)" "sv_next (upd_lm g sv) = sv_next sv"
  "sv_sess (upd_lm g sv) = sv_sess sv" "sv_sent (upd_lm g sv) = sv_sent sv"
  "sv_reg (SendControl r m sv) = sv_reg sv" "sv_cfg (SendControl r m sv) = sv_cfg sv"
  "sv_lm (SendControl r m sv) = sv_lm sv" "sv_next (SendControl r m sv) = sv_next sv"
  "sv_sess (SendControl r m sv) = sv_sess sv" "sv_sent (SendControl r m sv) = sv_sent sv @ [(r, m)]"
  "sv_reg (setServerConfig c sv) = sv_reg sv" "sv_cfg (setServerConfig c sv) = c"
  "sv_lm (setServerConfig c sv) = sv_lm sv" "sv_sess (setServerConfig c sv) = sv_sess sv"
  "sv_next (setServerConfig c sv) = sv_next sv"
  by (simp_all add: upd_sess_def upd_lm_def SendControl_def setServerConfig_def)

abbreviation current :: "string \<Rightarrow> server \<Rightarrow> sref option" where
  "current n sv \<equiv> Get n (sv_reg sv)"

abbreviation holder :: "server \<Rightarrow> int \<Rightarrow> string option" where
  "holder sv p \<equiv> holder_of (sv_lm sv) p"

text \<open>A session that is neither closed nor being drained.\<close>

definition serving :: "server \<Rightarrow> sref \<Rightarrow> bool" where
  "serving sv r \<longleftrightarrow> \<not> ns_done (sv_sess sv r) \<and> \<not> ns_draining (sv_sess sv r)"

section \<open>The invariant\<close>

definition names_ok :: "server \<Rightarrow> bool" where
  "names_ok sv \<longleftrightarrow> (\<forall>n r. current n sv = Some r \<longrightarrow> ns_name (sv_sess sv r) = n \<and> r < sv_next sv)"

definition in_force :: "config \<Rightarrow> string \<Rightarrow> node_session \<Rightarrow> bool" where
  "in_force cfg n s \<longleftrightarrow>
     (case Config_NodeConfig cfg n of
        None \<Rightarrow> False
      | Some nc \<Rightarrow> same_node_config (ns_cfg s) nc \<and> ns_queue_timeout s = st_queue_timeout (cfg_settings cfg))"

definition sessions_ok :: "server \<Rightarrow> bool" where
  "sessions_ok sv \<longleftrightarrow>
     (\<forall>n r. current n sv = Some r \<and> serving sv r \<longrightarrow> in_force (sv_cfg sv) n (sv_sess sv r))"

definition listeners_sound :: "server \<Rightarrow> bool" where
  "listeners_sound sv \<longleftrightarrow>
     (\<forall>p n. holder sv p = Some n \<longrightarrow> owner (sv_cfg sv) p = Some n \<and> current n sv \<noteq> None)"

text \<open>The nodes of \<open>X\<close> may have lost listeners.\<close>

definition listeners_complete :: "string set \<Rightarrow> server \<Rightarrow> bool" where
  "listeners_complete X sv \<longleftrightarrow>
     (\<forall>p n r. owner (sv_cfg sv) p = Some n \<and> n \<notin> X \<and> current n sv = Some r \<and> serving sv r \<longrightarrow>
        holder sv p = Some n)"

definition base_ok :: "server \<Rightarrow> bool" where
  "base_ok sv \<longleftrightarrow> config_wf (sv_cfg sv) \<and> lm_wf (sv_lm sv) \<and> registry_wf (sv_reg sv) \<and> names_ok sv"

definition server_ok_but :: "string set \<Rightarrow> server \<Rightarrow> bool" where
  "server_ok_but X sv \<longleftrightarrow> base_ok sv \<and> sessions_ok sv \<and> listeners_sound sv \<and> listeners_complete X sv"

abbreviation server_ok :: "server \<Rightarrow> bool" where
  "server_ok \<equiv> server_ok_but {}"

lemmas server_ok_defs = server_ok_but_def base_ok_def sessions_ok_def listeners_sound_def listeners_complete_def

lemma server_ok_but_mono: "server_ok_but X sv \<Longrightarrow> X \<subseteq> Y \<Longrightarrow> server_ok_but Y sv"
  unfolding server_ok_but_def listeners_complete_def by blast

lemma names_ok_inject:
  "names_ok sv \<Longrightarrow> current n sv = Some r \<Longrightarrow> current m sv = Some r \<Longrightarrow> m = n"
  by (auto simp: names_ok_def)

lemma base_ok_cong:
  assumes "base_ok sv" "sv_cfg sv' = sv_cfg sv" "sv_reg sv' = sv_reg sv" "lm_wf (sv_lm sv')"
    "\<And>r. ns_name (sv_sess sv' r) = ns_name (sv_sess sv r)" "sv_next sv' = sv_next sv"
  shows "base_ok sv'"
  using assms by (simp add: base_ok_def names_ok_def)

section \<open>Stopping and starting listeners\<close>

lemma stop_node_simps [server_simps, simp]:
  "sv_reg (stop_node n g sv) = sv_reg sv" "sv_cfg (stop_node n g sv) = sv_cfg sv"
  "sv_sess (stop_node n g sv) = sv_sess sv" "sv_next (stop_node n g sv) = sv_next sv"
  "sv_lm (stop_node n g sv) = StopNode n g (sv_lm sv)" "sv_sent (stop_node n g sv) = sv_sent sv"
  by (simp_all add: stop_node_def)

lemma close_session_simps [server_simps, simp]:
  "sv_reg (close_session r why sv) = sv_reg sv" "sv_cfg (close_session r why sv) = sv_cfg sv"
  "sv_lm (close_session r why sv) = sv_lm sv" "sv_next (close_session r why sv) = sv_next sv"
  "sv_sess (close_session r why sv) x = (if x = r then Session_Close why (sv_sess sv r) else sv_sess sv x)"
  "sv_sent (close_session r why sv) = sv_sent sv"
  by (simp_all add: close_session_def)

lemma drainNode_simps [server_simps, simp]:
  "sv_reg (drainNode g t why n sv) = sv_reg sv" "sv_cfg (drainNode g t why n sv) = sv_cfg sv"
  "sv_next (drainNode g t why n sv) = sv_next sv"
  "sv_lm (drainNode g t why n sv) = (if current n sv = None then sv_lm sv else StopNode n True (sv_lm sv))"
  "sv_sess (drainNode g t why n sv) r =
     (if current n sv = Some r then SetDraining True (sv_sess sv r) else sv_sess sv r)"
  by (auto simp: drainNode_def Let_def split: option.split)

lemma force_reconnect_simps [server_simps, simp]:
  "sv_reg (force_reconnect n sv) = sv_reg sv" "sv_cfg (force_reconnect n sv) = sv_cfg sv"
  "sv_next (force_reconnect n sv) = sv_next sv"
  "sv_lm (force_reconnect n sv) = (if current n sv = None then sv_lm sv else StopNode n False (sv_lm sv))"
  "sv_sess (force_reconnect n sv) r =
     (if current n sv = Some r then Session_Close ''node key changed'' (sv_sess sv r) else sv_sess sv r)"
  by (auto simp: force_reconnect_def split: option.split)

lemma stop_port_simps [server_simps, simp]:
  "sv_reg (stop_port p sv) = sv_reg sv" "sv_cfg (stop_port p sv) = sv_cfg sv"
  "sv_next (stop_port p sv) = sv_next sv" "sv_sess (stop_port p sv) = sv_sess sv"
  "sv_lm (stop_port p sv) = StopPort p True (sv_lm sv)"
  by (simp_all add: stop_port_def)

lemma start_port_simps [server_simps, simp]:
  "sv_reg (start_port c p sv) = sv_reg sv" "sv_cfg (start_port c p sv) = sv_cfg sv"
  "sv_next (start_port c p sv) = sv_next sv" "sv_sess (start_port c p sv) = sv_sess sv"
  by (simp_all add: start_port_def split: option.split)

text \<open>The three loops of the teardown.\<close>

lemma drains:
  assumes "lm_wf (sv_lm sv)"
  shows "sv_reg (fold (drainNode g t why) ns sv) = sv_reg sv \<and> sv_cfg (fold (drainNode g t why) ns sv) = sv_cfg sv \<and>
    sv_next (fold (drainNode g t why) ns sv) = sv_next sv \<and> lm_wf (sv_lm (fold (drainNode g t why) ns sv)) \<and>
    (\<forall>r. ns_name (sv_sess (fold (drainNode g t why) ns sv) r) = ns_name (sv_sess sv r) \<and>
       ns_done (sv_sess (fold (drainNode g t why) ns sv) r) = ns_done (sv_sess sv r) \<and>
       ns_cfg (sv_sess (fold (drainNode g t why) ns sv) r) = ns_cfg (sv_sess sv r) \<and>
       ns_queue_timeout (sv_sess (fold (drainNode g t why) ns sv) r) = ns_queue_timeout (sv_sess sv r) \<and>
       (ns_draining (sv_sess (fold (drainNode g t why) ns sv) r) \<longleftrightarrow>
          ns_draining (sv_sess sv r) \<or> (\<exists>n \<in> set ns. current n sv = Some r))) \<and>
    (\<forall>p. holder (fold (drainNode g t why) ns sv) p =
       (if \<exists>n \<in> set ns. holder sv p = Some n \<and> current n sv \<noteq> None then None else holder sv p))"
  using assms
proof (induction ns arbitrary: sv)
  case (Cons n ns)
  have wf: "lm_wf (sv_lm (drainNode g t why n sv))"
    using Cons.prems by (simp add: lm_wf_StopNode)
  have h: "holder (drainNode g t why n sv) p =
      (if holder sv p = Some n \<and> current n sv \<noteq> None then None else holder sv p)" for p
    using Cons.prems by (simp add: holder_StopNode)
  show ?case using Cons.IH [OF wf] unfolding h by auto
qed simp

lemma reconnects:
  assumes "lm_wf (sv_lm sv)"
  shows "sv_reg (fold force_reconnect ns sv) = sv_reg sv \<and> sv_cfg (fold force_reconnect ns sv) = sv_cfg sv \<and>
    sv_next (fold force_reconnect ns sv) = sv_next sv \<and> lm_wf (sv_lm (fold force_reconnect ns sv)) \<and>
    (\<forall>r. ns_name (sv_sess (fold force_reconnect ns sv) r) = ns_name (sv_sess sv r) \<and>
       ns_draining (sv_sess (fold force_reconnect ns sv) r) = ns_draining (sv_sess sv r) \<and>
       ns_cfg (sv_sess (fold force_reconnect ns sv) r) = ns_cfg (sv_sess sv r) \<and>
       ns_queue_timeout (sv_sess (fold force_reconnect ns sv) r) = ns_queue_timeout (sv_sess sv r) \<and>
       (ns_done (sv_sess (fold force_reconnect ns sv) r) \<longleftrightarrow>
          ns_done (sv_sess sv r) \<or> (\<exists>n \<in> set ns. current n sv = Some r))) \<and>
    (\<forall>p. holder (fold force_reconnect ns sv) p =
       (if \<exists>n \<in> set ns. holder sv p = Some n \<and> current n sv \<noteq> None then None else holder sv p))"
  using assms
proof (induction ns arbitrary: sv)
  case (Cons n ns)
  have wf: "lm_wf (sv_lm (force_reconnect n sv))"
    using Cons.prems by (simp add: lm_wf_StopNode)
  have h: "holder (force_reconnect n sv) p =
      (if holder sv p = Some n \<and> current n sv \<noteq> None then None else holder sv p)" for p
    using Cons.prems by (simp add: holder_StopNode)
  show ?case using Cons.IH [OF wf] unfolding h by auto
qed simp

lemma port_stops:
  assumes "lm_wf (sv_lm sv)"
  shows "sv_reg (fold stop_port ps sv) = sv_reg sv \<and> sv_cfg (fold stop_port ps sv) = sv_cfg sv \<and>
    sv_next (fold stop_port ps sv) = sv_next sv \<and> sv_sess (fold stop_port ps sv) = sv_sess sv \<and>
    lm_wf (sv_lm (fold stop_port ps sv)) \<and>
    (\<forall>p. holder (fold stop_port ps sv) p = (if p \<in> set ps then None else holder sv p))"
  using assms
  by (induction ps arbitrary: sv) (auto simp: lm_wf_StopPort holder_StopPort)

lemma port_starts:
  assumes "lm_wf (sv_lm sv)" "ports_wf c"
  shows "sv_reg (fold (start_port c) ps sv) = sv_reg sv \<and> sv_cfg (fold (start_port c) ps sv) = sv_cfg sv \<and>
    sv_next (fold (start_port c) ps sv) = sv_next sv \<and> sv_sess (fold (start_port c) ps sv) = sv_sess sv \<and>
    lm_wf (sv_lm (fold (start_port c) ps sv)) \<and>
    (\<forall>p. holder (fold (start_port c) ps sv) p =
       (case owner c p of
          None \<Rightarrow> holder sv p
        | Some n \<Rightarrow> if p \<in> set ps \<and> current n sv \<noteq> None then Some n else holder sv p))"
  using assms(1)
proof (induction ps arbitrary: sv)
  case Nil
  then show ?case by (simp split: option.split)
next
  case (Cons q ps)
  have wf: "lm_wf (sv_lm (start_port c q sv))"
    using Cons.prems by (simp add: start_port_def lm_wf_StartPort split: option.split)
  have "holder (start_port c q sv) p =
      (case owner c p of
         None \<Rightarrow> holder sv p
       | Some n \<Rightarrow> if p = q \<and> current n sv \<noteq> None then Some n else holder sv p)" for p
  proof (cases "map_of (cfg_ports c) q")
    case None
    then show ?thesis by (auto simp: start_port_def owner_def split: option.split)
  next
    case (Some spec)
    then have "ps_port spec = q" using ports_wf_lookup [OF assms(2)] by (simp add: port_ok_def)
    with Some show ?thesis
      using Cons.prems by (auto simp: start_port_def owner_def holder_StartPort online_def split: option.split)
  qed
  with Cons.IH [OF wf] show ?case by (auto split: option.split)
qed

section \<open>Pushing configurations\<close>

lemma pushConfig_simps [server_simps, simp]:
  "sv_reg (pushConfig n c sv) = sv_reg sv" "sv_cfg (pushConfig n c sv) = sv_cfg sv"
  "sv_next (pushConfig n c sv) = sv_next sv" "sv_lm (pushConfig n c sv) = sv_lm sv"
  "ns_name (sv_sess (pushConfig n c sv) r) = ns_name (sv_sess sv r)"
  "ns_done (sv_sess (pushConfig n c sv) r) = ns_done (sv_sess sv r)"
  "ns_draining (sv_sess (pushConfig n c sv) r) = ns_draining (sv_sess sv r)"
  by (auto simp: pushConfig_def split: option.split)

lemma pushes_frame:
  "sv_reg (fold (\<lambda>n. pushConfig n c) ns sv) = sv_reg sv \<and> sv_cfg (fold (\<lambda>n. pushConfig n c) ns sv) = sv_cfg sv \<and>
   sv_next (fold (\<lambda>n. pushConfig n c) ns sv) = sv_next sv \<and> sv_lm (fold (\<lambda>n. pushConfig n c) ns sv) = sv_lm sv \<and>
   ns_name (sv_sess (fold (\<lambda>n. pushConfig n c) ns sv) r) = ns_name (sv_sess sv r) \<and>
   ns_done (sv_sess (fold (\<lambda>n. pushConfig n c) ns sv) r) = ns_done (sv_sess sv r) \<and>
   ns_draining (sv_sess (fold (\<lambda>n. pushConfig n c) ns sv) r) = ns_draining (sv_sess sv r)"
  by (induction ns arbitrary: sv) simp_all

lemma pushes_cfg:
  assumes "names_ok sv" "current n sv = Some r" "Config_NodeConfig c n = Some nc"
  shows "ns_cfg (sv_sess (fold (\<lambda>n. pushConfig n c) ns sv) r) =
      (if n \<in> set ns then nc else ns_cfg (sv_sess sv r)) \<and>
    ns_queue_timeout (sv_sess (fold (\<lambda>n. pushConfig n c) ns sv) r) =
      (if n \<in> set ns then st_queue_timeout (cfg_settings c) else ns_queue_timeout (sv_sess sv r))"
  using assms(1,2)
proof (induction ns arbitrary: sv)
  case (Cons m ns)
  have "names_ok (pushConfig m c sv)" "current n (pushConfig m c sv) = Some r"
    using Cons.prems by (simp_all add: names_ok_def)
  note IH = Cons.IH [OF this]
  have "ns_cfg (sv_sess (pushConfig m c sv) r) = (if m = n then nc else ns_cfg (sv_sess sv r)) \<and>
      ns_queue_timeout (sv_sess (pushConfig m c sv) r) =
        (if m = n then st_queue_timeout (cfg_settings c) else ns_queue_timeout (sv_sess sv r))"
  proof (cases "m = n")
    case True
    with Cons.prems(2) assms(3) show ?thesis by (simp add: pushConfig_def)
  next
    case False
    then have "current m sv \<noteq> Some r" using names_ok_inject [OF Cons.prems] by blast
    with False show ?thesis by (auto simp: pushConfig_def split: option.split)
  qed
  with IH show ?case by auto
qed simp

lemma push_rest_pushes:
  "fold (push_rest c ps) rs sv =
     fold (\<lambda>n. pushConfig n c) (filter (\<lambda>n. n \<notin> set ps) (map (\<lambda>r. ns_name (sv_sess sv r)) rs)) sv"
proof (induction rs arbitrary: sv)
  case (Cons r rs)
  have "map (\<lambda>r. ns_name (sv_sess (push_rest c ps r sv) r)) rs = map (\<lambda>r. ns_name (sv_sess sv r)) rs"
    by (simp add: push_rest_def)
  with Cons.IH [of "push_rest c ps r sv"] show ?case by (simp add: push_rest_def)
qed simp

text \<open>The nodes that the last part of a reload pushes to.\<close>

definition pushed_nodes :: "Diff \<Rightarrow> server \<Rightarrow> string list" where
  "pushed_nodes d sv = ChangedNodes d @
     (if SettingsChanged d
      then filter (\<lambda>n. n \<notin> set (ChangedNodes d)) (map (\<lambda>r. ns_name (sv_sess sv r)) (List_sessions (sv_reg sv)))
      else [])"

lemma reload_pushes_fold: "reload_pushes d c sv = fold (\<lambda>n. pushConfig n c) (pushed_nodes d sv) sv"
  by (simp add: reload_pushes_def Let_def push_rest_pushes pushed_nodes_def pushes_frame)

lemma pushed_everyone:
  assumes "SettingsChanged d" "registry_wf (sv_reg sv)" "names_ok sv" "current n sv = Some r"
  shows "n \<in> set (pushed_nodes d sv)"
proof -
  have "r \<in> set (List_sessions (sv_reg sv))" using assms(2,4) by (auto simp: List_sessions_iff)
  moreover have "ns_name (sv_sess sv r) = n" using assms(3,4) by (simp add: names_ok_def)
  ultimately show ?thesis using assms(1) by (force simp: pushed_nodes_def)
qed

lemma rebind_simps [server_simps, simp]:
  "sv_reg (rebindEndpoints b o1 n1 sv) = sv_reg sv" "sv_cfg (rebindEndpoints b o1 n1 sv) = sv_cfg sv"
  "sv_next (rebindEndpoints b o1 n1 sv) = sv_next sv" "sv_lm (rebindEndpoints b o1 n1 sv) = sv_lm sv"
  "sv_sess (rebindEndpoints b o1 n1 sv) = sv_sess sv"
  by (simp_all add: rebindEndpoints_def Let_def)

section \<open>A reload\<close>

text \<open>The early return of \<open>applyReload\<close> is only a shortcut.\<close>

lemma applyReload_general:
  "applyReload bind now new sv =
     (let old = sv_cfg sv; d = DiffConfig (Some old) new;
          sv1 = setServerConfig new (reload_teardown d now sv);
          sv2 = (if endpoints_changed old new then rebindEndpoints bind old new sv1 else sv1)
      in reload_pushes d new (fold (start_port new) (AddedPorts d) sv2))"
proof -
  have "reload_teardown d now sv = sv" if "Diff_Empty d" for d
    using that by (simp add: reload_teardown_def Diff_Empty_def)
  moreover have "reload_pushes d new sv' = sv'" if "Diff_Empty d" "\<not> SettingsChanged d" for d sv'
    using that by (simp add: reload_pushes_def Diff_Empty_def)
  ultimately show ?thesis
    by (simp add: applyReload_def Let_def) (auto simp: Diff_Empty_def)
qed

lemma teardown:
  assumes "lm_wf (sv_lm sv)"
  shows "sv_reg (reload_teardown d now sv) = sv_reg sv \<and> sv_cfg (reload_teardown d now sv) = sv_cfg sv \<and>
    sv_next (reload_teardown d now sv) = sv_next sv \<and> lm_wf (sv_lm (reload_teardown d now sv)) \<and>
    ns_name (sv_sess (reload_teardown d now sv) r) = ns_name (sv_sess sv r) \<and>
    ns_cfg (sv_sess (reload_teardown d now sv) r) = ns_cfg (sv_sess sv r) \<and>
    ns_queue_timeout (sv_sess (reload_teardown d now sv) r) = ns_queue_timeout (sv_sess sv r) \<and>
    (ns_draining (sv_sess (reload_teardown d now sv) r) \<longleftrightarrow>
       ns_draining (sv_sess sv r) \<or> (\<exists>n \<in> set (RemovedNodes d). current n sv = Some r)) \<and>
    (ns_done (sv_sess (reload_teardown d now sv) r) \<longleftrightarrow>
       ns_done (sv_sess sv r) \<or> (\<exists>n \<in> set (KeyChangedNodes d). current n sv = Some r)) \<and>
    holder (reload_teardown d now sv) p =
      (if p \<in> set (RemovedPorts d) \<or>
          (\<exists>n \<in> set (RemovedNodes d) \<union> set (KeyChangedNodes d). holder sv p = Some n \<and> current n sv \<noteq> None)
       then None else holder sv p)"
proof -
  define s1 where "s1 = fold (drainNode ShutdownGrace now ''node removed from config'') (RemovedNodes d) sv"
  define s2 where "s2 = fold force_reconnect (KeyChangedNodes d) s1"
  note d1 = drains [OF assms, of ShutdownGrace now "''node removed from config''" "RemovedNodes d", folded s1_def]
  have w1: "lm_wf (sv_lm s1)" using d1 by blast
  note d2 = reconnects [OF w1, of "KeyChangedNodes d", folded s2_def]
  have w2: "lm_wf (sv_lm s2)" using d2 by blast
  note d3 = port_stops [OF w2, of "RemovedPorts d"]
  have t: "reload_teardown d now sv = fold stop_port (RemovedPorts d) s2"
    by (simp add: reload_teardown_def s1_def s2_def)
  have h1: "holder s1 p = (if \<exists>n \<in> set (RemovedNodes d). holder sv p = Some n \<and> current n sv \<noteq> None
      then None else holder sv p)" using d1 by blast
  have h2: "holder s2 p = (if \<exists>n \<in> set (KeyChangedNodes d). holder s1 p = Some n \<and> current n s1 \<noteq> None
      then None else holder s1 p)" using d2 by blast
  have reg: "sv_reg s1 = sv_reg sv" using d1 by blast
  have h: "holder (reload_teardown d now sv) p = (if p \<in> set (RemovedPorts d) then None else holder s2 p)"
    using d3 unfolding t by blast
  have "holder (reload_teardown d now sv) p =
      (if p \<in> set (RemovedPorts d) \<or>
          (\<exists>n \<in> set (RemovedNodes d) \<union> set (KeyChangedNodes d). holder sv p = Some n \<and> current n sv \<noteq> None)
       then None else holder sv p)"
    unfolding h h2 h1 reg by auto
  then show ?thesis
    using d1 d2 d3 unfolding t by simp
qed

text \<open>What a reload leaves behind.\<close>

lemma reload_effect:
  fixes bind now new sv
  defines "d \<equiv> DiffConfig (Some (sv_cfg sv)) new" and "sv' \<equiv> applyReload bind now new sv"
  assumes "lm_wf (sv_lm sv)" "config_wf new"
  shows "sv_cfg sv' = new \<and> sv_reg sv' = sv_reg sv \<and> sv_next sv' = sv_next sv \<and> lm_wf (sv_lm sv') \<and>
    ns_name (sv_sess sv' r) = ns_name (sv_sess sv r) \<and>
    (ns_draining (sv_sess sv' r) \<longleftrightarrow>
       ns_draining (sv_sess sv r) \<or> (\<exists>n \<in> set (RemovedNodes d). current n sv = Some r)) \<and>
    (ns_done (sv_sess sv' r) \<longleftrightarrow>
       ns_done (sv_sess sv r) \<or> (\<exists>n \<in> set (KeyChangedNodes d). current n sv = Some r)) \<and>
    holder sv' p = (case owner new p of
        None \<Rightarrow> holder (reload_teardown d now sv) p
      | Some n \<Rightarrow> if p \<in> set (AddedPorts d) \<and> current n sv \<noteq> None then Some n
                  else holder (reload_teardown d now sv) p) \<and>
    (\<exists>pushed. pushed_nodes d sv = pushed \<and>
      (\<forall>n nc. names_ok sv \<and> current n sv = Some r \<and> Config_NodeConfig new n = Some nc \<longrightarrow>
         ns_cfg (sv_sess sv' r) = (if n \<in> set pushed then nc else ns_cfg (sv_sess sv r)) \<and>
         ns_queue_timeout (sv_sess sv' r) =
           (if n \<in> set pushed then st_queue_timeout (cfg_settings new) else ns_queue_timeout (sv_sess sv r))))"
proof -
  let ?t = "reload_teardown d now sv"
  define s1 where "s1 = setServerConfig new ?t"
  define s2 where "s2 = (if endpoints_changed (sv_cfg sv) new then rebindEndpoints bind (sv_cfg sv) new s1 else s1)"
  define s3 where "s3 = fold (start_port new) (AddedPorts d) s2"
  have sv': "sv' = fold (\<lambda>n. pushConfig n new) (pushed_nodes d s3) s3"
    unfolding sv'_def applyReload_general Let_def reload_pushes_fold [symmetric] s3_def s2_def s1_def d_def ..
  note t = teardown [OF assms(3), of d now]
  have s2: "sv_reg s2 = sv_reg sv" "sv_cfg s2 = new" "sv_next s2 = sv_next sv" "sv_lm s2 = sv_lm ?t"
    "sv_sess s2 = sv_sess ?t"
    using t by (simp_all add: s2_def s1_def)
  have "lm_wf (sv_lm s2)" using t s2(4) by simp
  moreover have "ports_wf new" using assms(4) by (simp add: config_wf_def)
  ultimately have s3: "sv_reg s3 = sv_reg sv" "sv_cfg s3 = new" "sv_next s3 = sv_next sv" "lm_wf (sv_lm s3)"
    "sv_sess s3 = sv_sess ?t"
    "holder s3 p = (case owner new p of None \<Rightarrow> holder s2 p
       | Some n \<Rightarrow> if p \<in> set (AddedPorts d) \<and> current n s2 \<noteq> None then Some n else holder s2 p)"
    using port_starts [of s2 new "AddedPorts d"] s2 unfolding s3_def by simp_all
  have names: "ns_name (sv_sess s3 x) = ns_name (sv_sess sv x)" for x
    using t [THEN conjunct2, THEN conjunct2] teardown [OF assms(3), of d now x] s3(5) by simp
  have pushed: "pushed_nodes d s3 = pushed_nodes d sv"
    by (simp add: pushed_nodes_def names s3(1))
  note f = pushes_frame [of new "pushed_nodes d s3" s3]
  have a: "sv_cfg sv' = new \<and> sv_reg sv' = sv_reg sv \<and> sv_next sv' = sv_next sv \<and> lm_wf (sv_lm sv')"
    using f s3 unfolding sv' by simp
  have b: "ns_name (sv_sess sv' r) = ns_name (sv_sess sv r) \<and>
    (ns_draining (sv_sess sv' r) \<longleftrightarrow>
       ns_draining (sv_sess sv r) \<or> (\<exists>n \<in> set (RemovedNodes d). current n sv = Some r)) \<and>
    (ns_done (sv_sess sv' r) \<longleftrightarrow>
       ns_done (sv_sess sv r) \<or> (\<exists>n \<in> set (KeyChangedNodes d). current n sv = Some r))"
    using f names [of r] s3(5) teardown [OF assms(3), of d now r] unfolding sv' by simp
  have "sv_lm sv' = sv_lm s3" using f unfolding sv' by simp
  then have h: "holder sv' p = (case owner new p of
        None \<Rightarrow> holder ?t p
      | Some n \<Rightarrow> if p \<in> set (AddedPorts d) \<and> current n sv \<noteq> None then Some n else holder ?t p)"
    using s3(6) s2 by (cases "owner new p") auto
  have cfg: "ns_cfg (sv_sess s3 r) = ns_cfg (sv_sess sv r)"
    "ns_queue_timeout (sv_sess s3 r) = ns_queue_timeout (sv_sess sv r)"
    using s3(5) teardown [OF assms(3), of d now r] by simp_all
  have nm: "names_ok sv \<Longrightarrow> names_ok s3" using names s3(1,3) by (simp add: names_ok_def)
  have c: "\<forall>n nc. names_ok sv \<and> current n sv = Some r \<and> Config_NodeConfig new n = Some nc \<longrightarrow>
      ns_cfg (sv_sess sv' r) = (if n \<in> set (pushed_nodes d sv) then nc else ns_cfg (sv_sess sv r)) \<and>
      ns_queue_timeout (sv_sess sv' r) =
        (if n \<in> set (pushed_nodes d sv) then st_queue_timeout (cfg_settings new) else ns_queue_timeout (sv_sess sv r))"
  proof (intro allI impI, elim conjE)
    fix n nc
    assume "names_ok sv" and "current n sv = Some r" and nc: "Config_NodeConfig new n = Some nc"
    then have "names_ok s3" "current n s3 = Some r"
      using nm s3(1) by simp_all
    from pushes_cfg [OF this nc, of "pushed_nodes d s3"]
    show "ns_cfg (sv_sess sv' r) = (if n \<in> set (pushed_nodes d sv) then nc else ns_cfg (sv_sess sv r)) \<and>
      ns_queue_timeout (sv_sess sv' r) =
        (if n \<in> set (pushed_nodes d sv) then st_queue_timeout (cfg_settings new) else ns_queue_timeout (sv_sess sv r))"
      unfolding sv' by (simp only: pushed cfg)
  qed
  show ?thesis using a b h c by blast
qed

lemma same_node_config_trans:
  "same_node_config a b \<Longrightarrow> same_node_config b c \<Longrightarrow> same_node_config a c"
  by (simp add: same_node_config_def)

lemma same_node_config_refl [simp]: "same_node_config a a"
  by (simp add: same_node_config_def)

lemma live_node:
  "config_wf cfg \<Longrightarrow> owner cfg p = Some n \<Longrightarrow> node_key cfg n \<noteq> None"
  using ports_wf_lookup [of cfg p] by (auto simp: config_wf_def owner_def port_ok_def node_key_def)

lemma reload_ok:
  assumes ok: "server_ok_but X sv" and new: "config_wf new"
  shows "server_ok_but X (applyReload bind now new sv)"
proof -
  let ?d = "DiffConfig (Some (sv_cfg sv)) new" and ?sv = "applyReload bind now new sv"
  have wf: "config_wf (sv_cfg sv)" "lm_wf (sv_lm sv)" "registry_wf (sv_reg sv)" "names_ok sv"
    and old: "sessions_ok sv" "listeners_sound sv" "listeners_complete X sv"
    using ok by (simp_all add: server_ok_but_def base_ok_def)
  note e = reload_effect [OF wf(2) new, of bind now]
  note nd = nodes_diff [OF wf(1) new]
  have reg: "sv_reg ?sv = sv_reg sv" and cfg: "sv_cfg ?sv = new" using e by blast+
  have base: "base_ok ?sv"
    using e wf(3,4) new by (simp add: base_ok_def names_ok_def)
  text \<open>A node that still serves was neither removed nor given another key.\<close>
  have kept: "serving sv r \<and> n \<notin> set (RemovedNodes ?d) \<and> n \<notin> set (KeyChangedNodes ?d)"
    if "current n sv = Some r" "serving ?sv r" for n r
    using that e [where r = r] by (auto simp: serving_def)
  have same_key: "node_key new n = node_key (sv_cfg sv) n \<and> node_key new n \<noteq> None"
    if "node_key (sv_cfg sv) n \<noteq> None" "n \<notin> set (RemovedNodes ?d)" "n \<notin> set (KeyChangedNodes ?d)" for n
    using that unfolding nd by auto
  have "sessions_ok ?sv"
    unfolding sessions_ok_def reg cfg
  proof (intro allI impI, elim conjE)
    fix n r assume n: "current n sv = Some r" and s: "serving ?sv r"
    note k = kept [OF n s]
    then have "in_force (sv_cfg sv) n (sv_sess sv r)" using old(1) n by (simp add: sessions_ok_def)
    then obtain a where a: "Config_NodeConfig (sv_cfg sv) n = Some a" "same_node_config (ns_cfg (sv_sess sv r)) a"
      "ns_queue_timeout (sv_sess sv r) = st_queue_timeout (cfg_settings (sv_cfg sv))"
      by (auto simp: in_force_def split: option.splits)
    then have "node_key (sv_cfg sv) n \<noteq> None"
      by (auto simp: Config_NodeConfig_def node_key_def split: option.splits)
    from same_key [OF this] k obtain b where b: "Config_NodeConfig new n = Some b"
      by (auto simp: Config_NodeConfig_def node_key_def split: option.splits)
    have p: "ns_cfg (sv_sess ?sv r) = (if n \<in> set (pushed_nodes ?d sv) then b else ns_cfg (sv_sess sv r))"
      "ns_queue_timeout (sv_sess ?sv r) = (if n \<in> set (pushed_nodes ?d sv)
         then st_queue_timeout (cfg_settings new) else ns_queue_timeout (sv_sess sv r))"
      using e [where r = r] wf(4) n b by blast+
    show "in_force new n (sv_sess ?sv r)"
    proof (cases "n \<in> set (pushed_nodes ?d sv)")
      case True
      with p b show ?thesis by (simp add: in_force_def)
    next
      case False
      then have "\<not> SettingsChanged ?d" "n \<notin> set (ChangedNodes ?d)"
        using pushed_everyone [OF _ wf(3,4) n] by (auto simp: pushed_nodes_def)
      then have "cfg_settings new = cfg_settings (sv_cfg sv)" "same_node_config a b"
        using unchanged_node [OF wf(1) new a(1) b] k by (simp_all add: DiffConfig_nodes)
      with False p a b show ?thesis
        by (auto simp: in_force_def intro: same_node_config_trans)
    qed
  qed
  moreover have "listeners_sound ?sv"
    unfolding listeners_sound_def reg cfg
  proof (intro allI impI)
    fix p n assume h: "holder ?sv p = Some n"
    show "owner new p = Some n \<and> current n sv \<noteq> None"
    proof (cases "p \<in> set (AddedPorts ?d) \<and> (\<exists>m. owner new p = Some m \<and> current m sv \<noteq> None)")
      case True
      with h e [where p = p] show ?thesis by auto
    next
      case False
      with h e [where p = p] have "holder (reload_teardown ?d now sv) p = Some n"
        by (auto split: option.splits if_splits)
      then have "p \<notin> set (RemovedPorts ?d)" "holder sv p = Some n"
        using teardown [OF wf(2), of ?d now _ p] by (auto split: if_splits)
      with old(2) have "owner (sv_cfg sv) p = Some n" "current n sv \<noteq> None"
        by (auto simp: listeners_sound_def)
      with \<open>p \<notin> _\<close> show ?thesis by (simp add: set_RemovedPorts)
    qed
  qed
  moreover have "listeners_complete X ?sv"
    unfolding listeners_complete_def reg cfg
  proof (intro allI impI, elim conjE)
    fix p n r assume o: "owner new p = Some n" and x: "n \<notin> X" and n: "current n sv = Some r" and s: "serving ?sv r"
    note k = kept [OF n s]
    show "holder ?sv p = Some n"
    proof (cases "p \<in> set (AddedPorts ?d)")
      case True
      with o n e [where p = p] show ?thesis by simp
    next
      case False
      with o have "owner (sv_cfg sv) p = Some n" by (simp add: set_AddedPorts)
      then have "holder sv p = Some n" "p \<notin> set (RemovedPorts ?d)"
        using old(3) n k o x by (auto simp: listeners_complete_def set_RemovedPorts)
      then have "holder (reload_teardown ?d now sv) p = Some n"
        using k teardown [OF wf(2), of ?d now _ p] by auto
      with False o e [where p = p] show ?thesis by simp
    qed
  qed
  ultimately show ?thesis using base by (simp add: server_ok_but_def)
qed

end
