(* ===== verification/Server_Steps.thy ===== *)
theory Server_Steps
  imports Server_Laws
begin

section \<open>Sessions coming and going\<close>

lemma server_okI:
  assumes "config_wf (sv_cfg sv)" "lm_wf (sv_lm sv)" "registry_wf (sv_reg sv)"
    "\<And>n r. current n sv = Some r \<Longrightarrow> ns_name (sv_sess sv r) = n \<and> r < sv_next sv"
    "\<And>n r. current n sv = Some r \<Longrightarrow> serving sv r \<Longrightarrow> in_force (sv_cfg sv) n (sv_sess sv r)"
    "\<And>p n. holder sv p = Some n \<Longrightarrow> owner (sv_cfg sv) p = Some n \<and> current n sv \<noteq> None"
    "\<And>p n r. owner (sv_cfg sv) p = Some n \<Longrightarrow> n \<notin> X \<Longrightarrow> current n sv = Some r \<Longrightarrow> serving sv r \<Longrightarrow>
      holder sv p = Some n"
  shows "server_ok_but X sv"
  unfolding server_ok_defs names_ok_def using assms by blast

lemma server_okD:
  assumes "server_ok_but X sv"
  shows "config_wf (sv_cfg sv)" "lm_wf (sv_lm sv)" "registry_wf (sv_reg sv)" "names_ok sv"
    "current n sv = Some r \<Longrightarrow> ns_name (sv_sess sv r) = n"
    "current n sv = Some r \<Longrightarrow> r < sv_next sv"
    "current n sv = Some r \<Longrightarrow> serving sv r \<Longrightarrow> in_force (sv_cfg sv) n (sv_sess sv r)"
    "holder sv p = Some n \<Longrightarrow> owner (sv_cfg sv) p = Some n"
    "holder sv p = Some n \<Longrightarrow> current n sv \<noteq> None"
    "owner (sv_cfg sv) p = Some n \<Longrightarrow> n \<notin> X \<Longrightarrow> current n sv = Some r \<Longrightarrow> serving sv r \<Longrightarrow> holder sv p = Some n"
  using assms unfolding server_ok_defs names_ok_def by blast+

lemma server_ok_new: "config_wf cfg \<Longrightarrow> server_ok_but X (newServer cfg)"
  by (simp add: server_ok_defs newServer_def lm_wf_new registry_wf_newRegistry names_ok_def)
    (simp add: Get_def newRegistry_def holder_of_def newListenerManager_def)

text \<open>An operation that leaves the registry, the configuration and the listeners' owners alone and
  changes no attribute of a session that the invariant reads.\<close>

lemma server_ok_quiet:
  assumes ok: "server_ok_but X sv"
    and same: "sv_cfg sv' = sv_cfg sv" "live (sv_reg sv') = live (sv_reg sv)" "sv_next sv' = sv_next sv"
      "\<And>p. holder sv' p = holder sv p"
      "\<And>r. ns_name (sv_sess sv' r) = ns_name (sv_sess sv r)"
      "\<And>r. ns_cfg (sv_sess sv' r) = ns_cfg (sv_sess sv r)"
      "\<And>r. ns_queue_timeout (sv_sess sv' r) = ns_queue_timeout (sv_sess sv r)"
    and wf: "registry_wf (sv_reg sv')" "lm_wf (sv_lm sv')"
    and quiet: "\<And>r. serving sv' r \<Longrightarrow> serving sv r"
  shows "server_ok_but X sv'"
proof -
  have g: "current n sv' = current n sv" for n using same(2) by (simp add: Get_def)
  have f: "in_force c n (sv_sess sv' r) = in_force c n (sv_sess sv r)" for c n r
    using same(6,7) by (simp add: in_force_def split: option.split)
  show ?thesis
    by (rule server_okI; (unfold g f same(1,3-5))?)
      (use server_okD [OF ok] wf quiet in \<open>blast+\<close>)
qed

text \<open>An operation that touches only sessions that no node holds.\<close>

lemma server_ok_frame:
  assumes ok: "server_ok_but X sv"
    and same: "sv_cfg sv' = sv_cfg sv" "\<And>n. current n sv' = current n sv" "\<And>p. holder sv' p = holder sv p"
      "\<And>n r. current n sv = Some r \<Longrightarrow> sv_sess sv' r = sv_sess sv r" "sv_next sv \<le> sv_next sv'"
    and wf: "registry_wf (sv_reg sv')" "lm_wf (sv_lm sv')"
  shows "server_ok_but X sv'"
proof (rule server_okI; (unfold same(1-3))?)
  fix n r assume n: "current n sv = Some r"
  show "ns_name (sv_sess sv' r) = n \<and> r < sv_next sv'"
    using server_okD(5,6) [OF ok n] same(4) [OF n] same(5) by simp
  assume s: "serving sv' r"
  then have "serving sv r" using same(4) [OF n] by (simp add: serving_def)
  then show "in_force (sv_cfg sv) n (sv_sess sv' r)"
    using server_okD(7) [OF ok n] same(4) [OF n] by simp
  show "holder sv p = Some n" if "owner (sv_cfg sv) p = Some n" "n \<notin> X" for p
    using server_okD(10) [OF ok that n] \<open>serving sv r\<close> .
qed (use server_okD(1,8,9) [OF ok] wf in \<open>blast+\<close>)

lemma registry_wf_Stats: "registry_wf r \<Longrightarrow> registry_wf (Stats n r)"
  by (simp add: registry_wf_def Stats_def split: option.split)

lemma Touch_attributes [server_simps, simp]:
  "ns_name (Touch t d s) = ns_name s" "ns_id (Touch t d s) = ns_id s" "ns_done (Touch t d s) = ns_done s"
  "ns_draining (Touch t d s) = ns_draining s" "ns_cfg (Touch t d s) = ns_cfg s"
  "ns_queue_timeout (Touch t d s) = ns_queue_timeout s"
  by (simp_all add: Touch_def Let_def)

lemma SetClientStats_attributes [server_simps, simp]:
  "ns_name (SetClientStats c s) = ns_name s" "ns_done (SetClientStats c s) = ns_done s"
  "ns_draining (SetClientStats c s) = ns_draining s" "ns_cfg (SetClientStats c s) = ns_cfg s"
  "ns_queue_timeout (SetClientStats c s) = ns_queue_timeout s"
  by (simp_all add: SetClientStats_def)

lemma channel_attributes [server_simps, simp]:
  "ns_name (AddChannel c s) = ns_name s" "ns_done (AddChannel c s) = ns_done s"
  "ns_draining (AddChannel c s) = ns_draining s" "ns_cfg (AddChannel c s) = ns_cfg s"
  "ns_queue_timeout (AddChannel c s) = ns_queue_timeout s" "ns_id (AddChannel c s) = ns_id s"
  "ns_name (RemoveChannel c s) = ns_name s" "ns_done (RemoveChannel c s) = ns_done s"
  "ns_draining (RemoveChannel c s) = ns_draining s" "ns_cfg (RemoveChannel c s) = ns_cfg s"
  "ns_queue_timeout (RemoveChannel c s) = ns_queue_timeout s" "ns_id (RemoveChannel c s) = ns_id s"
  "ns_name (snd (new_channel i s)) = ns_name s" "ns_done (snd (new_channel i s)) = ns_done s"
  "ns_draining (snd (new_channel i s)) = ns_draining s" "ns_cfg (snd (new_channel i s)) = ns_cfg s"
  "ns_queue_timeout (snd (new_channel i s)) = ns_queue_timeout s"
  "ns_name (snd (NextChannelID s)) = ns_name s" "ns_done (snd (NextChannelID s)) = ns_done s"
  "ns_draining (snd (NextChannelID s)) = ns_draining s" "ns_cfg (snd (NextChannelID s)) = ns_cfg s"
  "ns_queue_timeout (snd (NextChannelID s)) = ns_queue_timeout s" "ns_id (snd (NextChannelID s)) = ns_id s"
  by (simp_all add: AddChannel_def setup_attributes RemoveChannel_def DataChannel_Close_def
      new_channel_def NextChannelID_def)

lemma with_stats_live [simp]: "live (with_stats n f r) = live r"
  by (simp add: with_stats_def Let_def Stats_def split: option.split)

lemma touch_ok: "server_ok_but X sv \<Longrightarrow> server_ok_but X (upd_sess r (Touch now d) sv)"
  by (frule server_okD(2), frule server_okD(3), erule server_ok_quiet)
    (simp_all add: serving_def split: if_splits)

lemma send_ok: "server_ok_but X sv \<Longrightarrow> server_ok_but X (SendControl r m sv)"
  by (frule server_okD(2), frule server_okD(3), erule server_ok_quiet) (simp_all add: serving_def)

lemma client_stats_ok:
  assumes ok: "server_ok_but X sv"
  shows "server_ok_but X (upd_sess r (SetClientStats cs) sv\<lparr>sv_reg := with_stats n f (sv_reg sv)\<rparr>)"
  using ok by (rule server_ok_quiet)
    (use server_okD(2,3) [OF ok] in \<open>auto simp: serving_def registry_wf_with_stats split: if_splits\<close>)

lemma server_message_ok: "server_ok_but X sv \<Longrightarrow> server_ok_but X (snd (server_message r now msg sv))"
  using client_stats_ok [OF touch_ok]
  by (simp add: server_message_def Let_def touch_ok send_ok split: option.split)

lemma close_session_ok: "server_ok_but X sv \<Longrightarrow> server_ok_but X (close_session r why sv)"
  by (frule server_okD(2), frule server_okD(3), erule server_ok_quiet)
    (simp_all add: serving_def split: if_splits)

lemma ping_tick_ok: "server_ok_but X sv \<Longrightarrow> server_ok_but X (snd (ping_tick r now nonce we interval sv))"
  by (simp add: ping_tick_def Let_def close_session_ok send_ok split: option.split)

lemma data_accept_ok:
  assumes ok: "server_ok_but X sv"
  shows "server_ok_but X (snd (data_accept spec hello sv))"
  using ok by (rule server_ok_quiet)
    (use server_okD(2,3) [OF ok] in \<open>auto simp: data_accept_def serving_def NextChannelID_def
      split: option.splits if_splits\<close>)

lemma data_up_ok:
  assumes ok: "server_ok_but X sv"
  shows "server_ok_but X (snd (data_up r i sv))"
  using ok by (rule server_ok_quiet)
    (use server_okD(2,3) [OF ok] in \<open>auto simp: data_up_def serving_def split_beta split: if_splits\<close>)

lemma serveData_ok:
  assumes ok: "server_ok_but X sv"
  shows "server_ok_but X (snd (serveData spec hello outcome sv))"
proof -
  obtain x sv1 where a: "data_accept spec hello sv = (x, sv1)" by fastforce
  then have ok1: "server_ok_but X sv1" using data_accept_ok [OF ok, of spec hello] by simp
  show ?thesis
  proof (cases x)
    case (Inl e)
    with a ok1 show ?thesis by (simp add: serveData_def)
  next
    case (Inr rw)
    with a ok1 data_up_ok [OF ok1] show ?thesis
      by (cases rw) (simp add: serveData_def split_beta split: data_setup.split)
  qed
qed

lemma data_down_ok: "server_ok_but X sv \<Longrightarrow> server_ok_but X (data_down r c sv)"
  unfolding data_down_def
  by (frule server_okD(2), frule server_okD(3), erule server_ok_quiet)
    (simp_all add: serving_def split: if_splits)

lemma listener_run_ok: "server_ok_but X sv \<Longrightarrow> server_ok_but X (upd_lm (lm_run r e) sv)"
  by (frule server_okD(2), frule server_okD(3), erule server_ok_quiet)
    (simp_all add: serving_def lm_wf_run holder_of_def)

lemma sample_tick_ok: "server_ok_but X sv \<Longrightarrow> server_ok_but X (sample_tick per_second now sv)"
proof -
  have one: "server_ok_but X (sv\<lparr>sv_reg := with_stats n f (sv_reg sv)\<rparr>)" if "server_ok_but X sv" for sv n f
    using that by (rule server_ok_quiet)
      (use server_okD(2,3) [OF that] in \<open>simp_all add: serving_def registry_wf_with_stats\<close>)
  have "server_ok_but X (fold (\<lambda>r sv. sv\<lparr>sv_reg := with_stats (ns_name (sv_sess sv r)) f (sv_reg sv)\<rparr>) rs sv)"
    if "server_ok_but X sv" for rs sv f
    using that by (induction rs arbitrary: sv) (simp_all add: one)
  then show "server_ok_but X sv \<Longrightarrow> server_ok_but X (sample_tick per_second now sv)" by (simp add: sample_tick_def)
qed

text \<open>Stopping the listeners of a node that serves nothing, or that is spared.\<close>

lemma stop_node_ok:
  assumes ok: "server_ok_but X sv" and "\<And>r. n \<notin> X \<Longrightarrow> current n sv = Some r \<Longrightarrow> \<not> serving sv r"
  shows "server_ok_but X (stop_node n g sv)"
proof (rule server_okI)
  have h: "holder_of (StopNode n g (sv_lm sv)) p = (if holder sv p = Some n then None else holder sv p)" for p
    using server_okD(2) [OF ok] by (simp add: holder_StopNode)
  have s: "serving (stop_node n g sv) r = serving sv r" for r by (simp add: serving_def)
  show "owner (sv_cfg (stop_node n g sv)) p = Some m \<and> current m (stop_node n g sv) \<noteq> None"
    if "holder (stop_node n g sv) p = Some m" for p m
    using that server_okD(8,9) [OF ok] by (auto simp: h split: if_splits)
  show "holder (stop_node n g sv) p = Some m"
    if "owner (sv_cfg (stop_node n g sv)) p = Some m" "m \<notin> X" "current m (stop_node n g sv) = Some r"
      "serving (stop_node n g sv) r" for p m r
    using that server_okD(10) [OF ok, of p m r] assms(2) by (auto simp: h s)
  show "in_force (sv_cfg (stop_node n g sv)) m (sv_sess (stop_node n g sv) r)"
    if "current m (stop_node n g sv) = Some r" "serving (stop_node n g sv) r" for m r
    using that server_okD(7) [OF ok, of m r] by (simp add: s)
  show "ns_name (sv_sess (stop_node n g sv) r) = m \<and> r < sv_next (stop_node n g sv)"
    if "current m (stop_node n g sv) = Some r" for m r
    using that server_okD(5,6) [OF ok, of m r] by simp
qed (use server_okD(1-3) [OF ok] in \<open>simp_all add: lm_wf_StopNode\<close>)

text \<open>The end of a drain stops the listeners by the name of the node: a session of that name that is
  not the drained one loses them.\<close>

definition late_drain :: "sref \<Rightarrow> server \<Rightarrow> bool" where
  "late_drain r sv \<longleftrightarrow> current (ns_name (sv_sess sv r)) sv \<notin> {Some r, None}"

lemma drain_finish_ok:
  assumes "server_ok_but X sv"
  shows "server_ok_but (if late_drain r sv then insert (ns_name (sv_sess sv r)) X else X) (drain_finish r why sv)"
    (is "server_ok_but ?Y _")
proof -
  let ?n = "ns_name (sv_sess sv r)"
  let ?s1 = "close_session r why (SendControl r (zero_message\<lparr>m_type := TypeBye, m_reason := why\<rparr>)
      (sv\<lparr>sv_drains := remove1 (r, why) (sv_drains sv)\<rparr>))"
  have "server_ok_but X (sv\<lparr>sv_drains := d\<rparr>)" for d
    using assms by (rule server_ok_quiet)
      (use server_okD(2,3) [OF assms] in \<open>simp_all add: serving_def\<close>)
  then have "server_ok_but X ?s1" by (intro close_session_ok send_ok)
  then have ok: "server_ok_but ?Y ?s1" by (rule server_ok_but_mono) auto
  have "server_ok_but ?Y (stop_node ?n False ?s1)"
    using ok by (rule stop_node_ok) (auto simp: late_drain_def serving_def split: if_splits)
  moreover have "drain_finish r why sv = stop_node ?n False ?s1"
    by (simp add: drain_finish_def stop_node_def upd_lm_def close_session_def upd_sess_def SendControl_def)
  ultimately show ?thesis by simp
qed

lemma serveControl_end_ok:
  assumes "server_ok_but X sv" "current (ns_name (sv_sess sv r)) sv = Some r"
  shows "server_ok_but (X - {ns_name (sv_sess sv r)}) (serveControl_end r why now sv)"
proof -
  let ?n = "ns_name (sv_sess sv r)"
  define s1 where "s1 = control_offline r why now (stop_node ?n False sv)"
  have reg: "sv_reg s1 = Unregister r ?n why now (sv_reg sv)" "sv_lm s1 = StopNode ?n False (sv_lm sv)"
    "sv_cfg s1 = sv_cfg sv" "sv_sess s1 = sv_sess sv" "sv_next s1 = sv_next sv"
    by (simp_all add: s1_def control_offline_def)
  have cur: "current m s1 = (if m = ?n then None else current m sv)" for m
    using assms(2) by (simp add: reg Get_Unregister)
  have wf: "lm_wf (sv_lm sv)" using assms(1) by (simp add: server_ok_but_def base_ok_def)
  have h: "holder s1 p = (if holder sv p = Some ?n then None else holder sv p)" for p
    by (simp add: reg holder_StopNode [OF wf])
  have "server_ok_but (X - {?n}) s1"
  proof (rule server_okI)
    show "owner (sv_cfg s1) p = Some n \<and> current n s1 \<noteq> None" if "holder s1 p = Some n" for p n
      using that server_okD(8,9) [OF assms(1), of p n] by (auto simp: h cur reg(3) split: if_splits)
    show "holder s1 p = Some n" if "owner (sv_cfg s1) p = Some n" "n \<notin> X - {?n}" "current n s1 = Some r'" "serving s1 r'" for p n r'
      using that server_okD(10) [OF assms(1), of p n r'] by (auto simp: h cur reg(3,4) serving_def split: if_splits)
    show "in_force (sv_cfg s1) n (sv_sess s1 r')" if "current n s1 = Some r'" "serving s1 r'" for n r'
      using that server_okD(7) [OF assms(1), of n r'] by (auto simp: cur reg(3,4) serving_def split: if_splits)
    show "ns_name (sv_sess s1 r') = n \<and> r' < sv_next s1" if "current n s1 = Some r'" for n r'
      using that server_okD(5,6) [OF assms(1), of n r'] by (auto simp: cur reg(4,5) split: if_splits)
  qed (use server_okD(1-3) [OF assms(1)] in \<open>simp_all add: reg lm_wf_StopNode registry_wf_Unregister\<close>)
  then show ?thesis
    by (simp add: serveControl_end_def s1_def [symmetric] close_session_ok)
qed

text \<open>A control channel comes up: the new session, its registration and its listeners.\<close>

lemma control_prepare_ok:
  assumes ok: "server_ok_but X sv"
  shows "server_ok_but X (snd (control_prepare spec sid now sv))"
proof (cases "Config_NodeConfig (sv_cfg sv) (ns_spec_name spec)")
  case None
  with ok show ?thesis by (simp add: control_prepare_def)
next
  case (Some nc)
  show ?thesis
    using ok by (rule server_ok_frame)
      (use server_okD(2,3) [OF ok] server_okD(6) [OF ok] Some in
        \<open>auto simp: control_prepare_def registry_wf_Stats\<close>)
qed

lemma control_prepared:
  assumes "control_prepare spec sid now sv = (Inr r, sv1)"
  obtains nc where "Config_NodeConfig (sv_cfg sv) (ns_spec_name spec) = Some nc" "r = sv_next sv" "sv_cfg sv1 = sv_cfg sv"
    "sv_sess sv1 r =
       newNodeSession (ns_spec_name spec) sid nc (st_queue_timeout (cfg_settings (sv_cfg sv))) now"
    "sv_lm sv1 = sv_lm sv" "\<And>n. current n sv1 = current n sv" "sv_next sv1 = Suc r"
  using assms by (auto simp: control_prepare_def split: option.splits)

lemma newNodeSession_attributes [simp]:
  "ns_name (newNodeSession n sid nc qt now) = n" "ns_cfg (newNodeSession n sid nc qt now) = nc"
  "ns_queue_timeout (newNodeSession n sid nc qt now) = qt" "ns_id (newNodeSession n sid nc qt now) = sid"
  "\<not> ns_done (newNodeSession n sid nc qt now)" "\<not> ns_draining (newNodeSession n sid nc qt now)"
  by (simp_all add: newNodeSession_def)

lemma control_register_cases:
  "control_register r sv =
     (if current (ns_name (sv_sess sv r)) sv \<noteq> None
      then (Some (reject CodeNodeBusy ''node %s already has a control channel'' [ns_name (sv_sess sv r)]), sv)
      else (None, sv\<lparr>sv_reg := snd (Register r (ns_name (sv_sess sv r)) (ns_connected_at (sv_sess sv r)) (sv_reg sv))\<rparr>))"
  by (simp add: control_register_def Register_def Get_def)

text \<open>A welcome that cannot be written undoes the registration.\<close>

lemma welcome_failed_ok:
  fixes sv r
  defines "n \<equiv> ns_name (sv_sess sv r)"
  assumes ok: "server_ok_but X sv" and free: "current n sv = None"
  shows "server_ok_but X (snd (control_welcome r (Some e) now (snd (control_register r sv))))"
proof -
  let ?s = "control_offline r (''welcome write failed: '' @ e) now (snd (control_register r sv))"
  have "server_ok_but X ?s"
    using ok by (rule server_ok_frame)
      (use server_okD(2,3) [OF ok] free in \<open>auto simp: control_offline_def control_register_cases Get_Unregister
         Get_Register n_def registry_wf_Unregister registry_wf_Register\<close>)
  then show ?thesis by (simp add: control_welcome_def close_session_ok)
qed

text \<open>Otherwise the node's listeners start.\<close>

lemma welcome_ok:
  fixes sv r now n s3
  defines "n \<equiv> ns_name (sv_sess sv r)"
    and "s3 \<equiv> start_node (ns_name (sv_sess sv r)) (snd (control_welcome r None now (snd (control_register r sv))))"
  assumes ok: "server_ok_but X sv" and free: "current n sv = None"
    and new: "in_force (sv_cfg sv) n (sv_sess sv r)" "r < sv_next sv"
  shows "server_ok_but X s3"
proof -
  have s3: "sv_cfg s3 = sv_cfg sv" "sv_sess s3 = sv_sess sv" "sv_next s3 = sv_next sv"
    and cur: "current m s3 = (if m = n then Some r else current m sv)" for m
    using free by (simp_all add: s3_def start_node_def control_welcome_def control_register_cases n_def Get_Register)
  have wf: "registry_wf (sv_reg s3)" "lm_wf (sv_lm s3)"
    using free server_okD(2,3) [OF ok]
    by (simp_all add: s3_def start_node_def control_welcome_def control_register_cases n_def
        registry_wf_Register lm_wf_StartNode)
  have "ports_wf (sv_cfg sv)" using server_okD(1) [OF ok] by (simp add: config_wf_def)
  moreover have "owned_by (sv_cfg sv) n p \<noteq> None \<longleftrightarrow> owner (sv_cfg sv) p = Some n" for p
    by (auto simp: owner_def owned_by_def split: option.split)
  ultimately have h: "holder s3 p = (if owner (sv_cfg sv) p = Some n then Some n else holder sv p)" for p
    using free server_okD(2) [OF ok]
    by (simp add: s3_def start_node_def control_welcome_def control_register_cases n_def Get_Register
        online_def holder_StartNode)
  show ?thesis
  proof (rule server_okI; (unfold s3 cur h)?)
    fix m q assume c: "(if m = n then Some r else current m sv) = Some q"
    show "ns_name (sv_sess sv q) = m \<and> q < sv_next sv"
      using c new(2) server_okD(5,6) [OF ok, of m q] by (auto simp: n_def split: if_splits)
    assume "serving s3 q"
    then have s: "serving sv q" by (simp add: serving_def s3)
    show "in_force (sv_cfg sv) m (sv_sess sv q)"
      using c s new(1) server_okD(7) [OF ok, of m q] by (auto split: if_splits)
    show "(if owner (sv_cfg sv) p = Some n then Some n else holder sv p) = Some m"
      if "owner (sv_cfg sv) p = Some m" "m \<notin> X" for p
      using that c s server_okD(10) [OF ok that, of q] by (auto split: if_splits)
  next
    fix p m assume "(if owner (sv_cfg sv) p = Some n then Some n else holder sv p) = Some m"
    then show "owner (sv_cfg sv) p = Some m \<and> (if m = n then Some r else current m sv) \<noteq> None"
      using server_okD(8,9) [OF ok, of p m] by (auto split: if_splits)
  qed (use server_okD(1) [OF ok] wf in simp_all)
qed

lemma serveControl_start_ok:
  assumes ok: "server_ok_but X sv"
  shows "server_ok_but X (snd (serveControl_start spec sid we now sv))"
proof -
  obtain x sv1 where p: "control_prepare spec sid now sv = (x, sv1)" by fastforce
  have ok1: "server_ok_but X sv1" using control_prepare_ok [OF ok, of spec sid now] p by simp
  show ?thesis
  proof (cases x)
    case (Inl a)
    with p ok1 show ?thesis by (simp add: serveControl_start_def)
  next
    case (Inr r)
    let ?n = "ns_spec_name spec"
    from p Inr obtain nc where nc: "Config_NodeConfig (sv_cfg sv) ?n = Some nc" "r = sv_next sv" "sv_cfg sv1 = sv_cfg sv"
      "sv_sess sv1 r = newNodeSession ?n sid nc (st_queue_timeout (cfg_settings (sv_cfg sv))) now"
      "sv_next sv1 = Suc r" by (auto elim: control_prepared)
    then have name: "ns_name (sv_sess sv1 r) = ?n" by simp
    show ?thesis
    proof (cases "current ?n sv1 = None")
      case False
      with p Inr ok1 name show ?thesis by (auto simp: serveControl_start_def control_register_cases)
    next
      case free: True
      then have reg: "control_register r sv1 = (None, snd (control_register r sv1))"
        by (simp add: control_register_cases name)
      show ?thesis
      proof (cases we)
        case (Some e)
        have "server_ok_but X (snd (control_welcome r (Some e) now (snd (control_register r sv1))))"
          using ok1 free by (simp add: welcome_failed_ok name)
        with p Inr Some show ?thesis
          by (simp add: serveControl_start_def) (subst reg, simp add: control_welcome_def)
      next
        case None
        have "in_force (sv_cfg sv1) ?n (sv_sess sv1 r)"
          using nc by (simp add: in_force_def)
        then have "server_ok_but X (start_node ?n (snd (control_welcome r None now (snd (control_register r sv1)))))"
          using welcome_ok [OF ok1, of r now] free nc(5) by (simp add: name)
        with p Inr None show ?thesis
          by (simp add: serveControl_start_def) (subst reg, simp add: control_welcome_def)
      qed
    qed
  qed
qed

section \<open>Any sequence of handlers\<close>

datatype server_op =
    OpControl NodeSpec string "string option" time
  | OpControlEnd sref string time
  | OpMessage sref time message
  | OpPing sref time string "string option" duration
  | OpData NodeSpec message data_setup
  | OpSample "int \<Rightarrow> duration \<Rightarrow> int" time
  | OpDataDown sref cref
  | OpReload "string \<Rightarrow> bool" time config
  | OpDrainFinish sref string
  | OpListener plref run_event

text \<open>A step refers to sessions that exist. The end of a control channel is a step of the session that
  holds the node, the end of a drain one of a goroutine that \<open>drainNode\<close> has started, whoever holds
  the node by then; a reload applies a configuration that has been loaded.\<close>

fun server_step :: "server_op \<Rightarrow> server \<Rightarrow> server" where
  "server_step (OpControl spec sid we now) sv = snd (serveControl_start spec sid we now sv)"
| "server_step (OpControlEnd r why now) sv =
     (if current (ns_name (sv_sess sv r)) sv = Some r then serveControl_end r why now sv else sv)"
| "server_step (OpMessage r now msg) sv =
     (if r < sv_next sv then snd (server_message r now msg sv) else sv)"
| "server_step (OpPing r now nonce we interval) sv =
     (if r < sv_next sv then snd (ping_tick r now nonce we interval sv) else sv)"
| "server_step (OpData spec hello outcome) sv = snd (serveData spec hello outcome sv)"
| "server_step (OpSample per_second now) sv = sample_tick per_second now sv"
| "server_step (OpDataDown r c) sv = data_down r c sv"
| "server_step (OpReload bind now cfg) sv = (if config_wf cfg then applyReload bind now cfg sv else sv)"
| "server_step (OpDrainFinish r why) sv =
     (if (r, why) \<in> set (sv_drains sv) then drain_finish r why sv else sv)"
| "server_step (OpListener r e) sv = upd_lm (lm_run r e) sv"

text \<open>The nodes whose listeners a late drain has stopped, until their control channel ends.\<close>

fun late_drained_step :: "server_op \<Rightarrow> server \<Rightarrow> string set \<Rightarrow> string set" where
  "late_drained_step (OpDrainFinish r why) sv X =
     (if (r, why) \<in> set (sv_drains sv) \<and> late_drain r sv
      then insert (ns_name (sv_sess sv r)) X else X)"
| "late_drained_step (OpControlEnd r why now) sv X =
     (if current (ns_name (sv_sess sv r)) sv = Some r then X - {ns_name (sv_sess sv r)} else X)"
| "late_drained_step _ sv X = X"

definition tracked_step :: "server_op \<Rightarrow> server \<times> string set \<Rightarrow> server \<times> string set" where
  "tracked_step op st = (server_step op (fst st), late_drained_step op (fst st) (snd st))"

definition late_drained :: "server_op list \<Rightarrow> server \<Rightarrow> string set" where
  "late_drained ops sv = snd (fold tracked_step ops (sv, {}))"

lemma tracked_step_ok:
  "server_ok_but X sv \<Longrightarrow> server_ok_but (late_drained_step op sv X) (server_step op sv)"
proof (cases op)
  case (OpDrainFinish r why)
  then show "server_ok_but X sv \<Longrightarrow> ?thesis" using drain_finish_ok [of X sv r why] by auto
qed (simp_all add: serveControl_start_ok serveControl_end_ok server_message_ok ping_tick_ok serveData_ok
    sample_tick_ok data_down_ok reload_ok listener_run_ok)

interpretation tracked: invariant_system "\<lambda>st. server_ok_but (snd st) (fst st)" tracked_step
  by unfold_locales (simp add: tracked_step_def tracked_step_ok)

lemma tracked_server: "fst (fold tracked_step ops st) = fold server_step ops (fst st)"
  by (induction ops arbitrary: st) (simp_all add: tracked_step_def)

lemma server_run_ok:
  "config_wf cfg \<Longrightarrow> server_ok_but (late_drained ops (newServer cfg)) (fold server_step ops (newServer cfg))"
  using tracked.run_inv [of "(newServer cfg, {})" ops] server_ok_new
  by (simp add: late_drained_def tracked_server)

text \<open>The goroutines of the drains belong to sessions that exist.\<close>

definition drains_known :: "server \<Rightarrow> bool" where
  "drains_known sv \<longleftrightarrow> (\<forall>d \<in> set (sv_drains sv). fst d < sv_next sv)"

definition same_drains :: "server \<Rightarrow> server \<Rightarrow> bool" where
  "same_drains sv sv' \<longleftrightarrow> sv_drains sv' = sv_drains sv \<and> sv_next sv \<le> sv_next sv'"

lemma drains_simps [simp]:
  "sv_drains (upd_sess r f sv) = sv_drains sv" "sv_drains (upd_lm g sv) = sv_drains sv"
  "sv_drains (SendControl r m sv) = sv_drains sv" "sv_drains (setServerConfig c sv) = sv_drains sv"
  "sv_drains (close_session r why sv) = sv_drains sv" "sv_drains (stop_node n gr sv) = sv_drains sv"
  "sv_drains (start_node n sv) = sv_drains sv" "sv_drains (stop_port p sv) = sv_drains sv"
  "sv_drains (start_port c p sv) = sv_drains sv" "sv_drains (force_reconnect n sv) = sv_drains sv"
  "sv_drains (pushConfig n c sv) = sv_drains sv" "sv_drains (rebindEndpoints bind a b sv) = sv_drains sv"
  by (simp_all add: upd_sess_def upd_lm_def SendControl_def setServerConfig_def close_session_def stop_node_def
      start_node_def stop_port_def start_port_def force_reconnect_def pushConfig_def rebindEndpoints_def Let_def
      split: option.split)

lemma drains_folds [simp]:
  "sv_drains (fold force_reconnect ns sv) = sv_drains sv" "sv_drains (fold stop_port ps sv) = sv_drains sv"
  "sv_drains (fold (start_port c) ps sv) = sv_drains sv" "sv_drains (fold (\<lambda>n. pushConfig n c) ns sv) = sv_drains sv"
proof -
  show "sv_drains (fold force_reconnect ns sv) = sv_drains sv" by (induction ns arbitrary: sv) simp_all
  show "sv_drains (fold stop_port ps sv) = sv_drains sv" by (induction ps arbitrary: sv) simp_all
  show "sv_drains (fold (start_port c) ps sv) = sv_drains sv" by (induction ps arbitrary: sv) simp_all
  show "sv_drains (fold (\<lambda>n. pushConfig n c) ns sv) = sv_drains sv" by (induction ns arbitrary: sv) simp_all
qed

lemma drains_reload:
  "d \<in> set (sv_drains (applyReload bind now new sv)) \<Longrightarrow>
     d \<in> set (sv_drains sv) \<or> (\<exists>n. current n sv = Some (fst d))"
proof -
  have "d \<in> set (sv_drains (fold (drainNode g t why) ns sv)) \<Longrightarrow>
      d \<in> set (sv_drains sv) \<or> (\<exists>n. current n sv = Some (fst d))" for g t why ns
    by (induction ns arbitrary: sv) (fastforce simp: drainNode_def Let_def split: option.splits)+
  then show "d \<in> set (sv_drains (applyReload bind now new sv)) \<Longrightarrow>
      d \<in> set (sv_drains sv) \<or> (\<exists>n. current n sv = Some (fst d))"
    unfolding applyReload_general Let_def reload_pushes_fold by (simp add: reload_teardown_def split: if_splits)
qed

lemma drains_known_step:
  assumes ok: "server_ok_but X sv" and known: "drains_known sv"
  shows "drains_known (server_step op sv)"
proof -
  have quiet: "same_drains sv sv' \<Longrightarrow> drains_known sv'" for sv'
    using known by (force simp: same_drains_def drains_known_def)
  have sample: "same_drains sv (sample_tick per_second now sv)" for per_second now
  proof -
    have "sv_drains (fold (\<lambda>r sv. sv\<lparr>sv_reg := with_stats (ns_name (sv_sess sv r)) f (sv_reg sv)\<rparr>) rs sv) = sv_drains sv \<and>
        sv_next (fold (\<lambda>r sv. sv\<lparr>sv_reg := with_stats (ns_name (sv_sess sv r)) f (sv_reg sv)\<rparr>) rs sv) = sv_next sv" for f rs and sv :: server
      by (induction rs arbitrary: sv) simp_all
    then show ?thesis by (simp add: same_drains_def sample_tick_def)
  qed
  have start: "same_drains sv (snd (serveControl_start spec sid we now sv))" for spec sid we now
    by (auto simp: same_drains_def serveControl_start_def control_prepare_def control_register_cases control_welcome_def
        control_offline_def start_node_def upd_lm_def split: option.split prod.split)
  have data: "same_drains sv (snd (serveData spec hello outcome sv))" for spec hello outcome
    by (auto simp: same_drains_def serveData_def data_accept_def data_up_def split_beta
        split: option.split data_setup.split prod.split sum.split)
  show ?thesis
  proof (cases op)
    case (OpReload bind now cfg)
    have "config_wf cfg \<Longrightarrow> sv_next (applyReload bind now cfg sv) = sv_next sv"
      using reload_effect [OF server_okD(2) [OF ok]] by blast
    with OpReload show ?thesis
      using known server_okD(6) [OF ok] by (auto simp: drains_known_def dest: drains_reload)
  next
    case (OpDrainFinish r why)
    then show ?thesis
      using known by (auto simp: drains_known_def drain_finish_def dest: set_remove1_subset [THEN subsetD])
  qed (use known in \<open>auto simp: start data sample intro!: quiet\<close>,
    auto simp: same_drains_def serveControl_end_def control_offline_def server_message_def ping_tick_def data_down_def
      Let_def split: option.split)
qed

interpretation server: invariant_system "\<lambda>sv. server_ok_but UNIV sv \<and> drains_known sv" server_step
  using tracked_step_ok server_ok_but_mono drains_known_step by unfold_locales blast

lemma drains_known_run: "config_wf cfg \<Longrightarrow> drains_known (fold server_step ops (newServer cfg))"
  using server.run_inv [of "newServer cfg" ops] server_ok_new by (simp add: drains_known_def newServer_def)

end
