(* ===== verification/Listener_Refinement.thy ===== *)
theory Listener_Refinement
  imports Listener_Laws
begin

text \<open>
  The manager of internal/server/listener.go against its abstract specification: a map from ports
  to the nodes that hold them, whose operations are map updates. The heap of listeners, their
  accept loops and the two lock holds of \<open>StartPort\<close> refine it (\<open>manager_refines_map\<close>), each operation
  run without interruption; Listener_Account has their interleavings. The second
  part is what the map does not show: an operation leaves the listeners it is not about exactly as
  they are (\<open>runs\<close>).
\<close>

section \<open>The abstract manager\<close>

type_synonym port_holders = "int \<Rightarrow> string option"

fun spec_step :: "lm_op \<Rightarrow> port_holders \<Rightarrow> port_holders" where
  "spec_step (DoStartPort spec online) m =
     (if online then m(ps_port spec := Some (ps_node spec)) else m)"
| "spec_step (DoStartNode cfg node online) m =
     (if online then (\<lambda>p. if owned_by cfg node p \<noteq> None then Some node else m p) else m)"
| "spec_step (DoStopPort port graceful) m = m(port := None)"
| "spec_step (DoStopNode node graceful) m = (\<lambda>p. if m p = Some node then None else m p)"
| "spec_step (DoStopAll graceful) m = (\<lambda>_. None)"
| "spec_step (DoRun r e) m = m"

text \<open>The configurations that a \<open>StartNode\<close> reads have been loaded.\<close>

fun op_wf :: "lm_op \<Rightarrow> bool" where
  "op_wf (DoStartNode cfg node online) \<longleftrightarrow> ports_wf cfg"
| "op_wf _ \<longleftrightarrow> True"

lemma holder_step:
  assumes "lm_wf lm" "op_wf op"
  shows "holder_of (lm_step op lm) = spec_step op (holder_of lm)"
  by (rule ext, cases op)
    (use assms in \<open>auto simp: holder_StartPort holder_StartNode holder_StopPort holder_StopNode\<close>,
      auto simp: holder_of_def StopAll_def)

lemma holder_steps:
  assumes "lm_wf lm" "list_all op_wf ops"
  shows "holder_of (fold lm_step ops lm) = fold spec_step ops (holder_of lm)"
  using assms
proof (induction ops arbitrary: lm)
  case (Cons op ops)
  then show ?case using manager.step_inv [of lm op] by (simp add: holder_step)
qed simp

section \<open>Listeners that an operation is not about\<close>

definition runs :: "listeners \<Rightarrow> int \<Rightarrow> plref \<Rightarrow> port_listener \<Rightarrow> bool" where
  "runs lm p r pl \<longleftrightarrow> map_of (items lm) p = Some r \<and> lm_heap lm r = pl"

lemma runs_holder: "runs lm p r pl \<Longrightarrow> holder_of lm p = Some (pl_node pl)"
  by (auto simp: runs_def holder_of_def)

lemma item_unique:
  "lm_wf lm \<Longrightarrow> map_of (items lm) p = Some r \<Longrightarrow> map_of (items lm) q = Some r \<Longrightarrow> q = p"
  using inj_onD [of snd "set (items lm)" "(p, r)" "(q, r)"]
  by (auto simp: lm_wf_def distinct_map dest!: map_of_SomeD)

lemma runs_StopPort:
  assumes "lm_wf lm" "runs lm p r pl" "p \<noteq> q"
  shows "runs (StopPort q g lm) p r pl"
proof (cases "map_of (items lm) q")
  case (Some s)
  then have "s \<noteq> r" using assms item_unique [of lm p r q] by (auto simp: runs_def)
  with Some assms show ?thesis
    by (simp add: runs_def map_of_StopPort) (simp add: StopPort_def stop_ref_def split_beta)
qed (use assms in \<open>simp add: StopPort_def\<close>)

lemma runs_StopNode:
  assumes "lm_wf lm" "runs lm p r pl" "pl_node pl \<noteq> n"
  shows "runs (StopNode n g lm) p r pl"
proof -
  have d: "distinct (keys (items lm))" using assms(1) by (simp add: lm_wf_def)
  have "map_of (filter (\<lambda>(p, r). pl_node (lm_heap lm r) \<noteq> n) (items lm)) p = Some r"
    using assms(2,3) map_of_filter_items [OF d, of "\<lambda>r. pl_node (lm_heap lm r) \<noteq> n" p] by (simp add: runs_def)
  moreover have "r \<notin> set (map snd (owned_items n lm))"
    using assms(2,3) by (auto simp: owned_items_def runs_def)
  ultimately show ?thesis
    using assms(2) by (simp add: runs_def StopNode_def stop_refs_heap_other)
qed

lemma runs_install:
  assumes "lm_wf lm" "runs lm p r pl" "p \<noteq> ps_port spec"
  shows "runs (start_install spec lm) p r pl"
proof -
  have "(p, r) \<in> set (items lm)" using assms(2) by (auto simp: runs_def dest: map_of_SomeD)
  then have "r < lm_next lm" using assms(1) by (auto simp: lm_wf_def)
  with assms show ?thesis by (simp add: runs_def start_install_def update_conv')
qed

text \<open>A listener of the same node on the port that is started goes on, too.\<close>

lemma runs_StartPort:
  assumes "lm_wf lm" "runs lm p r pl" "p = ps_port spec \<Longrightarrow> pl_node pl = ps_node spec"
  shows "runs (StartPort spec online lm) p r pl"
proof (cases "p = ps_port spec")
  case True
  with assms show ?thesis by (auto simp: StartPort_def start_lookup_def runs_def)
next
  case False
  have "runs (start_install spec (StopPort (ps_port spec) False lm)) p r pl"
    using False assms(1,2) by (intro runs_install runs_StopPort lm_wf_StopPort) simp_all
  moreover have "runs (start_install spec lm) p r pl" using False assms(1,2) by (simp add: runs_install)
  ultimately show ?thesis
    using assms(2) by (auto simp: StartPort_def start_lookup_def split: option.split)
qed

section \<open>Properties\<close>

text \<open>C15: the listener manager refines a map from ports to nodes. Whatever sequence of starts,
  stops and steps of the accept loops is run, the node that holds each port is what the same
  sequence of map updates gives: a start of an online node's port takes the port over, whoever
  had it; a stop of a node releases what it holds and nothing else; the loops change nothing.\<close>

theorem manager_refines_map:
  assumes "list_all op_wf ops"
  shows "holder_of (fold lm_step ops newListenerManager) = fold spec_step ops (\<lambda>_. None)"
proof -
  have "holder_of newListenerManager = (\<lambda>_. None)" by (simp add: holder_of_def newListenerManager_def fun_eq_iff)
  with holder_steps [OF lm_wf_new assms] show ?thesis by simp
qed

theorem manager_refines_map_witness:
  "holder_of (fold lm_step [DoStartPort \<lparr>ps_port = 84, ps_node = ''a'', ps_remote = ''h:1''\<rparr> True,
       DoStartNode sample_config ''c'' True, DoStopNode ''a'' True] newListenerManager) 84 = Some ''c''"
proof -
  have "ports_wf sample_config" using sample_config_wf by (simp add: config_wf_def)
  moreover have "owned_by sample_config ''c'' 84 \<noteq> None"
    by (simp add: owned_by_def sample_config_def)
  ultimately show ?thesis by (subst manager_refines_map) simp_all
qed

end
