(* ===== verification/Reload_Frame.thy ===== *)
theory Reload_Frame
  imports Server_Steps Listener_Refinement
begin

text \<open>
  What a reload does not touch (internal/server/server.go, \<open>applyReload\<close>): the listeners of a port
  that stays with its node, and the data channels of a session whose node stays with its key.
  Each is one invariant of the loops of \<open>applyReload\<close>.
\<close>

section \<open>Listeners\<close>

abbreviation up :: "server \<Rightarrow> int \<Rightarrow> plref \<Rightarrow> port_listener \<Rightarrow> bool" where
  "up sv p r pl \<equiv> lm_wf (sv_lm sv) \<and> runs (sv_lm sv) p r pl"

lemma up_start_port:
  assumes "ports_wf c" "owner c p = Some (pl_node pl)" "up sv p r pl"
  shows "up (start_port c q sv) p r pl"
proof (cases "map_of (cfg_ports c) q")
  case (Some spec)
  then have "ps_port spec = q" using ports_wf_lookup [OF assms(1)] by (simp add: port_ok_def)
  with Some assms(2,3) show ?thesis
    by (auto simp: start_port_def owner_def lm_wf_StartPort intro!: runs_StartPort)
qed (use assms(3) in \<open>simp add: start_port_def\<close>)

text \<open>The part of \<open>applyReload\<close> that acts on listeners.\<close>

lemma reload_lm:
  "sv_lm (applyReload bind now new sv) =
     sv_lm (fold (start_port new) (AddedPorts (DiffConfig (Some (sv_cfg sv)) new))
       (let sv1 = setServerConfig new (reload_teardown (DiffConfig (Some (sv_cfg sv)) new) now sv)
        in if endpoints_changed (sv_cfg sv) new then rebindEndpoints bind (sv_cfg sv) new sv1 else sv1))"
  unfolding applyReload_general Let_def reload_pushes_fold by (simp add: pushes_frame)

lemma up_reload:
  assumes wf: "config_wf (sv_cfg sv)" "config_wf new" and up: "up sv p r pl"
    and owner: "owner (sv_cfg sv) p = Some (pl_node pl)" "owner new p = Some (pl_node pl)"
    and key: "node_key new (pl_node pl) = node_key (sv_cfg sv) (pl_node pl)"
  shows "up (applyReload bind now new sv) p r pl"
proof -
  let ?d = "DiffConfig (Some (sv_cfg sv)) new"
  have "node_key (sv_cfg sv) (pl_node pl) \<noteq> None" using live_node [OF wf(1) owner(1)] .
  with key have node: "pl_node pl \<notin> set (RemovedNodes ?d)" "pl_node pl \<notin> set (KeyChangedNodes ?d)"
    by (auto simp: nodes_diff [OF wf])
  have port: "p \<notin> set (RemovedPorts ?d)"
    using owner by (simp add: set_RemovedPorts)
  have 1: "up (fold (drainNode ShutdownGrace now ''node removed from config'') (RemovedNodes ?d) sv) p r pl"
    by (rule fold_invariant [where Q = "\<lambda>n. n \<noteq> pl_node pl"]) (use node up in \<open>auto simp: lm_wf_StopNode runs_StopNode\<close>)
  have 2: "up (fold force_reconnect (KeyChangedNodes ?d) sv') p r pl" if "up sv' p r pl" for sv'
    by (rule fold_invariant [where Q = "\<lambda>n. n \<noteq> pl_node pl"]) (use node that in \<open>auto simp: lm_wf_StopNode runs_StopNode\<close>)
  have 3: "up (fold stop_port (RemovedPorts ?d) sv') p r pl" if "up sv' p r pl" for sv'
    by (rule fold_invariant [where Q = "\<lambda>q. p \<noteq> q"]) (use port that in \<open>auto simp: lm_wf_StopPort runs_StopPort\<close>)
  have t: "up (reload_teardown ?d now sv) p r pl"
    unfolding reload_teardown_def by (intro 1 2 3)
  have pw: "ports_wf new" using wf(2) by (simp add: config_wf_def)
  have 4: "up (fold (start_port new) qs sv') p r pl" if "up sv' p r pl" for qs sv'
    by (rule fold_invariant [where Q = "\<lambda>_. True"]) (use that up_start_port [OF pw owner(2)] in auto)
  show ?thesis
    unfolding reload_lm Let_def using t by (intro 4) auto
qed

section \<open>Data channels\<close>

definition same_channels :: "node_session \<Rightarrow> node_session \<Rightarrow> bool" where
  "same_channels s s' \<longleftrightarrow>
     ns_channels s' = ns_channels s \<and> ns_next_chan s' = ns_next_chan s \<and>
     (\<forall>c. ch_closed (ns_chans s' c) = ch_closed (ns_chans s c) \<and>
          ch_sess_closed (ns_chans s' c) = ch_sess_closed (ns_chans s c) \<and>
          ch_active (ns_chans s c) \<le> ch_active (ns_chans s' c))"

lemma same_channels_refl [simp]: "same_channels s s"
  by (simp add: same_channels_def)

lemma same_channels_trans: "same_channels s t \<Longrightarrow> same_channels t u \<Longrightarrow> same_channels s u"
  unfolding same_channels_def by (metis order_trans)

lemma same_channels_handoff: "same_channels s (handoffLocked s)"
proof (induction s rule: handoff_induct)
  case (serve s c w ws)
  have "same_channels s (serve_head c (add_active c 1 s))"
    using serve(1) by (simp add: same_channels_def serve_head_def add_active_def)
  then show ?case unfolding serve(5) using serve(6) by (rule same_channels_trans)
qed simp

lemma same_channels_SetConfig: "same_channels s (SetConfig nc qt s)"
  using same_channels_handoff [of "SetConfig_store nc qt s"]
  by (simp add: SetConfig_def same_channels_def SetConfig_store_def)

abbreviation kept :: "server \<Rightarrow> sref \<Rightarrow> server \<Rightarrow> bool" where
  "kept sv r sv' \<equiv> sv_reg sv' = sv_reg sv \<and> same_channels (sv_sess sv r) (sv_sess sv' r)"

lemma kept_push: "kept sv r sv' \<Longrightarrow> kept sv r (pushConfig n c sv')"
  by (auto simp: pushConfig_def intro: same_channels_trans same_channels_SetConfig split: option.split)

lemma kept_reload:
  assumes "\<And>n. current n sv = Some r \<Longrightarrow> n \<notin> set (KeyChangedNodes (DiffConfig (Some (sv_cfg sv)) new))"
  shows "kept sv r (applyReload bind now new sv)"
proof -
  let ?d = "DiffConfig (Some (sv_cfg sv)) new"
  have 1: "kept sv r (fold (drainNode g now why) ns sv)" for g why ns
    by (rule fold_invariant [where Q = "\<lambda>_. True"]) (auto simp: SetDraining_def same_channels_def)
  have 2: "kept sv r (fold force_reconnect (KeyChangedNodes ?d) sv')" if "kept sv r sv'" for sv'
    by (rule fold_invariant [where Q = "\<lambda>n. current n sv \<noteq> Some r"]) (use assms that in auto)
  have 3: "kept sv r (fold stop_port ps sv')" if "kept sv r sv'" for sv' ps
    by (rule fold_invariant [where Q = "\<lambda>_. True"]) (use that in auto)
  have 4: "kept sv r (fold (start_port new) ps sv')" if "kept sv r sv'" for sv' ps
    by (rule fold_invariant [where Q = "\<lambda>_. True"]) (use that in auto)
  have 5: "kept sv r (fold (\<lambda>n. pushConfig n new) ns sv')" if "kept sv r sv'" for sv' ns
    by (rule fold_invariant [where Q = "\<lambda>_. True"]) (use that kept_push in auto)
  have "kept sv r (reload_teardown ?d now sv)"
    unfolding reload_teardown_def by (intro 1 2 3)
  then show ?thesis
    unfolding applyReload_general Let_def reload_pushes_fold by (intro 4 5) auto
qed

end
