(* ===== verification/Server_Properties.thy ===== *)
theory Server_Properties
  imports Reload_Frame
begin

text \<open>
  What the server of internal/server/server.go guarantees, and where the interleaving of two of
  its goroutines breaks it.
\<close>

section \<open>Sample runs\<close>

text \<open>A node of the sample configuration and its control channel coming up.\<close>

definition sample_spec :: NodeSpec where
  "sample_spec = \<lparr>ns_spec_name = ''a'', ns_spec_key = ''k'', ns_spec_channels = 2\<rparr>"

definition other_spec :: NodeSpec where
  "other_spec = \<lparr>ns_spec_name = ''c'', ns_spec_key = ''l'', ns_spec_channels = 2\<rparr>"

definition sample_server :: server where
  "sample_server = fold server_step [OpControl sample_spec ''s'' None 0, OpControl other_spec ''t'' None 0]
     (newServer sample_config)"

lemma sample_late: "late_drained [OpControl sample_spec ''s'' None 0, OpControl other_spec ''t'' None 0] sv = {}"
  by (simp add: late_drained_def tracked_step_def)

lemma sample_server_ok: "server_ok sample_server"
  using server_run_ok [OF sample_config_wf, of "[OpControl sample_spec ''s'' None 0, OpControl other_spec ''t'' None 0]"]
  by (simp only: sample_late sample_server_def)

text \<open>The sample configuration with another key for one node.\<close>

definition rekeyed_config :: config where
  "rekeyed_config = sample_config\<lparr>cfg_nodes :=
     [(''a'', sample_spec), (''c'', other_spec\<lparr>ns_spec_key := ''m''\<rparr>)]\<rparr>"

lemma rekeyed_config_wf: "config_wf rekeyed_config"
  by code_simp

section \<open>The entry point\<close>

lemma authenticate_iff:
  assumes "config_wf cfg"
  shows "authenticate cfg m = Inr spec \<longleftrightarrow>
    m_key m \<noteq> '''' \<and> ns_spec_key spec = m_key m \<and> map_of (cfg_nodes cfg) (ns_spec_name spec) = Some spec \<and>
    (m_node m = '''' \<or> m_node m = ns_spec_name spec)"
proof -
  have wf: "nodes_wf cfg" using assms by (simp add: config_wf_def)
  have name: "ns_spec_name spec = n" if "map_of (cfg_nodes cfg) n = Some spec" for n
    using nodes_wf_lookup [OF wf that] by (simp add: spec_ok_def)
  show ?thesis
    using NodeByKey_iff [OF wf, of "m_key m" spec] name [of "m_node m"]
    by (auto simp: authenticate_def split: option.splits)
qed

lemma handleWS_control:
  "handleWS cfg (Inr msg) = ServeControl spec \<Longrightarrow> authenticate cfg msg = Inr spec"
  by (auto simp: handleWS_def reject_def split: sum.splits if_splits)

lemma served_with_its_key:
  assumes "config_wf cfg" "handleWS cfg (Inr msg) = ServeControl spec"
  shows "node_key cfg (ns_spec_name spec) = Some (m_key msg)"
  using handleWS_control [OF assms(2)] by (simp add: authenticate_iff [OF assms(1)] node_key_def)

text \<open>C9: only the holder of a node's key is served as that node, and every holder is. A
  connection becomes a control or a data channel of a node exactly when its first message is a
  hello for that role with the node's own, non-empty key, and names that node or no node at all;
  whatever the other nodes of a loaded configuration are.\<close>

theorem served_iff_key:
  assumes "config_wf cfg"
  shows "(handleWS cfg hello = ServeControl spec \<longleftrightarrow>
      (\<exists>msg. hello = Inr msg \<and> m_type msg = TypeHello \<and> m_role msg = RoleControl \<and> m_key msg \<noteq> '''' \<and>
         ns_spec_key spec = m_key msg \<and> map_of (cfg_nodes cfg) (ns_spec_name spec) = Some spec \<and>
         (m_node msg = '''' \<or> m_node msg = ns_spec_name spec))) \<and>
    (handleWS cfg hello = ServeData spec msg \<longleftrightarrow>
      hello = Inr msg \<and> m_type msg = TypeHello \<and> m_role msg = RoleData \<and> m_key msg \<noteq> '''' \<and>
         ns_spec_key spec = m_key msg \<and> map_of (cfg_nodes cfg) (ns_spec_name spec) = Some spec \<and>
         (m_node msg = '''' \<or> m_node msg = ns_spec_name spec))"
proof -
  note auth = authenticate_iff [OF assms, of _ spec]
  have roles: "RoleData \<noteq> RoleControl" by simp
  show ?thesis
  proof (cases hello)
    case (Inr m)
    then show ?thesis
      using auth [of m] roles
      by (cases "authenticate cfg m") (auto simp: handleWS_def reject_def)
  qed (simp add: handleWS_def)
qed

theorem served_iff_key_witness:
  "handleWS sample_config (Inr (zero_message\<lparr>m_type := TypeHello, m_role := RoleData, m_key := ''l''\<rparr>)) =
     ServeData \<lparr>ns_spec_name = ''c'', ns_spec_key = ''l'', ns_spec_channels = 2\<rparr>
       (zero_message\<lparr>m_type := TypeHello, m_role := RoleData, m_key := ''l''\<rparr>)"
  using served_iff_key [OF sample_config_wf]
  by (simp add: zero_message_def sample_config_def)

text \<open>C23: a data channel joins only the session its node has now. It is accepted exactly when the
  node is online, the hello carries the id of that session and the set-up of the channel succeeds
  (\<open>SetupDone\<close>); then it gets a fresh channel id and is in the session's pool. In every other case the connection is refused with an error and no
  session's pool changes.\<close>

theorem data_channel_of_current_session:
  "case serveData spec hello outcome sv of
     (Inr (r, c), sv') \<Rightarrow>
       outcome = SetupDone \<and> current (ns_spec_name spec) sv = Some r \<and>
       m_session hello \<noteq> '''' \<and> m_session hello = ns_id (sv_sess sv r) \<and>
       ns_chan_seq (sv_sess sv' r) = ns_chan_seq (sv_sess sv r) + 1 \<and>
       ns_channels (sv_sess sv' r) =
         AList.update (ns_chan_seq (sv_sess sv r) + 1) (ns_next_chan (sv_sess sv r)) (ns_channels (sv_sess sv r)) \<and>
       c = ns_next_chan (sv_sess sv r) \<and> (\<forall>q. q \<noteq> r \<longrightarrow> sv_sess sv' q = sv_sess sv q)
   | (Inl a, sv') \<Rightarrow>
       (outcome \<noteq> SetupDone \<or> current (ns_spec_name spec) sv = None \<or> m_session hello = '''' \<or>
        (\<exists>r. current (ns_spec_name spec) sv = Some r \<and> m_session hello \<noteq> ns_id (sv_sess sv r))) \<and>
       (outcome = SetupDone \<longrightarrow> a = Reject CodeBadSession ''session is unknown or superseded'' []) \<and>
       (\<forall>q. ns_channels (sv_sess sv' q) = ns_channels (sv_sess sv q))"
proof (cases "current (ns_spec_name spec) sv")
  case None
  then show ?thesis by (simp add: serveData_def data_accept_def reject_def)
next
  case (Some r)
  show ?thesis
  proof (cases "m_session hello = '''' \<or> m_session hello \<noteq> ns_id (sv_sess sv r)")
    case True
    with Some show ?thesis by (auto simp: serveData_def data_accept_def reject_def)
  next
    case False
    note h = handoff_setup [unfolded same_setup_def]
    from False Some show ?thesis
      by (cases outcome)
        (simp_all add: serveData_def data_accept_def NextChannelID_def data_up_def new_channel_def
          AddChannel_def h zero_channel_def zero_message_def reject_def)
  qed
qed

theorem data_channel_of_current_session_witness:
  "fst (serveData sample_spec (zero_message\<lparr>m_session := ''s''\<rparr>) SetupDone (newServer sample_config)) =
     Inl (Reject CodeBadSession ''session is unknown or superseded'' [])"
proof -
  have "current ''a'' (newServer sample_config) = None"
    by (simp add: newServer_def newRegistry_def Get_def)
  then show ?thesis
    by (cases "fst (serveData sample_spec (zero_message\<lparr>m_session := ''s''\<rparr>) SetupDone (newServer sample_config))")
      (use data_channel_of_current_session [where spec = sample_spec and
        hello = "zero_message\<lparr>m_session := ''s''\<rparr>" and outcome = SetupDone and sv = "newServer sample_config"]
    in \<open>auto simp: sample_spec_def split: sum.splits prod.splits\<close>)
qed

section \<open>A control channel comes up\<close>

lemma serveControl_start_up:
  fixes spec sid now sv
  defines "n \<equiv> ns_spec_name spec" and "r \<equiv> sv_next sv"
    and "sv' \<equiv> snd (serveControl_start spec sid None now sv)"
  assumes ok: "server_ok_but X sv" and nc: "Config_NodeConfig (sv_cfg sv) (ns_spec_name spec) = Some nc"
    and free: "current (ns_spec_name spec) sv = None"
  shows "fst (serveControl_start spec sid None now sv) = Inr r \<and>
    current m sv' = (if m = n then Some r else current m sv) \<and>
    holder sv' p = (if owner (sv_cfg sv) p = Some n then Some n else holder sv p) \<and>
    sv_sess sv' = (sv_sess sv)(r := newNodeSession n sid nc (st_queue_timeout (cfg_settings (sv_cfg sv))) now) \<and>
    sv_sent sv' = sv_sent sv @ [(r, zero_message\<lparr>m_type := TypeWelcome, m_session := sid,
      m_heartbeat := Heartbeat nc, m_channels := Channels nc, m_config := Some nc\<rparr>)] \<and>
    sv_cfg sv' = sv_cfg sv"
proof -
  have "ports_wf (sv_cfg sv)" using server_okD(1) [OF ok] by (simp add: config_wf_def)
  moreover have "owned_by (sv_cfg sv) n p \<noteq> None \<longleftrightarrow> owner (sv_cfg sv) p = Some n"
    by (auto simp: owner_def owned_by_def split: option.split)
  ultimately show ?thesis
    using free nc server_okD(2) [OF ok]
    by (simp add: n_def r_def sv'_def serveControl_start_def control_prepare_def control_register_cases
        control_welcome_def start_node_def Get_Register online_def holder_StartNode welcome_message_def)
qed

text \<open>C21: the handshake of a control channel, on every branch. A node that the configuration no
  longer has is refused and nothing happens; a node that is online already is refused as busy, and
  who is online, the listeners, the sessions and the messages stay as they are; a welcome that
  cannot be written leaves the node offline; otherwise the node comes online with a fresh session
  that has the configuration in force, gets the welcome, and has a listener on each of its ports.\<close>

theorem control_channel_outcomes:
  fixes spec sid we now sv
  defines "n \<equiv> ns_spec_name spec" and "r \<equiv> sv_next sv"
    and "outcome \<equiv> fst (serveControl_start spec sid we now sv)"
    and "sv' \<equiv> snd (serveControl_start spec sid we now sv)"
  assumes ok: "server_ok_but X sv"
  shows "case Config_NodeConfig (sv_cfg sv) n of
      None \<Rightarrow> outcome = Inl (Reject CodeInternal ''node vanished from config'' []) \<and> sv' = sv
    | Some nc \<Rightarrow>
        if current n sv \<noteq> None
        then outcome = Inl (Reject CodeNodeBusy ''node %s already has a control channel'' [n]) \<and>
          (\<forall>m. current m sv' = current m sv) \<and> sv_lm sv' = sv_lm sv \<and> sv_sent sv' = sv_sent sv \<and>
          (\<forall>q. q \<noteq> r \<longrightarrow> sv_sess sv' q = sv_sess sv q)
        else if we \<noteq> None
        then outcome = Inl SessionClosed \<and> (\<forall>m. current m sv' = current m sv) \<and> sv_lm sv' = sv_lm sv \<and>
          sv_sent sv' = sv_sent sv \<and> ns_done (sv_sess sv' r)
        else outcome = Inr r \<and> (\<forall>m. current m sv' = (if m = n then Some r else current m sv)) \<and>
          (\<forall>p. holder sv' p = (if owner (sv_cfg sv) p = Some n then Some n else holder sv p)) \<and>
          sv_sess sv' = (sv_sess sv)(r := newNodeSession n sid nc (st_queue_timeout (cfg_settings (sv_cfg sv))) now) \<and>
          sv_sent sv' = sv_sent sv @ [(r, zero_message\<lparr>m_type := TypeWelcome, m_session := sid,
            m_heartbeat := Heartbeat nc, m_channels := Channels nc, m_config := Some nc\<rparr>)]"
proof (cases "Config_NodeConfig (sv_cfg sv) n")
  case None
  then show ?thesis by (simp add: n_def outcome_def sv'_def serveControl_start_def control_prepare_def reject_def)
next
  case (Some nc)
  consider "current n sv \<noteq> None" | "current n sv = None" "we \<noteq> None" | "current n sv = None" "we = None" by blast
  then show ?thesis
  proof cases
    case 1
    with Some show ?thesis
      by (auto simp: n_def r_def outcome_def sv'_def serveControl_start_def control_prepare_def
          control_register_cases reject_def)
  next
    case 2
    with Some show ?thesis
      by (auto simp: n_def r_def outcome_def sv'_def serveControl_start_def control_prepare_def
          control_register_cases control_welcome_def control_offline_def Get_Unregister Get_Register)
  next
    case 3
    then show ?thesis
      using Some serveControl_start_up [OF ok, of spec nc sid now]
      by (simp add: n_def r_def outcome_def sv'_def)
  qed
qed

theorem control_channel_outcomes_witness:
  "fst (serveControl_start sample_spec ''u'' None 9 sample_server) =
     Inl (Reject CodeNodeBusy ''node %s already has a control channel'' [''a'']) \<and>
   fst (serveControl_start sample_spec ''s'' (Some ''e'') 0 (newServer sample_config)) = Inl SessionClosed"
proof -
  have "current ''a'' sample_server \<noteq> None" "Config_NodeConfig (sv_cfg sample_server) ''a'' \<noteq> None"
    "current ''a'' (newServer sample_config) = None" "Config_NodeConfig (sv_cfg (newServer sample_config)) ''a'' \<noteq> None"
    by code_simp+
  then show ?thesis
    using control_channel_outcomes [OF sample_server_ok, of sample_spec "''u''" None 9]
      control_channel_outcomes [OF server_ok_new [OF sample_config_wf], of sample_spec "''s''" "Some ''e''" 0]
    by (auto simp: sample_spec_def)
qed

section \<open>Consistency\<close>

text \<open>C2: the server stays consistent. Start it with a loaded configuration and let it handle any
  sequence of connections, messages, pings, data channels, reloads, ends of drains and steps of the
  accept loops, each handler without interruption. Then every listener is on a port that the current
  configuration gives to an online node; every online node that is neither closed nor drained works
  with the configuration in force; and it has a listener on each of its ports, unless the drain of an
  earlier session of the same node has ended since it came online (\<open>late_drained\<close>), for the goroutine
  of a drain stops the listeners of whoever holds the name.\<close>

theorem server_consistent:
  assumes "config_wf cfg" and "sv = fold server_step ops (newServer cfg)"
  shows "(\<forall>p n. holder sv p = Some n \<longrightarrow> owner (sv_cfg sv) p = Some n \<and> current n sv \<noteq> None) \<and>
    (\<forall>n r. current n sv = Some r \<and> \<not> ns_done (sv_sess sv r) \<and> \<not> ns_draining (sv_sess sv r) \<longrightarrow>
       in_force (sv_cfg sv) n (sv_sess sv r) \<and>
       (n \<notin> late_drained ops (newServer cfg) \<longrightarrow> (\<forall>p. owner (sv_cfg sv) p = Some n \<longrightarrow> holder sv p = Some n)))"
proof -
  have "server_ok_but (late_drained ops (newServer cfg)) sv"
    unfolding assms(2) using assms(1) by (rule server_run_ok)
  note ok = server_okD [OF this]
  show ?thesis
    using ok(7-10) unfolding serving_def by blast
qed

theorem server_consistent_witness: "holder sample_server 84 = Some ''c''"
proof -
  have "current ''c'' sample_server = Some 1 \<and> \<not> ns_done (sv_sess sample_server 1) \<and>
      \<not> ns_draining (sv_sess sample_server 1) \<and> owner (sv_cfg sample_server) 84 = Some ''c''"
    by (intro conjI) code_simp+
  then show ?thesis
    using server_consistent [OF sample_config_wf sample_server_def, unfolded sample_late] by blast
qed

section \<open>Reload\<close>

text \<open>C12: a reload cuts what the new configuration no longer allows. The session of a node is
  closed exactly when the key of the node changed, and drained exactly when the node was removed;
  no port that belongs to another node, or to none, keeps a listener; and a session that goes on
  has the new configuration.\<close>

theorem reload_cuts:
  fixes bind now new sv
  defines "sv' \<equiv> applyReload bind now new sv"
  assumes "server_ok_but X sv" and "config_wf new" and "current n sv = Some r"
  shows "current n sv' = Some r \<and>
    (ns_done (sv_sess sv' r) \<longleftrightarrow> ns_done (sv_sess sv r) \<or>
       (node_key (sv_cfg sv) n \<noteq> None \<and> node_key new n \<noteq> None \<and> node_key new n \<noteq> node_key (sv_cfg sv) n)) \<and>
    (ns_draining (sv_sess sv' r) \<longleftrightarrow> ns_draining (sv_sess sv r) \<or>
       (node_key (sv_cfg sv) n \<noteq> None \<and> node_key new n = None)) \<and>
    (\<forall>p m. holder sv' p = Some m \<longrightarrow> owner new p = Some m) \<and>
    (\<not> ns_done (sv_sess sv' r) \<and> \<not> ns_draining (sv_sess sv' r) \<longrightarrow> in_force new n (sv_sess sv' r))"
proof -
  have ok: "server_ok_but X sv'" unfolding sv'_def using assms(2,3) by (rule reload_ok)
  note old = server_okD [OF assms(2)] and new = server_okD [OF ok]
  note e = reload_effect [OF old(2) assms(3), of bind now, folded sv'_def, where r = r]
  have uniq: "m = n" if "current m sv = Some r" for m
    using old(5) [OF that] old(5) [OF assms(4)] by simp
  have reg: "current n sv' = Some r" "sv_cfg sv' = new" using e assms(4) by simp_all
  have "ns_done (sv_sess sv' r) \<longleftrightarrow> ns_done (sv_sess sv r) \<or>
      n \<in> set (KeyChangedNodes (DiffConfig (Some (sv_cfg sv)) new))"
    using e assms(4) uniq by blast
  moreover have "ns_draining (sv_sess sv' r) \<longleftrightarrow> ns_draining (sv_sess sv r) \<or>
      n \<in> set (RemovedNodes (DiffConfig (Some (sv_cfg sv)) new))"
    using e assms(4) uniq by blast
  ultimately show ?thesis
    using reg new(7) [OF reg(1)] new(8)
    by (auto simp: nodes_diff [OF old(1) assms(3)] serving_def)
qed

theorem reload_cuts_witness:
  "ns_done (sv_sess (applyReload (\<lambda>_. True) 0 rekeyed_config sample_server) 1) \<and>
   \<not> ns_done (sv_sess (applyReload (\<lambda>_. True) 0 rekeyed_config sample_server) 0)"
proof -
  have "current ''a'' sample_server = Some 0" "current ''c'' sample_server = Some 1"
    "\<not> ns_done (sv_sess sample_server 0)"
    "node_key (sv_cfg sample_server) ''a'' = Some ''k''" "node_key rekeyed_config ''a'' = Some ''k''"
    "node_key (sv_cfg sample_server) ''c'' = Some ''l''" "node_key rekeyed_config ''c'' = Some ''m''"
    by code_simp+
  then show ?thesis
    using reload_cuts [OF sample_server_ok rekeyed_config_wf, of "''a''" 0]
      reload_cuts [OF sample_server_ok rekeyed_config_wf, of "''c''" 1] by simp
qed

text \<open>C11: connections that the diff does not cover never notice a reload. If a node stays with its
  key, its session stays as it is, with the same data channels, none closed and none losing a
  stream; and each of its ports that stays with it keeps the very listener it had, in the same
  state, with its connections.\<close>

theorem reload_spares:
  fixes bind now new sv
  defines "sv' \<equiv> applyReload bind now new sv"
  assumes "server_ok_but X sv" and "config_wf new" and "current n sv = Some r"
    and "node_key new n = node_key (sv_cfg sv) n" and "node_key new n \<noteq> None"
  shows "ns_done (sv_sess sv' r) = ns_done (sv_sess sv r) \<and>
    ns_draining (sv_sess sv' r) = ns_draining (sv_sess sv r) \<and>
    same_channels (sv_sess sv r) (sv_sess sv' r) \<and>
    (\<forall>p l. runs (sv_lm sv) p l (lm_heap (sv_lm sv) l) \<and> holder sv p = Some n \<and> owner new p = Some n \<longrightarrow>
       runs (sv_lm sv') p l (lm_heap (sv_lm sv) l))"
proof -
  note old = server_okD [OF assms(2)]
  note e = reload_effect [OF old(2) assms(3), of bind now, folded sv'_def, where r = r]
  have uniq: "m = n" if "current m sv = Some r" for m
    using old(5) [OF that] old(5) [OF assms(4)] by simp
  have out: "n \<notin> set (RemovedNodes (DiffConfig (Some (sv_cfg sv)) new))"
    "n \<notin> set (KeyChangedNodes (DiffConfig (Some (sv_cfg sv)) new))"
    using assms(5,6) by (auto simp: nodes_diff [OF old(1) assms(3)])
  have "same_channels (sv_sess sv r) (sv_sess sv' r)"
    unfolding sv'_def using uniq out(2) by (intro kept_reload [THEN conjunct2]) auto
  moreover have "runs (sv_lm sv') p l (lm_heap (sv_lm sv) l)"
    if "runs (sv_lm sv) p l (lm_heap (sv_lm sv) l)" "holder sv p = Some n" "owner new p = Some n" for p l
  proof -
    have n: "pl_node (lm_heap (sv_lm sv) l) = n" using that(1,2) by (auto simp: runs_def holder_of_def)
    then show ?thesis
      unfolding sv'_def
      using up_reload [OF old(1) assms(3), of p l "lm_heap (sv_lm sv) l" bind now]
        old(2) old(8) [OF that(2)] that(1,3) assms(5) by simp
  qed
  ultimately show ?thesis using e out uniq by blast
qed

theorem reload_spares_witness:
  "runs (sv_lm (applyReload (\<lambda>_. True) 0 rekeyed_config sample_server)) 80 0 (lm_heap (sv_lm sample_server) 0)"
proof -
  have "current ''a'' sample_server = Some 0" "node_key rekeyed_config ''a'' = node_key (sv_cfg sample_server) ''a''"
    "node_key rekeyed_config ''a'' \<noteq> None" "holder sample_server 80 = Some ''a''"
    "owner rekeyed_config 80 = Some ''a''" "map_of (items (sv_lm sample_server)) 80 = Some 0"
    by code_simp+
  then show ?thesis
    using reload_spares [OF sample_server_ok rekeyed_config_wf, of "''a''" 0] by (simp add: runs_def)
qed

end
