(* ===== verification/Server_Liveness.thy ===== *)
theory Server_Liveness
  imports Server_Properties
begin

text \<open>
  What ends, and when (internal/server/server.go): the heartbeat that detects a dead control
  channel (\<open>pingLoop\<close>), the wait of a drain (\<open>waitDrained\<close>), and the shutdown.
\<close>

section \<open>The heartbeat\<close>

text \<open>A tick that finds the peer silent for too long, or cannot write, ends the loop.\<close>

definition fatal_tick :: "duration \<Rightarrow> time \<Rightarrow> time \<times> string \<times> string option \<Rightarrow> bool" where
  "fatal_tick interval seen = (\<lambda>(now, nonce, write_error). 3 * interval < now - seen \<or> write_error \<noteq> None)"

definition ping_message :: "time \<times> string \<times> string option \<Rightarrow> message" where
  "ping_message = (\<lambda>(now, nonce, write_error). zero_message\<lparr>m_type := TypePing, m_nonce := nonce, m_ts := now\<rparr>)"

lemma ping_tick_exact:
  fixes sv r
  defines "h \<equiv> Heartbeat (ns_cfg (sv_sess sv r))"
  assumes "\<not> ns_done (sv_sess sv r)"
  shows "if fatal_tick h (ns_last_seen (sv_sess sv r)) (now, nonce, e)
    then fst (ping_tick r now nonce e h sv) = None \<and> ns_done (sv_sess (snd (ping_tick r now nonce e h sv)) r)
    else ping_tick r now nonce e h sv = (Some h, SendControl r (ping_message (now, nonce, e)) sv)"
  using assms by (auto simp: ping_tick_def Let_def fatal_tick_def ping_message_def split: option.split)

lemma pingLoop_exact:
  fixes sv r
  defines "h \<equiv> Heartbeat (ns_cfg (sv_sess sv r))" and "seen \<equiv> ns_last_seen (sv_sess sv r)"
  assumes "\<not> ns_done (sv_sess sv r)"
  shows "if list_ex (fatal_tick h seen) ticks
    then fst (pingLoop r h ticks sv) = None \<and> ns_done (sv_sess (snd (pingLoop r h ticks sv)) r)
    else fst (pingLoop r h ticks sv) = Some h \<and> sv_sess (snd (pingLoop r h ticks sv)) = sv_sess sv \<and>
      sv_sent (snd (pingLoop r h ticks sv)) = sv_sent sv @ map (\<lambda>t. (r, ping_message t)) ticks"
  using assms(3) unfolding h_def seen_def
proof (induction ticks arbitrary: sv)
  case (Cons t ticks)
  obtain now nonce e where t: "t = (now, nonce, e)" by (cases t)
  note one = ping_tick_exact [OF Cons.prems, of now nonce e, folded t]
  show ?case
  proof (cases "fatal_tick (Heartbeat (ns_cfg (sv_sess sv r))) (ns_last_seen (sv_sess sv r)) t")
    case True
    with one show ?thesis by (auto simp: t split: prod.split option.split)
  next
    case False
    let ?sv = "SendControl r (ping_message t) sv"
    have "pingLoop r (Heartbeat (ns_cfg (sv_sess sv r))) (t # ticks) sv =
        pingLoop r (Heartbeat (ns_cfg (sv_sess sv r))) ticks ?sv"
      using one False by (simp add: t)
    moreover have "sv_sess ?sv = sv_sess sv" "sv_sent ?sv = sv_sent sv @ [(r, ping_message t)]" by simp_all
    ultimately show ?thesis using Cons.IH [of ?sv] Cons.prems False by (simp cong: if_cong)
  qed
qed simp

text \<open>C24: the heartbeat decides exactly. While no message arrives, the ping loop of an open session
  ends, with the session closed, if and only if some tick comes more than three intervals after
  the peer was last heard or finds a write failing; until then each tick sends one ping and the
  session is left alone. Ticks at least an interval apart therefore close the session of a silent
  peer by the fourth.\<close>

theorem heartbeat_exact:
  fixes sv r
  defines "h \<equiv> Heartbeat (ns_cfg (sv_sess sv r))" and "seen \<equiv> ns_last_seen (sv_sess sv r)"
  assumes "\<not> ns_done (sv_sess sv r)" and "0 < h"
  shows "(ns_done (sv_sess (snd (pingLoop r h ticks sv)) r) \<longleftrightarrow>
      (\<exists>(now, nonce, write_error) \<in> set ticks. 3 * h < now - seen \<or> write_error \<noteq> None)) \<and>
    (fst (pingLoop r h ticks sv) = None \<longleftrightarrow> ns_done (sv_sess (snd (pingLoop r h ticks sv)) r)) \<and>
    (fst (pingLoop r h ticks sv) \<noteq> None \<longrightarrow>
      map snd (drop (length (sv_sent sv)) (sv_sent (snd (pingLoop r h ticks sv)))) =
        map (\<lambda>(now, nonce, e). zero_message\<lparr>m_type := TypePing, m_nonce := nonce, m_ts := now\<rparr>) ticks) \<and>
    (4 \<le> length ticks \<and> (\<forall>i < length ticks. seen + int (Suc i) * h \<le> fst (ticks ! i)) \<longrightarrow>
      ns_done (sv_sess (snd (pingLoop r h (take 4 ticks) sv)) r))"
proof -
  note exact = pingLoop_exact [OF assms(3), folded h_def seen_def]
  have ex: "list_ex (fatal_tick h seen) ts \<longleftrightarrow>
      (\<exists>(now, nonce, write_error) \<in> set ts. 3 * h < now - seen \<or> write_error \<noteq> None)" for ts
    by (auto simp: list_ex_iff fatal_tick_def)
  have closed: "ns_done (sv_sess (snd (pingLoop r h ts sv)) r) \<longleftrightarrow> list_ex (fatal_tick h seen) ts" for ts
    using exact [of ts] assms(3) by (auto split: if_splits)
  have four: "list_ex (fatal_tick h seen) (take 4 ticks)"
    if "4 \<le> length ticks" "\<forall>i < length ticks. seen + int (Suc i) * h \<le> fst (ticks ! i)"
  proof -
    have "fatal_tick h seen (ticks ! 3)"
      using that(2) [rule_format, of 3] that(1) assms(4) by (auto simp: fatal_tick_def split: prod.split)
    moreover have "ticks ! 3 \<in> set (take 4 ticks)"
      using that(1) nth_mem [of 3 "take 4 ticks"] by simp
    ultimately show ?thesis by (auto simp: list_ex_iff)
  qed
  have pings: "map snd (drop (length (sv_sent sv)) (sv_sent (snd (pingLoop r h ticks sv)))) =
      map (\<lambda>(now, nonce, e). zero_message\<lparr>m_type := TypePing, m_nonce := nonce, m_ts := now\<rparr>) ticks"
    if "fst (pingLoop r h ticks sv) \<noteq> None"
    using exact [of ticks] that by (auto simp: ping_message_def split: if_splits)
  have none: "fst (pingLoop r h ticks sv) = None \<longleftrightarrow> list_ex (fatal_tick h seen) ticks"
    using exact [of ticks] by (auto split: if_splits)
  show ?thesis using four pings unfolding none closed ex by blast
qed

theorem heartbeat_exact_witness:
  "ns_done (sv_sess (snd (pingLoop 0 15000000000
     [(15000000000, ''1'', None), (30000000000, ''2'', None), (45000000000, ''3'', None), (60000000000, ''4'', None)]
     sample_server)) 0)"
proof -
  have h: "\<not> ns_done (sv_sess sample_server 0)" "Heartbeat (ns_cfg (sv_sess sample_server 0)) = 15000000000"
    "ns_last_seen (sv_sess sample_server 0) = 0" by code_simp+
  then show ?thesis
    using heartbeat_exact [OF h(1), where ticks =
      "[(15000000000, ''1'', None), (30000000000, ''2'', None), (45000000000, ''3'', None), (60000000000, ''4'', None)]"]
    by simp
qed

section \<open>Draining\<close>

lemma waitDrained_iff:
  "waitDrained deadline evs \<longleftrightarrow> (\<exists>(active, now, done) \<in> set evs. active = 0 \<or> done \<or> deadline < now)"
  by (induction deadline evs rule: waitDrained.induct) auto

text \<open>C25: a drain always ends. The wait looks at the active streams every 200 ms and, whatever they
  are, ends at the latest with the 151st look, 200 ms after the grace period of 30 seconds; it
  ends at the first look that finds no stream or the session closed. The drain then says bye and
  closes the session, as its last word to the client.\<close>

theorem drain_ends:
  assumes "\<And>i. i < length evs \<Longrightarrow> start + int (Suc i) * 200000000 \<le> fst (snd (evs ! i))" and "151 \<le> length evs"
  shows "waitDrained (start + ShutdownGrace) (take 151 evs) \<and>
    (\<forall>k. (\<exists>i < k. i < length evs \<and> (fst (evs ! i) = 0 \<or> snd (snd (evs ! i)))) \<longrightarrow>
       waitDrained (start + ShutdownGrace) (take k evs)) \<and>
    ns_done (sv_sess (drain_finish r reason sv) r) \<and>
    last (sv_sent (drain_finish r reason sv)) = (r, zero_message\<lparr>m_type := TypeBye, m_reason := reason\<rparr>)"
proof (intro conjI allI impI)
  have "evs ! 150 \<in> set (take 151 evs)"
    using assms(2) nth_mem [of 150 "take 151 evs"] by simp
  moreover have "start + ShutdownGrace < fst (snd (evs ! 150))"
    using assms(1) [of 150] assms(2) by (simp add: ShutdownGrace_def second_def)
  ultimately show "waitDrained (start + ShutdownGrace) (take 151 evs)"
    unfolding waitDrained_iff by (intro bexI [of _ "evs ! 150"]) (auto split: prod.split)
next
  fix k assume "\<exists>i < k. i < length evs \<and> (fst (evs ! i) = 0 \<or> snd (snd (evs ! i)))"
  then obtain i where i: "i < k" "i < length evs" "fst (evs ! i) = 0 \<or> snd (snd (evs ! i))" by blast
  then have "evs ! i \<in> set (take k evs)" using nth_mem [of i "take k evs"] by simp
  with i(3) show "waitDrained (start + ShutdownGrace) (take k evs)"
    unfolding waitDrained_iff by (intro bexI [of _ "evs ! i"]) (auto split: prod.split)
qed (simp_all add: drain_finish_def)

theorem drain_ends_witness:
  "waitDrained (7 + ShutdownGrace) (take 151 (map (\<lambda>i. (3, 7 + int (Suc i) * 200000000, False)) [0..<151]))"
  by (rule drain_ends [THEN conjunct1]) (simp_all del: upt_rec_numeral)

section \<open>Shutdown\<close>

lemma announce_all:
  "sv_reg (fold (announce_drain d) rs sv) = sv_reg sv \<and> sv_lm (fold (announce_drain d) rs sv) = sv_lm sv \<and>
   sv_sent (fold (announce_drain d) rs sv) =
     sv_sent sv @ map (\<lambda>r. (r, zero_message\<lparr>m_type := TypeDrain, m_deadline := Some d\<rparr>)) rs \<and>
   ns_draining (sv_sess (fold (announce_drain d) rs sv) q) = (q \<in> set rs \<or> ns_draining (sv_sess sv q))"
  by (induction rs arbitrary: sv) (auto simp: announce_drain_def)

lemma bye_all:
  "sv_reg (fold say_bye rs sv) = sv_reg sv \<and> sv_lm (fold say_bye rs sv) = sv_lm sv \<and>
   sv_sent (fold say_bye rs sv) =
     sv_sent sv @ map (\<lambda>r. (r, zero_message\<lparr>m_type := TypeBye, m_reason := ''server shutting down''\<rparr>)) rs \<and>
   ns_done (sv_sess (fold say_bye rs sv) q) = (q \<in> set rs \<or> ns_done (sv_sess sv q))"
  by (induction rs arbitrary: sv) (auto simp: say_bye_def)

text \<open>C26: the shutdown reaches everyone it found. Every session that is online when it starts is
  marked as draining and told so with the deadline, in one message each; and whatever the server
  handles while it waits, at the end each of them has been told bye, once and last, and is
  closed, and no reverse port has a listener.\<close>

theorem shutdown_complete:
  fixes now sv ops
  defines "live_refs \<equiv> fst (shutdown_start now sv)" and "sv1 \<equiv> snd (shutdown_start now sv)"
  defines "sv2 \<equiv> fold server_step ops sv1"
  defines "sv3 \<equiv> shutdown_finish live_refs sv2"
  assumes "registry_wf (sv_reg sv)"
  shows "(\<forall>r. r \<in> set live_refs \<longleftrightarrow> (\<exists>n. current n sv = Some r)) \<and>
    items (sv_lm sv1) = [] \<and>
    sv_sent sv1 = sv_sent sv @
      map (\<lambda>r. (r, zero_message\<lparr>m_type := TypeDrain, m_deadline := Some (now + ShutdownGrace)\<rparr>)) live_refs \<and>
    list_all (\<lambda>r. ns_draining (sv_sess sv1 r)) live_refs \<and>
    list_all (\<lambda>r. ns_done (sv_sess sv3 r)) live_refs \<and>
    sv_sent sv3 = sv_sent sv2 @
      map (\<lambda>r. (r, zero_message\<lparr>m_type := TypeBye, m_reason := ''server shutting down''\<rparr>)) live_refs \<and>
    items (sv_lm sv3) = []"
proof -
  have refs: "live_refs = List_sessions (sv_reg sv)"
    by (simp add: live_refs_def shutdown_start_def Let_def)
  have sv1: "sv1 = fold (announce_drain (now + ShutdownGrace)) live_refs (upd_lm (StopAll True) sv)"
    by (simp add: sv1_def live_refs_def shutdown_start_def Let_def)
  have stop: "items (StopAll g lm) = []" for g lm by (simp add: StopAll_def)
  have sv3: "sv3 = upd_lm (StopAll False) (fold say_bye live_refs sv2)"
    by (simp add: sv3_def shutdown_finish_def)
  show ?thesis
    unfolding sv1 sv3 using List_sessions_iff [OF assms(5)]
    by (simp add: announce_all bye_all stop list_all_iff) (simp add: refs)
qed

theorem shutdown_complete_witness:
  "ns_done (sv_sess (shutdown_finish (fst (shutdown_start 5 sample_server))
     (fold server_step [OpMessage 0 6 (zero_message\<lparr>m_type := TypePing\<rparr>)] (snd (shutdown_start 5 sample_server)))) 0)"
proof -
  have "registry_wf (sv_reg sample_server)" using sample_server_ok by (rule server_okD)
  moreover have "current ''a'' sample_server = Some 0" by code_simp
  ultimately show ?thesis
    using shutdown_complete [of sample_server 5 "[OpMessage 0 6 (zero_message\<lparr>m_type := TypePing\<rparr>)]"]
    by (auto simp: list_all_iff)
qed

end
