(* ===== verification/Server_Races.thy ===== *)
theory Server_Races
  imports Server_Liveness
begin

text \<open>
  What the invariant of Server_Steps does not cover (internal/server/server.go): handlers whose
  steps interleave, and a reload whose bind fails. Each property is an interleaving of the steps
  of Server_Control in an order that the goroutines allow, from any consistent state.
\<close>

section \<open>A reload of the configuration in force\<close>

lemma diff_self:
  assumes "config_wf c"
  shows "Diff_Empty (DiffConfig (Some c) c) \<and> \<not> SettingsChanged (DiffConfig (Some c) c)"
proof -
  let ?d = "DiffConfig (Some c) c"
  have "set (RemovedNodes ?d) = {}" "set (AddedNodes ?d) = {}" "set (KeyChangedNodes ?d) = {}"
    unfolding nodes_diff [OF assms assms] by auto
  moreover have "set (RemovedPorts ?d) = {}" "set (AddedPorts ?d) = {}"
    unfolding set_RemovedPorts set_AddedPorts by auto
  moreover have "NodeConfig_Equal (Config_NodeConfig c n) (Config_NodeConfig c n)" for n
  proof (cases "Config_NodeConfig c n")
    case (Some a)
    then show ?thesis
      using Config_NodeConfig_wf [OF assms Some] by (simp add: NodeConfig_Equal_iff)
  qed (simp add: NodeConfig_Equal_def)
  then have "set (ChangedNodes ?d) = {}" by (auto simp: DiffConfig_changed(1))
  ultimately show ?thesis by (simp add: Diff_Empty_def DiffConfig_nodes)
qed

lemma applyReload_same:
  "config_wf (sv_cfg sv) \<Longrightarrow> applyReload bind now (sv_cfg sv) sv = sv"
  using diff_self [of "sv_cfg sv"]
  by (simp add: applyReload_def Let_def endpoints_changed_def setServerConfig_def)

lemma ws_addr_simps [server_simps, simp]:
  "sv_ws_addr (upd_sess r f sv) = sv_ws_addr sv" "sv_ws_addr (upd_lm h sv) = sv_ws_addr sv"
  "sv_ws_addr (SendControl r m sv) = sv_ws_addr sv" "sv_ws_addr (setServerConfig c sv) = sv_ws_addr sv"
  "sv_ws_addr (stop_node n gr sv) = sv_ws_addr sv" "sv_ws_addr (close_session r why sv) = sv_ws_addr sv"
  "sv_ws_addr (drainNode g t why n sv) = sv_ws_addr sv" "sv_ws_addr (force_reconnect n sv) = sv_ws_addr sv"
  "sv_ws_addr (stop_port p sv) = sv_ws_addr sv" "sv_ws_addr (start_port c p sv) = sv_ws_addr sv"
  "sv_ws_addr (pushConfig n c sv) = sv_ws_addr sv"
  by (simp_all add: upd_sess_def upd_lm_def SendControl_def setServerConfig_def stop_node_def close_session_def
      drainNode_def Let_def force_reconnect_def stop_port_def start_port_def pushConfig_def split: option.split)

lemma ws_addr_folds [simp]:
  "sv_ws_addr (fold (drainNode g t why) ns sv) = sv_ws_addr sv"
  "sv_ws_addr (fold force_reconnect ns sv) = sv_ws_addr sv"
  "sv_ws_addr (fold stop_port ps sv) = sv_ws_addr sv"
  "sv_ws_addr (fold (start_port c) ps sv) = sv_ws_addr sv"
  "sv_ws_addr (fold (\<lambda>n. pushConfig n c) ns sv) = sv_ws_addr sv"
proof -
  show "sv_ws_addr (fold (drainNode g t why) ns sv) = sv_ws_addr sv" by (induction ns arbitrary: sv) simp_all
  show "sv_ws_addr (fold force_reconnect ns sv) = sv_ws_addr sv" by (induction ns arbitrary: sv) simp_all
  show "sv_ws_addr (fold stop_port ps sv) = sv_ws_addr sv" by (induction ps arbitrary: sv) simp_all
  show "sv_ws_addr (fold (start_port c) ps sv) = sv_ws_addr sv" by (induction ps arbitrary: sv) simp_all
  show "sv_ws_addr (fold (\<lambda>n. pushConfig n c) ns sv) = sv_ws_addr sv" by (induction ns arbitrary: sv) simp_all
qed

lemma ws_addr_reload:
  "sv_ws_addr (applyReload bind now new sv) =
     (if cfg_listen (sv_cfg sv) \<noteq> cfg_listen new \<and> bind (cfg_listen new) then cfg_listen new else sv_ws_addr sv)"
  unfolding applyReload_general Let_def reload_pushes_fold
  by (simp add: reload_teardown_def rebindEndpoints_def Let_def endpoints_changed_def)

text \<open>Applying a configuration twice is applying it once, whatever could be bound the second
  time: nothing is sent, started, stopped or bound by the second reload.\<close>

theorem reload_idempotent:
  assumes "config_wf new" and "lm_wf (sv_lm sv)"
  shows "applyReload bind' now' new (applyReload bind now new sv) = applyReload bind now new sv"
proof -
  have "sv_cfg (applyReload bind now new sv) = new"
    using reload_effect [OF assms(2,1)] by blast
  with assms(1) applyReload_same [of "applyReload bind now new sv"] show ?thesis by simp
qed

theorem reload_idempotent_witness:
  "applyReload (\<lambda>_. True) 2 rekeyed_config (applyReload (\<lambda>_. False) 1 rekeyed_config sample_server) =
     applyReload (\<lambda>_. False) 1 rekeyed_config sample_server"
  using rekeyed_config_wf server_okD(2) [OF sample_server_ok] by (rule reload_idempotent)

text \<open>A failed rebind is never retried. If the new entry point cannot be bound, the server keeps
  the old one but publishes the configuration with the new address; a later reload of the same
  document, with the address free, compares the two configurations, finds them equal and leaves
  the server on the address that the configuration in force does not name.\<close>

theorem failed_rebind_not_retried:
  assumes "config_wf new" and "lm_wf (sv_lm sv)"
    and "sv_ws_addr sv = cfg_listen (sv_cfg sv)" and "cfg_listen new \<noteq> cfg_listen (sv_cfg sv)"
    and "\<not> bind (cfg_listen new)"
  shows "let sv' = applyReload (\<lambda>_. True) now' new (applyReload bind now new sv)
    in cfg_listen (sv_cfg sv') = cfg_listen new \<and> sv_ws_addr sv' = cfg_listen (sv_cfg sv) \<and>
       sv_ws_addr sv' \<noteq> cfg_listen (sv_cfg sv')"
proof -
  let ?sv = "applyReload bind now new sv"
  have "sv_cfg ?sv = new" using reload_effect [OF assms(2,1)] by blast
  moreover have "sv_ws_addr ?sv = cfg_listen (sv_cfg sv)" using assms(3,5) by (simp add: ws_addr_reload)
  moreover have "applyReload (\<lambda>_. True) now' new ?sv = ?sv"
    using assms(1) applyReload_same [of ?sv] \<open>sv_cfg ?sv = new\<close> by simp
  ultimately show ?thesis using assms(4) by (simp add: Let_def)
qed

theorem failed_rebind_not_retried_witness:
  "sv_ws_addr (applyReload (\<lambda>_. True) 2 (sample_config\<lparr>cfg_listen := '':99''\<rparr>)
     (applyReload (\<lambda>_. False) 1 (sample_config\<lparr>cfg_listen := '':99''\<rparr>)
       (snd (run_binds (\<lambda>_. None) (newServer sample_config))))) = '':81''"
proof -
  have wf: "config_wf (sample_config\<lparr>cfg_listen := '':99''\<rparr>)" by code_simp
  have sv: "sv_ws_addr (snd (run_binds (\<lambda>_. None) (newServer sample_config))) = '':81''"
    "sv_cfg (snd (run_binds (\<lambda>_. None) (newServer sample_config))) = sample_config"
    "sv_lm (snd (run_binds (\<lambda>_. None) (newServer sample_config))) = newListenerManager"
    by (simp_all add: run_binds_def newServer_def sample_config_def Let_def)
  show ?thesis
    using failed_rebind_not_retried [OF wf, of "snd (run_binds (\<lambda>_. None) (newServer sample_config))" "\<lambda>_. False" 2 1]
    by (simp add: sv lm_wf_new Let_def) (simp add: sample_config_def)
qed

section \<open>Interleavings\<close>

text \<open>A reload does nothing to a session that holds no node.\<close>

lemma reload_unheld:
  assumes "\<And>n. current n sv \<noteq> Some r"
  shows "sv_sess (applyReload bind now new sv) r = sv_sess sv r"
proof -
  let ?P = "\<lambda>sv'. sv_reg sv' = sv_reg sv \<and> sv_sess sv' r = sv_sess sv r"
  have 1: "?P (fold (drainNode g now why) ns sv')" if "?P sv'" for g why ns sv'
    by (rule fold_invariant [where Q = "\<lambda>_. True"]) (use that assms in auto)
  have 2: "?P (fold force_reconnect ns sv')" if "?P sv'" for ns sv'
    by (rule fold_invariant [where Q = "\<lambda>_. True"]) (use that assms in auto)
  have 3: "?P (fold stop_port ps sv')" if "?P sv'" for sv' ps
    by (rule fold_invariant [where Q = "\<lambda>_. True"]) (use that in auto)
  have 4: "?P (fold (start_port new) ps sv')" if "?P sv'" for sv' ps
    by (rule fold_invariant [where Q = "\<lambda>_. True"]) (use that in auto)
  have push: "?P (pushConfig n new sv')" if "?P sv'" for n sv'
    using that assms [of n] by (auto simp: pushConfig_def split: option.split)
  have 5: "?P (fold (\<lambda>n. pushConfig n new) ns sv')" if "?P sv'" for sv' ns
    by (rule fold_invariant [where Q = "\<lambda>_. True"]) (use that push in auto)
  have "?P (reload_teardown d now sv)" for d
    unfolding reload_teardown_def by (intro 1 2 3) simp
  then have "?P (applyReload bind now new sv)"
    unfolding applyReload_general Let_def reload_pushes_fold by (intro 4 5) auto
  then show ?thesis by simp
qed

lemma NodeConfig_iff_key: "Config_NodeConfig cfg n \<noteq> None \<longleftrightarrow> node_key cfg n \<noteq> None"
  by (auto simp: Config_NodeConfig_def node_key_def split: option.splits)

text \<open>A node without a session connects after the reload, or its session was made before the reload and is
  registered after it.\<close>

lemma start_after_reload:
  fixes spec sid sv bind t t1 t2 new
  defines "n \<equiv> ns_spec_name spec" and "r \<equiv> sv_next sv"
    and "sv' \<equiv> snd (serveControl_start spec sid None t (applyReload bind t1 new sv))"
  assumes ok: "server_ok_but X sv" and new: "config_wf new" and "current (ns_spec_name spec) sv = None"
    and "Config_NodeConfig new (ns_spec_name spec) = Some nc"
  shows "sv_cfg sv' = new \<and> current n sv' = Some r \<and> serving sv' r \<and> ns_cfg (sv_sess sv' r) = nc \<and>
    (\<forall>p. owner new p = Some n \<longrightarrow> holder sv' p = Some n) \<and> applyReload bind' t2 new sv' = sv'"
proof -
  note e = reload_effect [OF server_okD(2) [OF ok] new, of bind t1]
  have cfg: "sv_cfg (applyReload bind t1 new sv) = new" and nxt: "sv_next (applyReload bind t1 new sv) = r"
    and free: "current (ns_spec_name spec) (applyReload bind t1 new sv) = None"
    using e assms(6) by (simp_all add: r_def)
  have nc: "Config_NodeConfig (sv_cfg (applyReload bind t1 new sv)) (ns_spec_name spec) = Some nc"
    using cfg assms(7) by simp
  note up = serveControl_start_up [OF reload_ok [OF ok new] nc free, of sid t, folded sv'_def n_def, unfolded cfg nxt]
  then have "applyReload bind' t2 new sv' = sv'" using applyReload_same [of sv'] new by simp
  with up show ?thesis by (simp add: serving_def)
qed

lemma register_after_reload:
  fixes spec sid sv bind t t1 t2 new
  defines "n \<equiv> ns_spec_name spec" and "r \<equiv> sv_next sv"
    and "sv1 \<equiv> applyReload bind t1 new (snd (control_prepare spec sid t sv))"
  defines "sv2 \<equiv> start_node (ns_spec_name spec) (snd (control_welcome (sv_next sv) None t (snd (control_register (sv_next sv) sv1))))"
  assumes ok: "server_ok_but X sv" and new: "config_wf new"
    and nc: "Config_NodeConfig (sv_cfg sv) (ns_spec_name spec) = Some nc"
    and free: "current (ns_spec_name spec) sv = None"
  shows "fst (control_prepare spec sid t sv) = Inr r \<and> fst (control_register r sv1) = None \<and>
    sv_cfg sv2 = new \<and> current n sv2 = Some r \<and> serving sv2 r \<and> ns_cfg (sv_sess sv2 r) = nc \<and>
    (\<forall>p. owner new p = Some n \<longrightarrow> holder sv2 p = Some n) \<and> applyReload bind' t2 new sv2 = sv2"
proof -
  let ?s0 = "snd (control_prepare spec sid t sv)"
  have prep: "control_prepare spec sid t sv = (Inr r, ?s0)" using nc by (simp add: control_prepare_def r_def)
  have ok0: "server_ok_but X ?s0" by (rule control_prepare_ok [OF ok])
  have sess: "sv_sess ?s0 r = newNodeSession n sid nc (st_queue_timeout (cfg_settings (sv_cfg sv))) t"
    and cur: "\<And>m. current m ?s0 = current m sv"
    using nc by (simp_all add: control_prepare_def r_def n_def)
  have "current m ?s0 \<noteq> Some r" for m
    using server_okD(6) [OF ok, of m r] by (auto simp: cur r_def)
  then have same: "sv_sess sv1 r = sv_sess ?s0 r" unfolding sv1_def by (rule reload_unheld)
  have e: "sv_cfg sv1 = new" "lm_wf (sv_lm sv1)" "\<And>m. current m sv1 = current m sv"
    using reload_effect [OF server_okD(2) [OF ok0] new, of bind t1, folded sv1_def] cur by simp_all
  have name: "ns_name (sv_sess sv1 r) = n" by (simp add: same sess)
  have reg: "control_register r sv1 = (None, snd (control_register r sv1))"
    using free by (simp add: control_register_cases name e(3) n_def)
  have pw: "ports_wf new" using new by (simp add: config_wf_def)
  have sv2: "current n sv2 = Some r" "sv_sess sv2 = sv_sess sv1" "sv_cfg sv2 = new"
    using free name by (simp_all add: sv2_def start_node_def control_welcome_def control_register_cases
        Get_Register e n_def r_def [symmetric])
  have "owned_by new n p \<noteq> None \<longleftrightarrow> owner new p = Some n" for p
    by (auto simp: owner_def owned_by_def split: option.split)
  then have h: "holder sv2 p = Some n" if "owner new p = Some n" for p
    using that free name e(2) pw
    by (simp add: sv2_def start_node_def control_welcome_def control_register_cases Get_Register
        online_def holder_StartNode e n_def r_def [symmetric])
  have "applyReload bind' t2 new sv2 = sv2"
    using applyReload_same [of sv2] new sv2(3) by simp
  with prep reg sv2 h show ?thesis
    by (simp add: same sess serving_def) (metis fst_conv)
qed

text \<open>C34: a key change can be missed. \<open>handleWS\<close> authenticates a control channel, \<open>serveControl\<close> then reads
  the configuration and only after that registers the session. Let a reload give the node another
  key than that of the hello, which the new configuration therefore refuses for this node. If the
  reload falls after the authentication, before or after the configuration is read, it finds no
  session to cut: the node comes online all the same, undrained, with a listener on each of its
  ports, with the new configuration if the reload came before the reading of it and with the old
  one if it came after, and a further reload of that configuration changes nothing.\<close>

theorem key_change_missed:
  fixes msg spec sid sv bind t t1 t2 new
  defines "n \<equiv> ns_spec_name spec" and "r \<equiv> sv_next sv"
    and "renewed \<equiv> snd (serveControl_start spec sid None t (applyReload bind t1 new sv))"
    and "sv1 \<equiv> applyReload bind t1 new (snd (control_prepare spec sid t sv))"
  defines "stale \<equiv> start_node (ns_spec_name spec) (snd (control_welcome (sv_next sv) None t (snd (control_register (sv_next sv) sv1))))"
  assumes "server_ok_but X sv" and "config_wf new"
    and "handleWS (sv_cfg sv) (Inr msg) = ServeControl spec" and "current (ns_spec_name spec) sv = None"
    and "node_key new (ns_spec_name spec) = Some k" and "k \<noteq> m_key msg"
  shows "node_key (sv_cfg sv) n = Some (m_key msg) \<and>
    (\<forall>spec'. handleWS new (Inr msg) = ServeControl spec' \<longrightarrow> ns_spec_name spec' \<noteq> n) \<and>
    fst (control_prepare spec sid t sv) = Inr r \<and> fst (control_register r sv1) = None \<and>
    Config_NodeConfig new n = Some (ns_cfg (sv_sess renewed r)) \<and>
    Config_NodeConfig (sv_cfg sv) n = Some (ns_cfg (sv_sess stale r)) \<and>
    (\<forall>sv' \<in> {renewed, stale}. sv_cfg sv' = new \<and> current n sv' = Some r \<and> serving sv' r \<and>
       (\<forall>p. owner new p = Some n \<longrightarrow> holder sv' p = Some n) \<and> applyReload bind' t2 new sv' = sv')"
proof -
  note wf = server_okD(1) [OF assms(6)]
  have key: "node_key (sv_cfg sv) (ns_spec_name spec) = Some (m_key msg)"
    by (rule served_with_its_key [OF wf assms(8)])
  have refused: "ns_spec_name spec' \<noteq> n" if "handleWS new (Inr msg) = ServeControl spec'" for spec'
    using served_with_its_key [OF assms(7) that] assms(10,11) by (auto simp: n_def)
  obtain nc nc' where nc: "Config_NodeConfig (sv_cfg sv) (ns_spec_name spec) = Some nc"
    "Config_NodeConfig new (ns_spec_name spec) = Some nc'"
    using NodeConfig_iff_key key assms(10) by (metis not_None_eq)
  show ?thesis
    using start_after_reload [OF assms(6,7,9) nc(2), of sid t bind t1, folded renewed_def]
      register_after_reload [OF assms(6,7) nc(1) assms(9), of sid t bind t1, folded sv1_def, folded stale_def]
      key refused nc
    by (simp add: n_def r_def)
qed

theorem key_change_missed_witness:
  "serving (snd (serveControl_start other_spec ''s'' None 0 (applyReload (\<lambda>_. True) 0 rekeyed_config (newServer sample_config)))) 0 \<and>
   holder (start_node ''c'' (snd (control_welcome 0 None 0 (snd (control_register 0
     (applyReload (\<lambda>_. True) 0 rekeyed_config (snd (control_prepare other_spec ''s'' 0 (newServer sample_config))))))))) 84 =
       Some ''c''"
proof -
  let ?msg = "zero_message\<lparr>m_type := TypeHello, m_role := RoleControl, m_key := ''l''\<rparr>"
  have c: "handleWS (sv_cfg (newServer sample_config)) (Inr ?msg) = ServeControl other_spec" "m_key ?msg = ''l''"
    "current ''c'' (newServer sample_config) = None" "sv_next (newServer sample_config) = 0"
    "node_key rekeyed_config ''c'' = Some ''m''" "owner rekeyed_config 84 = Some ''c''"
    by code_simp+
  have n: "ns_spec_name other_spec = ''c''" by (simp add: other_spec_def)
  show ?thesis
    using key_change_missed [OF server_ok_new [OF sample_config_wf] rekeyed_config_wf c(1), unfolded n, OF c(3,5),
        of "''s''" 0 "\<lambda>_. True" 0] c
    by (simp add: n)
qed

text \<open>C36: the shutdown misses newcomers. A node that connects after the shutdown has made its list
  is served as usual: its listeners are opened again although all ports had stopped accepting, and
  at the end it is neither drained, nor told bye, nor closed.\<close>

theorem shutdown_misses_newcomer:
  fixes now sv spec sid t
  defines "live_refs \<equiv> fst (shutdown_start now sv)" and "sv1 \<equiv> snd (shutdown_start now sv)"
  defines "sv2 \<equiv> snd (serveControl_start spec sid None t sv1)"
  defines "sv3 \<equiv> shutdown_finish live_refs sv2"
  assumes ok: "server_ok_but X sv" and nc: "Config_NodeConfig (sv_cfg sv) (ns_spec_name spec) = Some nc"
    and free: "current (ns_spec_name spec) sv = None"
  shows "fst (serveControl_start spec sid None t sv1) = Inr (sv_next sv) \<and>
    (\<forall>p. holder sv1 p = None) \<and>
    (\<forall>p. owner (sv_cfg sv) p = Some (ns_spec_name spec) \<longrightarrow> holder sv2 p = Some (ns_spec_name spec)) \<and>
    current (ns_spec_name spec) sv3 = Some (sv_next sv) \<and>
    \<not> ns_done (sv_sess sv3 (sv_next sv)) \<and> \<not> ns_draining (sv_sess sv3 (sv_next sv)) \<and>
    (\<forall>m. (sv_next sv, m) \<notin> set (drop (length (sv_sent sv2)) (sv_sent sv3)))"
proof -
  let ?s = "upd_lm (StopAll True) sv"
  have refs: "live_refs = List_sessions (sv_reg sv)"
    by (simp add: live_refs_def shutdown_start_def Let_def)
  have sv1: "sv1 = fold (announce_drain (now + ShutdownGrace)) live_refs ?s"
    by (simp add: sv1_def live_refs_def shutdown_start_def Let_def)
  have frame: "sv_cfg (fold (announce_drain d) rs x) = sv_cfg x \<and> sv_next (fold (announce_drain d) rs x) = sv_next x \<and>
      (\<forall>q. ns_name (sv_sess (fold (announce_drain d) rs x) q) = ns_name (sv_sess x q))" for d rs x
    by (induction rs arbitrary: x) (simp_all add: announce_drain_def)
  have h1: "holder sv1 p = None" for p
    unfolding sv1 by (simp add: announce_all) (simp add: holder_of_def StopAll_def)
  have drained: "\<not> serving sv1 q" if "current m sv1 = Some q" for m q
    using that List_sessions_iff [OF server_okD(3) [OF ok], of q]
    by (auto simp: sv1 announce_all refs serving_def)
  have c1: "sv_cfg sv1 = sv_cfg sv" "sv_next sv1 = sv_next sv" "current m sv1 = current m sv" for m
    by (simp_all add: sv1 frame announce_all)
  have ok1: "server_ok_but X sv1"
  proof (rule server_okI)
    show "ns_name (sv_sess sv1 q) = m \<and> q < sv_next sv1" if "current m sv1 = Some q" for m q
      using that server_okD(5,6) [OF ok, of m q] by (simp add: sv1 frame announce_all)
  qed (use server_okD(1-3) [OF ok] h1 drained in \<open>simp_all add: sv1 frame announce_all lm_wf_StopAll\<close>)
  have nc1: "Config_NodeConfig (sv_cfg sv1) (ns_spec_name spec) = Some nc" using nc c1 by simp
  have free1: "current (ns_spec_name spec) sv1 = None" using free c1 by simp
  note up = serveControl_start_up [OF ok1 nc1 free1, of sid t, folded sv2_def, unfolded c1]
  have out: "sv_next sv \<notin> set live_refs"
    using server_okD(6) [OF ok] List_sessions_iff [OF server_okD(3) [OF ok]] refs by blast
  have sv3: "sv3 = upd_lm (StopAll False) (fold say_bye live_refs sv2)"
    by (simp add: sv3_def shutdown_finish_def)
  have drn: "ns_draining (sv_sess (fold say_bye rs x) q) = ns_draining (sv_sess x q)" for rs x q
    by (induction rs arbitrary: x) (simp_all add: say_bye_def)
  show ?thesis
    using up out by (auto simp: h1 sv3 bye_all drn)
qed

theorem shutdown_misses_newcomer_witness:
  "\<not> ns_done (sv_sess (shutdown_finish (fst (shutdown_start 5 (newServer sample_config)))
     (snd (serveControl_start sample_spec ''s'' None 6 (snd (shutdown_start 5 (newServer sample_config)))))) 0)"
proof -
  have n: "ns_spec_name sample_spec = ''a''" "sv_next (newServer sample_config) = 0"
    by (simp_all add: sample_spec_def newServer_def)
  have "Config_NodeConfig (sv_cfg (newServer sample_config)) ''a'' \<noteq> None" by code_simp
  then obtain nc where "Config_NodeConfig (sv_cfg (newServer sample_config)) (ns_spec_name sample_spec) = Some nc"
    unfolding n by blast
  moreover have "current (ns_spec_name sample_spec) (newServer sample_config) = None" unfolding n by code_simp
  ultimately show ?thesis
    using shutdown_misses_newcomer [OF server_ok_new [OF sample_config_wf], of sample_spec nc "''s''" 6 5]
    by (simp add: n)
qed

text \<open>An offline node can keep a listener. When a control channel ends, \<open>serveControl\<close> stops the
  node's listeners before it takes the node out of the registry. A reload that starts one of its
  ports between the two finds the node online: the port goes on accepting for a node that is
  offline.\<close>

theorem offline_node_keeps_listener:
  fixes sv r cfg p spec why now
  defines "n \<equiv> ns_name (sv_sess sv r)"
  defines "sv1 \<equiv> start_port cfg p (stop_node (ns_name (sv_sess sv r)) False sv)"
  defines "sv2 \<equiv> close_session r why (control_offline r why now sv1)"
  assumes wf: "lm_wf (sv_lm sv)" "ports_wf cfg" and cur: "current (ns_name (sv_sess sv r)) sv = Some r"
    and port: "map_of (cfg_ports cfg) p = Some spec" "ps_node spec = ns_name (sv_sess sv r)"
  shows "current n sv2 = None \<and> holder sv2 p = Some n \<and>
    holder (serveControl_end r why now sv) p \<noteq> Some n"
proof -
  have "ps_port spec = p" using ports_wf_lookup [OF wf(2) port(1)] by (simp add: port_ok_def)
  then have "holder sv1 p = Some n"
    using port cur lm_wf_StopNode [OF wf(1)]
    by (simp add: sv1_def start_port_def holder_StartPort online_def n_def)
  moreover have "holder sv2 p = holder sv1 p" by (simp add: sv2_def control_offline_def)
  moreover have "ns_name (sv_sess sv1 r) = n" "current n sv1 = Some r"
    using cur by (simp_all add: sv1_def n_def)
  then have "current n sv2 = None" by (simp add: sv2_def control_offline_def Get_Unregister)
  moreover have "holder (serveControl_end r why now sv) p = holder (stop_node n False sv) p"
    by (simp add: serveControl_end_def control_offline_def n_def)
  ultimately show ?thesis by (simp add: holder_StopNode [OF wf(1)])
qed

theorem offline_node_keeps_listener_witness:
  "holder (close_session 1 ''x'' (control_offline 1 ''x'' 0
     (start_port sample_config 84 (stop_node ''c'' False sample_server)))) 84 = Some ''c''"
proof -
  have n: "ns_name (sv_sess sample_server 1) = ''c''" by code_simp
  have c: "current ''c'' sample_server = Some 1" by code_simp
  have p: "map_of (cfg_ports sample_config) 84 = Some \<lparr>ps_port = 84, ps_node = ''c'', ps_remote = ''h:3''\<rparr>" by code_simp
  have w: "ports_wf sample_config" using sample_config_wf by (simp add: config_wf_def)
  have "current (ns_name (sv_sess sample_server 1)) sample_server = Some 1" unfolding n by (rule c)
  from offline_node_keeps_listener [OF server_okD(2) [OF sample_server_ok] w this p, of "''x''" 0]
  show ?thesis unfolding n by simp
qed

text \<open>C38: A late drain stops the listeners of its successor. The goroutine of \<open>drainNode\<close> ends with
  \<open>StopNode\<close> by the name of the node. If, while it still waits or is writing its bye, the drained
  session ends, the node is put back into the configuration and connects again, the goroutine stops
  the listeners of the new session: the node is online and undrained, owns its ports, and not one
  of them listens any more, though all of them did before, unless another drain had done the same.
  This is the step by which a node comes into \<open>late_drained\<close>.\<close>

theorem late_drain_stops_successor:
  assumes "config_wf cfg" and "sv = fold server_step ops (newServer cfg)"
    and "(r, why) \<in> set (sv_drains sv)" and "current (ns_name (sv_sess sv r)) sv = Some r'" and "r' \<noteq> r"
    and "serving sv r'" and "owner (sv_cfg sv) p = Some (ns_name (sv_sess sv r))"
  defines "sv' \<equiv> drain_finish r why sv"
  shows "(ns_name (sv_sess sv r) \<notin> late_drained ops (newServer cfg) \<longrightarrow>
      holder sv p = Some (ns_name (sv_sess sv r))) \<and>
    server_step (OpDrainFinish r why) sv = sv' \<and>
    ns_name (sv_sess sv r) \<in> late_drained (ops @ [OpDrainFinish r why]) (newServer cfg) \<and>
    current (ns_name (sv_sess sv r)) sv' = Some r' \<and> serving sv' r' \<and>
    owner (sv_cfg sv') p = Some (ns_name (sv_sess sv r)) \<and> holder sv' p = None"
proof -
  let ?n = "ns_name (sv_sess sv r)"
  have ok: "server_ok_but (late_drained ops (newServer cfg)) sv"
    unfolding assms(2) using assms(1) by (rule server_run_ok)
  have h: "?n \<notin> late_drained ops (newServer cfg) \<longrightarrow> holder sv p = Some ?n"
    using server_okD(10) [OF ok assms(7) _ assms(4,6)] by blast
  have mine: "holder sv p \<in> {None, Some ?n}"
    using server_okD(8) [OF ok, of p] assms(7) by (cases "holder sv p") auto
  have late: "?n \<in> late_drained (ops @ [OpDrainFinish r why]) (newServer cfg)"
    using assms(2-5) by (simp add: late_drained_def tracked_step_def tracked_server late_drain_def)
  have "drain_finish r why sv = close_session r why (stop_node ?n False
      (SendControl r (zero_message\<lparr>m_type := TypeBye, m_reason := why\<rparr>)
        (sv\<lparr>sv_drains := remove1 (r, why) (sv_drains sv)\<rparr>)))"
    by (simp add: drain_finish_def)
  then show ?thesis
    using h mine late assms(3-7) by (auto simp: sv'_def serving_def holder_StopNode [OF server_okD(2) [OF ok]])
qed

definition without_a :: config where
  "without_a = sample_config\<lparr>
     cfg_nodes := [(''c'', \<lparr>ns_spec_name = ''c'', ns_spec_key = ''l'', ns_spec_channels = 2\<rparr>)],
     cfg_node_order := [''c''],
     cfg_ports := [(84, \<lparr>ps_port = 84, ps_node = ''c'', ps_remote = ''h:3''\<rparr>)], cfg_port_order := [84]\<rparr>"

definition reconnected_ops :: "server_op list" where
  "reconnected_ops = [OpControl sample_spec ''s'' None 0, OpReload (\<lambda>_. True) 1 without_a,
     OpControlEnd 0 ''x'' 2, OpReload (\<lambda>_. True) 3 sample_config, OpControl sample_spec ''t'' None 4]"

lemma reconnected_late: "late_drained reconnected_ops sv = {}"
  by (simp add: late_drained_def tracked_step_def reconnected_ops_def)

theorem late_drain_stops_successor_witness:
  "holder (fold server_step reconnected_ops (newServer sample_config)) 80 = Some ''a'' \<and>
   holder (drain_finish 0 ''node removed from config'' (fold server_step reconnected_ops (newServer sample_config))) 80 = None"
proof -
  let ?sv = "fold server_step reconnected_ops (newServer sample_config)"
  have n: "ns_name (sv_sess ?sv 0) = ''a''" and d: "(0, ''node removed from config'') \<in> set (sv_drains ?sv)"
    and c: "current ''a'' ?sv = Some 1" and s: "serving ?sv 1" and p: "owner (sv_cfg ?sv) 80 = Some ''a''"
    by code_simp+
  show ?thesis
    using late_drain_stops_successor [OF sample_config_wf refl, of 0 _ reconnected_ops 1 80] n d c s p reconnected_late
    by simp
qed

end
