(* ===== verification/Config_Agreement.thy ===== *)
theory Config_Agreement
  imports Server_Properties Client_Session
begin

text \<open>
  Server and client together: the messages that server.go writes to a session, read in order by
  the handshake and the control loop of client.go, make the client agree with the session, and so
  with the configuration in force. The wire keeps the order of a session's messages (it is one
  WebSocket), and a message arrives as it was sent: the JSON encoding is the identity.
\<close>

section \<open>The messages of a session\<close>

definition msgs_to :: "sref \<Rightarrow> server \<Rightarrow> message list" where
  "msgs_to r sv = map snd (filter (\<lambda>i. fst i = r) (sv_sent sv))"

text \<open>What a message after the welcome changes in the client: its configuration and its draining flag.\<close>

fun view_step :: "message \<Rightarrow> node_config \<times> bool \<Rightarrow> node_config \<times> bool" where
  "view_step m (cfg, d) =
     (if m_type m = TypeReloadConfig then (case m_config m of None \<Rightarrow> (cfg, d) | Some c \<Rightarrow> (c, d))
      else if m_type m = TypeDrain then (cfg, True) else (cfg, d))"

text \<open>A session is linked to its messages: a welcome with its id and some configuration comes first,
  nothing after it ends the loop, and the last state that they give is that of the session.\<close>

definition link :: "node_session \<Rightarrow> message list \<Rightarrow> bool" where
  "link s ms \<longleftrightarrow>
     (\<exists>w rest c. ms = w # rest \<and> m_type w = TypeWelcome \<and> m_session w = ns_id s \<and> m_config w = Some c \<and>
        (\<forall>m \<in> set rest. m_type m \<noteq> TypeBye \<and> m_type m \<noteq> TypeError) \<and>
        fold view_step rest (c, False) = (ns_cfg s, ns_draining s))"

lemma link_append:
  assumes "link s ms" "ns_id s' = ns_id s" "m_type m \<noteq> TypeBye" "m_type m \<noteq> TypeError"
    "view_step m (ns_cfg s, ns_draining s) = (ns_cfg s', ns_draining s')"
  shows "link s' (ms @ [m])"
proof -
  obtain w rest c where l: "ms = w # rest" "m_type w = TypeWelcome" "m_session w = ns_id s" "m_config w = Some c"
    "\<forall>m \<in> set rest. m_type m \<noteq> TypeBye \<and> m_type m \<noteq> TypeError"
    "fold view_step rest (c, False) = (ns_cfg s, ns_draining s)"
    using assms(1) by (auto simp: link_def)
  then show ?thesis
    using assms(2-5) unfolding link_def by (intro exI [of _ w] exI [of _ "rest @ [m]"] exI [of _ c]) auto
qed

lemma link_same:
  "link s ms \<Longrightarrow> ns_id s' = ns_id s \<Longrightarrow> ns_cfg s' = ns_cfg s \<Longrightarrow> ns_draining s' = ns_draining s \<Longrightarrow> link s' ms"
  by (simp add: link_def)

lemma link_welcome: "link (newNodeSession n sid nc qt now) [welcome_message (newNodeSession n sid nc qt now)]"
  by (simp add: link_def welcome_message_def zero_message_def newNodeSession_def)

section \<open>The invariant\<close>

text \<open>Every open session that holds a node is linked; messages go to existing sessions only.\<close>

definition linked :: "server \<Rightarrow> bool" where
  "linked sv \<longleftrightarrow>
     (\<forall>(q, m) \<in> set (sv_sent sv). q < sv_next sv) \<and>
     (\<forall>n r. current n sv = Some r \<and> \<not> ns_done (sv_sess sv r) \<longrightarrow> link (sv_sess sv r) (msgs_to r sv))"

lemma linkedI:
  assumes "\<And>q m. (q, m) \<in> set (sv_sent sv) \<Longrightarrow> q < sv_next sv"
    "\<And>n r. current n sv = Some r \<Longrightarrow> \<not> ns_done (sv_sess sv r) \<Longrightarrow> link (sv_sess sv r) (msgs_to r sv)"
  shows "linked sv"
  using assms by (auto simp: linked_def)

lemma linkedD:
  assumes "linked sv"
  shows "(q, m) \<in> set (sv_sent sv) \<Longrightarrow> q < sv_next sv"
    "current n sv = Some r \<Longrightarrow> \<not> ns_done (sv_sess sv r) \<Longrightarrow> link (sv_sess sv r) (msgs_to r sv)"
    "msgs_to (sv_next sv) sv = []"
  using assms by (auto simp: linked_def msgs_to_def filter_empty_conv)

text \<open>An operation that sends nothing and keeps what the link reads.\<close>

lemma linked_quiet:
  assumes "linked sv" "sv_sent sv' = sv_sent sv" "sv_next sv \<le> sv_next sv'"
    "\<And>n r. current n sv' = Some r \<Longrightarrow> current n sv = Some r"
    "\<And>n r. current n sv = Some r \<Longrightarrow> \<not> ns_done (sv_sess sv' r) \<Longrightarrow>
       \<not> ns_done (sv_sess sv r) \<and> ns_id (sv_sess sv' r) = ns_id (sv_sess sv r) \<and>
       ns_cfg (sv_sess sv' r) = ns_cfg (sv_sess sv r) \<and> ns_draining (sv_sess sv' r) = ns_draining (sv_sess sv r)"
  shows "linked sv'"
proof (rule linkedI)
  show "q < sv_next sv'" if "(q, m) \<in> set (sv_sent sv')" for q m
    using that assms(2,3) linkedD(1) [OF assms(1), of q m] by simp
  show "link (sv_sess sv' r) (msgs_to r sv')" if "current n sv' = Some r" "\<not> ns_done (sv_sess sv' r)" for n r
    using linkedD(2) [OF assms(1) assms(4) [OF that(1)]] assms(5) [OF assms(4) [OF that(1)] that(2)] assms(2)
    by (auto simp: msgs_to_def intro: link_same)
qed

text \<open>One message to one session, with the change that goes with it.\<close>

lemma linked_send:
  assumes "linked sv" "r < sv_next sv"
    "m_type m \<noteq> TypeBye \<and> m_type m \<noteq> TypeError" "ns_id (f (sv_sess sv r)) = ns_id (sv_sess sv r)"
    "ns_done (f (sv_sess sv r)) = ns_done (sv_sess sv r)"
    "view_step m (ns_cfg (sv_sess sv r), ns_draining (sv_sess sv r)) =
       (ns_cfg (f (sv_sess sv r)), ns_draining (f (sv_sess sv r)))"
  shows "linked (SendControl r m (upd_sess r f sv))"
proof (rule linkedI)
  let ?sv = "SendControl r m (upd_sess r f sv)"
  show "q < sv_next ?sv" if "(q, m') \<in> set (sv_sent ?sv)" for q m'
    using that assms(2) linkedD(1) [OF assms(1), of q m'] by auto
  show "link (sv_sess ?sv q) (msgs_to q ?sv)" if "current n ?sv = Some q" "\<not> ns_done (sv_sess ?sv q)" for n q
  proof (cases "q = r")
    case True
    have "link (sv_sess sv r) (msgs_to r sv)"
      using that True assms(5) linkedD(2) [OF assms(1), of n r] by simp
    with True show ?thesis
      using link_append [of "sv_sess sv r" "msgs_to r sv" "f (sv_sess sv r)" m] assms(3,4,6) by (simp add: msgs_to_def)
  next
    case False
    with that show ?thesis using linkedD(2) [OF assms(1), of n q] by (simp add: msgs_to_def)
  qed
qed

lemma upd_sess_id: "upd_sess r id sv = sv"
  by (simp add: upd_sess_def)

lemma linked_send_plain:
  "linked sv \<Longrightarrow> r < sv_next sv \<Longrightarrow> m_type m = TypePing \<or> m_type m = TypePong \<Longrightarrow> linked (SendControl r m sv)"
  using linked_send [of sv r m id] by (auto simp: upd_sess_id)

section \<open>Every handler keeps it\<close>

lemma linked_close: "linked sv \<Longrightarrow> linked (close_session r why sv)"
  by (erule linked_quiet) (auto split: if_splits simp: close_session_simps)

lemma linked_upd_lm: "linked sv \<Longrightarrow> linked (upd_lm f sv)"
  by (erule linked_quiet) auto

lemma linked_touch: "linked sv \<Longrightarrow> linked (upd_sess r (Touch now d) sv)"
  by (erule linked_quiet) (auto split: if_splits)

lemma linked_message: "linked sv \<Longrightarrow> r < sv_next sv \<Longrightarrow> linked (snd (server_message r now msg sv))"
proof -
  assume l: "linked sv" and r: "r < sv_next sv"
  let ?sv = "upd_sess r (Touch now 0) sv"
  have t: "linked ?sv" using l by (rule linked_touch)
  have stats: "linked (upd_sess r (SetClientStats cs) ?sv\<lparr>sv_reg := with_stats n f (sv_reg ?sv)\<rparr>)" for cs n f
    using t by (rule linked_quiet) (auto split: if_splits simp: SetClientStats_def)
  have pong: "linked (SendControl r (zero_message\<lparr>m_type := TypePong, m_nonce := a, m_ts := b\<rparr>) ?sv)" for a b
    using t r by (intro linked_send_plain) simp_all
  show ?thesis
    using t stats pong linked_touch by (simp add: server_message_def Let_def split: option.split)
qed

lemma linked_ping: "linked sv \<Longrightarrow> r < sv_next sv \<Longrightarrow> linked (snd (ping_tick r now nonce we interval sv))"
  by (auto simp: ping_tick_def Let_def linked_close linked_send_plain split: option.split)

lemma linked_data:
  assumes l: "linked sv"
  shows "linked (snd (serveData spec hello outcome sv))"
  using l by (rule linked_quiet)
    (auto simp: serveData_def data_accept_def data_up_def NextChannelID_def new_channel_def AddChannel_def
      setup_attributes split: option.splits if_splits prod.splits sum.splits data_setup.splits)

lemma linked_data_down: "linked sv \<Longrightarrow> linked (data_down r c sv)"
  unfolding data_down_def by (erule linked_quiet) (auto split: if_splits)

lemma sample_fold:
  "sv_sent (fold (\<lambda>r sv. sv\<lparr>sv_reg := with_stats (ns_name (sv_sess sv r)) f (sv_reg sv)\<rparr>) rs sv) = sv_sent sv \<and>
   sv_next (fold (\<lambda>r sv. sv\<lparr>sv_reg := with_stats (ns_name (sv_sess sv r)) f (sv_reg sv)\<rparr>) rs sv) = sv_next sv \<and>
   sv_sess (fold (\<lambda>r sv. sv\<lparr>sv_reg := with_stats (ns_name (sv_sess sv r)) f (sv_reg sv)\<rparr>) rs sv) = sv_sess sv \<and>
   current n (fold (\<lambda>r sv. sv\<lparr>sv_reg := with_stats (ns_name (sv_sess sv r)) f (sv_reg sv)\<rparr>) rs sv) = current n sv"
  by (induction rs arbitrary: sv) simp_all

lemma linked_sample: "linked sv \<Longrightarrow> linked (sample_tick per_second now sv)"
  unfolding sample_tick_def by (erule linked_quiet) (simp_all add: sample_fold)

lemma linked_end: "linked sv \<Longrightarrow> linked (serveControl_end r why now sv)"
  unfolding serveControl_end_def
  by (rule linked_close, erule linked_quiet)
    (auto simp: control_offline_def stop_node_def Get_Unregister upd_lm_def split: if_splits)

lemma linked_drain_finish:
  assumes l: "linked sv" and r: "r < sv_next sv"
  shows "linked (drain_finish r why sv)"
proof (rule linkedI)
  let ?sv = "drain_finish r why sv"
  have sv: "sv_sent ?sv = sv_sent sv @ [(r, zero_message\<lparr>m_type := TypeBye, m_reason := why\<rparr>)]"
    "sv_next ?sv = sv_next sv" "current n ?sv = current n sv"
    "sv_sess ?sv q = (if q = r then Session_Close why (sv_sess sv r) else sv_sess sv q)" for n q
    by (simp_all add: drain_finish_def)
  show "q < sv_next ?sv" if "(q, m) \<in> set (sv_sent ?sv)" for q m
    using that r linkedD(1) [OF l, of q m] by (auto simp: sv)
  show "link (sv_sess ?sv q) (msgs_to q ?sv)" if "current n ?sv = Some q" "\<not> ns_done (sv_sess ?sv q)" for n q
    using that linkedD(2) [OF l, of n q] by (auto simp: sv msgs_to_def split: if_splits)
qed

text \<open>The loops of a reload.\<close>

lemma linked_drain:
  assumes "linked sv" "\<And>r. current n sv = Some r \<Longrightarrow> r < sv_next sv"
  shows "linked (drainNode g t why n sv)"
proof (cases "current n sv")
  case (Some r)
  let ?m = "zero_message\<lparr>m_type := TypeDrain, m_deadline := Some (t + g)\<rparr>"
  have "linked (SendControl r ?m (upd_sess r (SetDraining True) sv))"
    using assms Some by (intro linked_send) simp_all
  then have "linked (stop_node n True (SendControl r ?m (upd_sess r (SetDraining True) sv)))"
    by (simp add: stop_node_def linked_upd_lm)
  then show ?thesis
    by (rule linked_quiet) (use Some in \<open>simp_all add: drainNode_def Let_def stop_node_def upd_lm_def\<close>)
qed (use assms(1) in \<open>simp add: drainNode_def\<close>)

lemma linked_push:
  assumes "linked sv" "\<And>r. current n sv = Some r \<Longrightarrow> r < sv_next sv"
  shows "linked (pushConfig n c sv)"
  using assms by (auto simp: pushConfig_def intro!: linked_send split: option.split)

lemma linked_reload:
  assumes l: "linked sv" and ok: "server_ok_but X sv"
  shows "linked (applyReload bind now new sv)"
proof -
  let ?P = "\<lambda>sv'. linked sv' \<and> sv_reg sv' = sv_reg sv \<and> sv_next sv' = sv_next sv"
  note live = server_okD(6) [OF ok]
  have 1: "?P (fold (drainNode g now why) ns sv')" if "?P sv'" for g why ns sv'
    by (rule fold_invariant [where Q = "\<lambda>_. True"]) (use that live in \<open>auto intro: linked_drain\<close>)
  have close: "?P (force_reconnect n sv')" if "?P sv'" for n sv'
    using that by (auto simp: force_reconnect_def stop_node_def intro: linked_close linked_upd_lm split: option.split)
  have 2: "?P (fold force_reconnect ns sv')" if "?P sv'" for ns sv'
    by (rule fold_invariant [where Q = "\<lambda>_. True"]) (use that close in auto)
  have 3: "?P (fold stop_port ps sv')" if "?P sv'" for sv' ps
    by (rule fold_invariant [where Q = "\<lambda>_. True"]) (use that in \<open>auto simp: stop_port_def intro: linked_upd_lm\<close>)
  have start: "?P (start_port new p sv')" if "?P sv'" for p sv'
    using that by (auto simp: start_port_def intro: linked_upd_lm split: option.split)
  have 4: "?P (fold (start_port new) ps sv')" if "?P sv'" for sv' ps
    by (rule fold_invariant [where Q = "\<lambda>_. True"]) (use that start in auto)
  have 5: "?P (fold (\<lambda>n. pushConfig n new) ns sv')" if "?P sv'" for sv' ns
    by (rule fold_invariant [where Q = "\<lambda>_. True"]) (use that live in \<open>auto intro: linked_push\<close>)
  have 6: "?P (setServerConfig new sv')" if "?P sv'" for sv'
    using that linked_quiet [of sv' "setServerConfig new sv'"] by (auto simp: setServerConfig_def)
  have sent: "sv_sent (rebindEndpoints bind a b sv') = sv_sent sv'" for a b sv'
    by (simp add: rebindEndpoints_def Let_def)
  have 7: "?P (rebindEndpoints bind a b sv')" if "?P sv'" for sv' a b
  proof -
    have "linked sv'" using that by blast
    then have "linked (rebindEndpoints bind a b sv')" by (rule linked_quiet) (simp_all add: sent)
    with that show ?thesis by simp
  qed
  have "?P (reload_teardown d now sv)" for d
    unfolding reload_teardown_def using l by (intro 1 2 3) simp
  then have "?P (applyReload bind now new sv)"
    unfolding applyReload_general Let_def reload_pushes_fold by (intro 4 5) (use 6 7 in auto)
  then show ?thesis by simp
qed

text \<open>A control channel comes up.\<close>

lemma linked_start:
  assumes l: "linked sv" and ok: "server_ok_but X sv"
  shows "linked (snd (serveControl_start spec sid we now sv))"
proof (cases "Config_NodeConfig (sv_cfg sv) (ns_spec_name spec)")
  case None
  with l show ?thesis by (simp add: serveControl_start_def control_prepare_def)
next
  case (Some nc)
  let ?n = "ns_spec_name spec" and ?sv = "snd (serveControl_start spec sid we now sv)"
  have old: "r \<noteq> sv_next sv" if "current n sv = Some r" for n r
    using server_okD(6) [OF ok that] by simp
  show ?thesis
  proof (cases "current ?n sv = None \<and> we = None")
    case True
    then have n: "current ?n sv = None" by blast
    note up = serveControl_start_up [OF ok Some n, of sid now]
    have sv: "sv_sent ?sv = sv_sent sv @ [(sv_next sv, welcome_message (sv_sess ?sv (sv_next sv)))]"
      "sv_next ?sv = Suc (sv_next sv)"
      using up True Some n
      by (auto simp: welcome_message_def newNodeSession_def serveControl_start_def control_prepare_def
          control_register_cases control_welcome_def start_node_def)
    show ?thesis
    proof (rule linkedI)
      show "q < sv_next ?sv" if "(q, m) \<in> set (sv_sent ?sv)" for q m
        using that linkedD(1) [OF l, of q m] by (auto simp: sv)
      show "link (sv_sess ?sv r) (msgs_to r ?sv)" if "current m ?sv = Some r" "\<not> ns_done (sv_sess ?sv r)" for m r
      proof (cases "r = sv_next sv")
        case True
        have "msgs_to r ?sv = [welcome_message (sv_sess ?sv r)]"
          using linkedD(3) [OF l] by (simp add: True msgs_to_def sv)
        moreover have "sv_sess ?sv r =
            newNodeSession ?n sid nc (st_queue_timeout (cfg_settings (sv_cfg sv))) now"
          using up \<open>current ?n sv = None \<and> we = None\<close> True by simp
        ultimately show ?thesis using link_welcome by simp
      next
        case False
        with that up \<open>current ?n sv = None \<and> we = None\<close>
        have "current m sv = Some r" "sv_sess ?sv r = sv_sess sv r" by (auto split: if_splits)
        with False that(2) show ?thesis
          using linkedD(2) [OF l, of m r] by (simp add: msgs_to_def sv)
      qed
    qed
  next
    case False
    from l show ?thesis
      by (rule linked_quiet)
        (use False Some old in \<open>auto simp: serveControl_start_def control_prepare_def control_register_cases
           control_welcome_def control_offline_def Get_Unregister Get_Register split: if_splits option.splits\<close>)
  qed
qed

lemma linked_step: "linked sv \<Longrightarrow> server_ok_but X sv \<Longrightarrow> drains_known sv \<Longrightarrow> linked (server_step op sv)"
  by (cases op)
    (auto simp: linked_start linked_end linked_message linked_ping linked_data linked_sample linked_data_down
      linked_reload linked_drain_finish linked_upd_lm drains_known_def)

interpretation agreement: invariant_system "\<lambda>sv. linked sv \<and> server_ok_but UNIV sv \<and> drains_known sv" server_step
  by unfold_locales (use linked_step server.step_inv in blast)

section \<open>The client\<close>

lemma sup_target_SetTarget: "sup_target (SetTarget pick k s) = max 1 k"
proof -
  have "sup_target (spawn_until j t) = sup_target t" for j t
    by (induction j arbitrary: t) (simp_all add: spawn_def)
  moreover have "sup_target (dismiss_until pick j t) = sup_target t" for j t
    by (induction j arbitrary: t) (simp_all add: dismiss_def Let_def)
  ultimately show ?thesis by (simp add: SetTarget_def Let_def)
qed

text \<open>Reading the messages after the welcome gives the state that \<open>view_step\<close> computes.\<close>

lemma loop_view:
  assumes "\<forall>m \<in> set ms. m_type m \<noteq> TypeBye \<and> m_type m \<noteq> TypeError" "cl_cfg c = Some cfg"
    "sup_target s = max 1 (Channels cfg)" "fold view_step ms (cfg, cl_draining c) = (cfg', d')"
  shows "\<exists>c' s' out. controlLoop pick (map (\<lambda>m. (False, Inr m)) ms) (c, s) = (None, (c', s'), out) \<and>
    cl_cfg c' = Some cfg' \<and> cl_draining c' = d' \<and> cl_session c' = cl_session c \<and>
    sup_target s' = max 1 (Channels cfg')"
  using assms
proof (induction ms arbitrary: c cfg s)
  case (Cons m ms)
  obtain res c1 s1 out where one: "control_message pick m (c, s) = (res, (c1, s1), out)"
    by (metis prod.collapse)
  then have eff: "cl_cfg c1 = Some (fst (view_step m (cfg, cl_draining c)))"
    "cl_draining c1 = snd (view_step m (cfg, cl_draining c))" "cl_session c1 = cl_session c"
    "sup_target s1 = max 1 (Channels (fst (view_step m (cfg, cl_draining c))))" "res = Continue"
    using Cons.prems(1-3)
    by (auto simp: control_message_def setConfig_def sup_target_SetTarget split: option.splits if_splits)
  have "fold view_step ms (fst (view_step m (cfg, cl_draining c)), cl_draining c1) = (cfg', d')"
    using Cons.prems(4) eff(2) by simp
  with Cons.IH [OF _ eff(1,4)] Cons.prems(1) eff(3) show ?case
    by (force simp: one eff(5))
qed simp

text \<open>The remote that a client finds for a port, under a configuration in force.\<close>

lemma in_force_remote:
  assumes wf: "config_wf cfg" and s: "in_force cfg n s" and c: "cl_cfg c = Some (ns_cfg s)" and p: "int64_range p"
  shows "remoteFor p c =
    (case map_of (cfg_ports cfg) p of None \<Rightarrow> '''' | Some ps \<Rightarrow> if ps_node ps = n then ps_remote ps else '''')"
proof -
  from s obtain nc where nc: "Config_NodeConfig cfg n = Some nc" "map_of (Ports (ns_cfg s)) = map_of (Ports nc)"
    by (auto simp: in_force_def same_node_config_def split: option.splits)
  then have ports: "map_of (Ports (ns_cfg s)) (itoa p) = map_of (allow_list cfg n) (itoa p)"
    by (auto simp: Config_NodeConfig_def split: option.splits)
  have "ports_wf cfg" using wf by (simp add: config_wf_def)
  note iff = allow_list_iff [OF this p, of n]
  have "map_index (Ports (ns_cfg s)) (itoa p) =
      (case map_of (cfg_ports cfg) p of None \<Rightarrow> '''' | Some ps \<Rightarrow> if ps_node ps = n then ps_remote ps else '''')"
  proof (cases "map_of (allow_list cfg n) (itoa p)")
    case None
    then have "\<not> (\<exists>ps. map_of (cfg_ports cfg) p = Some ps \<and> ps_node ps = n)" using iff by auto
    with None show ?thesis by (auto simp: map_index_def ports split: option.split)
  next
    case (Some a)
    then show ?thesis using iff [of a] by (auto simp: map_index_def ports)
  qed
  then show ?thesis by (simp add: remoteFor_def c)
qed

section \<open>The property\<close>

text \<open>C3: what the configuration says reaches the client. Take a server after any sequence of
  handlers and a node with an open session. The messages written to that session begin with a
  welcome; a client whose handshake reads it and whose control loop reads the others is still
  running and agrees with the server on the session id, the configuration, the number of data
  channels and whether it is draining. If it is not, the remote it dials for any port is the one
  that the configuration in force gives to that port and node, and none for every other port.\<close>

theorem configuration_reaches_client:
  fixes c conn pick
  assumes "config_wf cfg" and "sv = fold server_step ops (newServer cfg)"
    and "current n sv = Some r" and "\<not> ns_done (sv_sess sv r)"
  shows "\<exists>w rest c1 cfg1 c2 sup out. msgs_to r sv = w # rest \<and>
    session_handshake \<lparr>he_dial = None, he_write = None, he_reply = Inr w\<rparr> conn c = (None, c1) \<and>
    cl_cfg c1 = Some cfg1 \<and>
    controlLoop pick (map (\<lambda>m. (False, Inr m)) rest) (c1, SetTarget pick (Channels cfg1) newSupervisor) =
      (None, (c2, sup), out) \<and>
    cl_session c2 = ns_id (sv_sess sv r) \<and> cl_cfg c2 = Some (ns_cfg (sv_sess sv r)) \<and>
    cl_draining c2 = ns_draining (sv_sess sv r) \<and> sup_target sup = max 1 (Channels (ns_cfg (sv_sess sv r))) \<and>
    (\<not> ns_draining (sv_sess sv r) \<longrightarrow> (\<forall>p. int64_range p \<longrightarrow> remoteFor p c2 =
       (case map_of (cfg_ports (sv_cfg sv)) p of
          None \<Rightarrow> '''' | Some ps \<Rightarrow> if ps_node ps = n then ps_remote ps else '''')))"
proof -
  have "linked (newServer cfg)" by (simp add: linked_def newServer_def newRegistry_def Get_def)
  then have inv: "linked sv \<and> server_ok_but UNIV sv \<and> drains_known sv"
    unfolding assms(2) using server_ok_new [OF assms(1)]
    by (intro agreement.run_inv conjI) (simp_all add: drains_known_def newServer_def)
  then obtain w rest c0 where l: "msgs_to r sv = w # rest" "m_type w = TypeWelcome"
    "m_session w = ns_id (sv_sess sv r)" "m_config w = Some c0"
    "\<forall>m \<in> set rest. m_type m \<noteq> TypeBye \<and> m_type m \<noteq> TypeError"
    "fold view_step rest (c0, False) = (ns_cfg (sv_sess sv r), ns_draining (sv_sess sv r))"
    using linkedD(2) [of sv n r] assms(3,4) by (auto simp: link_def)
  define c1 where "c1 = snd (session_handshake \<lparr>he_dial = None, he_write = None, he_reply = Inr w\<rparr> conn c)"
  have c1: "session_handshake \<lparr>he_dial = None, he_write = None, he_reply = Inr w\<rparr> conn c = (None, c1)"
    "cl_cfg c1 = Some c0" "\<not> cl_draining c1" "cl_session c1 = ns_id (sv_sess sv r)"
    using l(2-4) by (simp_all add: c1_def session_handshake_def handshake_reply_def setConfig_def setSession_def setCtrl_def)
  have "sup_target (SetTarget pick (Channels c0) newSupervisor) = max 1 (Channels c0)"
    by (rule sup_target_SetTarget)
  from loop_view [OF l(5) c1(2) this, of "ns_cfg (sv_sess sv r)" "ns_draining (sv_sess sv r)" pick] l(6) c1(3)
  obtain c2 sup out where run: "controlLoop pick (map (\<lambda>m. (False, Inr m)) rest)
      (c1, SetTarget pick (Channels c0) newSupervisor) = (None, (c2, sup), out)"
    "cl_cfg c2 = Some (ns_cfg (sv_sess sv r))" "cl_draining c2 = ns_draining (sv_sess sv r)"
    "cl_session c2 = cl_session c1" "sup_target sup = max 1 (Channels (ns_cfg (sv_sess sv r)))"
    by auto
  have "remoteFor p c2 = (case map_of (cfg_ports (sv_cfg sv)) p of
      None \<Rightarrow> '''' | Some ps \<Rightarrow> if ps_node ps = n then ps_remote ps else '''')"
    if "\<not> ns_draining (sv_sess sv r)" "int64_range p" for p
  proof (rule in_force_remote [OF _ _ run(2) that(2)])
    show "config_wf (sv_cfg sv)" using inv server_okD(1) by blast
    show "in_force (sv_cfg sv) n (sv_sess sv r)"
      using inv server_okD(7) [OF _ assms(3)] assms(4) that(1) by (auto simp: serving_def)
  qed
  with l(1) c1 run show ?thesis by (metis (no_types, lifting))
qed

theorem configuration_reaches_client_witness:
  "\<forall>c conn pick. \<exists>w rest c1 cfg1 c2 sup out. msgs_to 0 sample_server = w # rest \<and>
    session_handshake \<lparr>he_dial = None, he_write = None, he_reply = Inr w\<rparr> conn c = (None, c1) \<and>
    cl_cfg c1 = Some cfg1 \<and> controlLoop pick (map (\<lambda>m. (False, Inr m)) rest) (c1, SetTarget pick (Channels cfg1) newSupervisor) =
      (None, (c2, sup), out) \<and>
    cl_session c2 = ''s'' \<and> \<not> cl_draining c2 \<and> remoteFor 80 c2 = ''h:1'' \<and> remoteFor 84 c2 = ''''"
proof (intro allI)
  fix c conn pick
  have a: "current ''a'' sample_server = Some 0" "\<not> ns_done (sv_sess sample_server 0)"
    and s: "ns_id (sv_sess sample_server 0) = ''s''" "\<not> ns_draining (sv_sess sample_server 0)"
    and p: "map_of (cfg_ports (sv_cfg sample_server)) 80 = Some \<lparr>ps_port = 80, ps_node = ''a'', ps_remote = ''h:1''\<rparr>"
      "map_of (cfg_ports (sv_cfg sample_server)) 84 = Some \<lparr>ps_port = 84, ps_node = ''c'', ps_remote = ''h:3''\<rparr>"
    by code_simp+
  have r: "int64_range 80" "int64_range 84" by (simp_all add: int64_range_def)
  from configuration_reaches_client [OF sample_config_wf sample_server_def a, where c = c and conn = conn and pick = pick]
  show "\<exists>w rest c1 cfg1 c2 sup out. msgs_to 0 sample_server = w # rest \<and>
    session_handshake \<lparr>he_dial = None, he_write = None, he_reply = Inr w\<rparr> conn c = (None, c1) \<and>
    cl_cfg c1 = Some cfg1 \<and> controlLoop pick (map (\<lambda>m. (False, Inr m)) rest) (c1, SetTarget pick (Channels cfg1) newSupervisor) =
      (None, (c2, sup), out) \<and>
    cl_session c2 = ''s'' \<and> \<not> cl_draining c2 \<and> remoteFor 80 c2 = ''h:1'' \<and> remoteFor 84 c2 = ''''"
    by (elim ex_forward) (elim conjE, intro conjI; use s p r in simp)
qed

text \<open>The order that the property relies on can be lost only before the welcome: a reload that falls
  between the registration of a session and its welcome writes to the session first. The client
  takes the message for the reply to its hello and gives up, although it was welcome.\<close>

theorem reload_overtakes_welcome:
  fixes spec sid t sv new
  defines "r \<equiv> sv_next sv"
    and "sv1 \<equiv> snd (control_register (sv_next sv) (snd (control_prepare spec sid t sv)))"
  defines "sv2 \<equiv> snd (control_welcome r None t (pushConfig (ns_spec_name spec) new sv1))"
  assumes l: "linked sv" and nc: "Config_NodeConfig (sv_cfg sv) (ns_spec_name spec) = Some nc"
    and free: "current (ns_spec_name spec) sv = None" and new: "Config_NodeConfig new (ns_spec_name spec) = Some nc'"
  shows "current (ns_spec_name spec) sv2 = Some r \<and> map m_type (msgs_to r sv2) = [TypeReloadConfig, TypeWelcome] \<and>
    session_handshake \<lparr>he_dial = None, he_write = None, he_reply = Inr (hd (msgs_to r sv2))\<rparr> conn c =
      (Some ''unexpected reply to hello: reload_config'', c)"
proof -
  have sv1: "current (ns_spec_name spec) sv1 = Some r" "sv_sent sv1 = sv_sent sv"
    using nc free by (simp_all add: sv1_def r_def control_prepare_def control_register_cases Get_Register)
  have "msgs_to r sv2 = [zero_message\<lparr>m_type := TypeReloadConfig, m_config := Some nc'\<rparr>,
      welcome_message (sv_sess (pushConfig (ns_spec_name spec) new sv1) r)]"
    using linkedD(3) [OF l] sv1 new by (simp add: sv2_def control_welcome_def pushConfig_def msgs_to_def r_def)
  moreover have "current (ns_spec_name spec) sv2 = Some r"
    using sv1 by (simp add: sv2_def control_welcome_def)
  ultimately show ?thesis
    by (simp add: welcome_message_def session_handshake_def handshake_reply_def)
qed

theorem reload_overtakes_welcome_witness:
  "map m_type (msgs_to 0 (snd (control_welcome 0 None 0 (pushConfig ''a'' rekeyed_config
     (snd (control_register 0 (snd (control_prepare sample_spec ''s'' 0 (newServer sample_config))))))))) =
     [TypeReloadConfig, TypeWelcome]"
proof -
  have l: "linked (newServer sample_config)" by (simp add: linked_def newServer_def newRegistry_def Get_def)
  have n: "ns_spec_name sample_spec = ''a''" "sv_next (newServer sample_config) = 0"
    by (simp_all add: sample_spec_def newServer_def)
  have "Config_NodeConfig (sv_cfg (newServer sample_config)) ''a'' \<noteq> None" "Config_NodeConfig rekeyed_config ''a'' \<noteq> None"
    "current ''a'' (newServer sample_config) = None"
    by code_simp+
  then show ?thesis
    using reload_overtakes_welcome [OF l, where spec = sample_spec and new = rekeyed_config and sid = "''s''" and t = 0] by (auto simp: n)
qed

end
