(* ===== verification/Config_Watch.thy ===== *)
theory Config_Watch
  imports Server_Properties
begin

text \<open>
  \<open>watchConfig\<close> of internal/server/server.go: the goroutine that decides when a reload happens. Its
  state is the debounce timer, the time at which it fires (stopped at first); each event is what its
  \<open>select\<close> receives. The name of a file event is compared by \<open>filepath.Base\<close>, an argument, and the
  document is read by \<open>Load\<close> when the timer fires.
\<close>

record watcher =
  wt_timer :: "time option"
  wt_server :: server

datatype watch_event =
    Hangup time
  | FileEvent string time
  | Fire time config_lib "string \<Rightarrow> bool"

definition start_watch :: "server \<Rightarrow> watcher" where
  "start_watch sv = \<lparr>wt_timer = None, wt_server = sv\<rparr>"

definition debounce_delay :: duration where
  "debounce_delay = 200000000"

fun watch_step :: "(string \<Rightarrow> string) \<Rightarrow> string \<Rightarrow> watch_event \<Rightarrow> watcher \<Rightarrow> watcher" where
  "watch_step base path (Hangup now) w = w\<lparr>wt_timer := Some now\<rparr>"
| "watch_step base path (FileEvent name now) w =
     (if base name \<noteq> base path then w else w\<lparr>wt_timer := Some (now + debounce_delay)\<rparr>)"
| "watch_step base path (Fire now lib bind) w =
     (case wt_timer w of
        None \<Rightarrow> w
      | Some due \<Rightarrow>
          if now < due then w
          else (case Load lib path of
                  Inl e \<Rightarrow> w\<lparr>wt_timer := None\<rparr>
                | Inr (cfg, warnings) \<Rightarrow>
                    w\<lparr>wt_timer := None, wt_server := applyReload bind now cfg (wt_server w)\<rparr>))"

lemma watch_step_ok: "server_ok_but X (wt_server w) \<Longrightarrow> server_ok_but X (wt_server (watch_step base path e w))"
  by (cases e) (auto intro: reload_ok Load_config_wf split: option.split sum.split)

interpretation watch: invariant_system "\<lambda>w. server_ok_but X (wt_server w)" "watch_step base path" for X base path
  by unfold_locales (rule watch_step_ok)

text \<open>While events keep coming the timer does not fire.\<close>

definition quiet_until :: "time \<Rightarrow> watch_event \<Rightarrow> bool" where
  "quiet_until due e \<longleftrightarrow> (case e of Fire now lib bind \<Rightarrow> now < due | _ \<Rightarrow> False)"

lemma quiet_fires:
  "list_all (quiet_until due) es \<Longrightarrow> wt_timer w = Some due \<Longrightarrow> fold (watch_step base path) es w = w"
proof (induction es arbitrary: w)
  case (Cons e es)
  then have "watch_step base path e w = w" by (cases e) (simp_all add: quiet_until_def)
  with Cons show ?case by simp
qed simp

fun burst :: "(string \<times> time \<times> watch_event list) list \<Rightarrow> watch_event list" where
  "burst [] = []"
| "burst ((name, now, es) # rest) = FileEvent name now # es @ burst rest"

lemma burst_once:
  assumes "bs \<noteq> []" "list_all (\<lambda>(name, now, es). base name = base path \<and> list_all (quiet_until (now + debounce_delay)) es) bs"
  shows "fold (watch_step base path) (burst bs) w = w\<lparr>wt_timer := Some (fst (snd (last bs)) + debounce_delay)\<rparr>"
  using assms
proof (induction bs arbitrary: w)
  case (Cons b bs)
  obtain name now es where b: "b = (name, now, es)" by (cases b)
  let ?w = "w\<lparr>wt_timer := Some (now + debounce_delay)\<rparr>"
  have "fold (watch_step base path) es ?w = ?w"
    using Cons.prems(2) by (intro quiet_fires [where due = "now + debounce_delay"]) (simp_all add: b)
  with Cons.prems Cons.IH [of ?w] show ?case by (cases "bs = []") (simp_all add: b)
qed simp

text \<open>C32: a change of the file is one reload, and a bad file is none. However many events an editor
  causes, as long as the timer finds none of them 200 ms old nothing happens; the timer that finds
  the last one so old loads the document once and applies it, or leaves the server exactly as it
  was if the document does not load; a further firing does nothing. Whatever the events, the
  server stays as consistent as it was: no node is added to those that \<open>X\<close> spares.\<close>

theorem reload_debounced:
  assumes "bs \<noteq> []"
    and "list_all (\<lambda>(name, now, es). base name = base path \<and> list_all (quiet_until (now + debounce_delay)) es) bs"
    and "fst (snd (last bs)) + debounce_delay \<le> now"
    and "server_ok_but X (wt_server w)"
  shows "wt_server (fold (watch_step base path) (burst bs) w) = wt_server w \<and>
    fold (watch_step base path) (burst bs @ [Fire now lib bind]) w =
      \<lparr>wt_timer = None, wt_server = (case Load lib path of
         Inl e \<Rightarrow> wt_server w | Inr (cfg, warnings) \<Rightarrow> applyReload bind now cfg (wt_server w))\<rparr> \<and>
    fold (watch_step base path) (burst bs @ [Fire now lib bind, Fire later lib' bind']) w =
      fold (watch_step base path) (burst bs @ [Fire now lib bind]) w \<and>
    server_ok_but X (wt_server (fold (watch_step base path) events w))"
proof -
  note b = burst_once [OF assms(1,2), of w]
  have eta: "w\<lparr>wt_timer := x\<rparr> = \<lparr>wt_timer = x, wt_server = wt_server w\<rparr>" for x
    by (cases w) simp
  have "fold (watch_step base path) (burst bs @ [Fire now lib bind]) w =
      \<lparr>wt_timer = None, wt_server = (case Load lib path of
         Inl e \<Rightarrow> wt_server w | Inr (cfg, warnings) \<Rightarrow> applyReload bind now cfg (wt_server w))\<rparr>"
    using assms(3) by (auto simp: b eta split: sum.split)
  moreover have "server_ok_but X (wt_server (fold (watch_step base path) events w))"
    using assms(4) by (rule watch.run_inv)
  ultimately show ?thesis using b by simp
qed

theorem reload_debounced_witness:
  "wt_server (fold (watch_step id ''p'')
      (burst [(''p'', 0, [Fire 1 sample_lib (\<lambda>_. True)]), (''p'', 5, [])] @ [Fire 200000005 sample_lib (\<lambda>_. True)])
      (start_watch sample_server)) =
    applyReload (\<lambda>_. True) 200000005 sample_config sample_server"
proof -
  have ok: "server_ok (wt_server (start_watch sample_server))"
    using sample_server_ok by (simp add: start_watch_def)
  have "list_all (\<lambda>(name, now, es). id name = id ''p'' \<and> list_all (quiet_until (now + debounce_delay)) es)
      [(''p'', 0, [Fire 1 sample_lib (\<lambda>_. True)]), (''p'', 5, [])]"
    by (simp add: quiet_until_def debounce_delay_def)
  from reload_debounced [OF _ this _ ok, of 200000005 sample_lib "\<lambda>_. True"] show ?thesis
    by (simp add: debounce_delay_def Load_sample start_watch_def)
qed

end
