(* ===== verification/Server_Status.thy ===== *)
theory Server_Status
  imports Server_Control
begin

text \<open>
  internal/server/status.go: the telemetry. \<open>buildStatus\<close> is the document of /status, and
  \<open>handleMetrics\<close> writes the Prometheus text through a \<open>metricSet\<close>, whose builder is \<open>ms_text\<close>.
  Reading the statistics of a node creates them, so the registry is threaded through.
  A map of labels is an association list. Floating point is an argument: \<open>ceil_quotient\<close> is
  \<open>math.Ceil(float64(a) / float64(b))\<close> as an integer and \<open>format_float\<close> is \<open>formatFloat\<close> on
  integral values. Both quotes of \<open>%q\<close> are written for names without special characters.
\<close>

record controlStatus =
  cts_connected :: bool
  cts_last_seen :: time
  cts_rtt_ms :: int

record channelStatus =
  chs_configured :: int
  chs_online :: nat

record streamStatus =
  sts_active :: int
  sts_opened_total :: int
  sts_queue_depth :: int

record capacityStatus =
  cps_max_streams_per_conn :: int
  cps_max_concurrent :: int
  cps_peak_demand :: int
  cps_channels_needed_at_peak :: int
  cps_saturated_total :: int

record trafficStatus =
  tfs_bytes_in :: int
  tfs_bytes_out :: int
  tfs_rate_in_bps :: int
  tfs_rate_out_bps :: int

record nodeStatus =
  nst_node :: string
  nst_up :: bool
  nst_connected_at :: "time option"
  nst_disconnected_at :: "time option"
  nst_control :: "controlStatus option"
  nst_channels :: "channelStatus option"
  nst_streams :: "streamStatus option"
  nst_capacity :: "capacityStatus option"
  nst_traffic :: "trafficStatus option"
  nst_ports :: "PortStatus list"
  nst_last_error :: "string option"

record statusDoc =
  doc_nodes :: "nodeStatus list"
  doc_offline :: "nodeStatus list"

text \<open>The accessors of registry.go that the page reads; \<open>Milliseconds\<close> cuts a duration off.\<close>

definition Times :: "node_stats \<Rightarrow> time option \<times> time option \<times> string" where
  "Times s = (connectedAt s, disconnectedAt s, lastError s)"

definition Rates :: "node_stats \<Rightarrow> int \<times> int" where
  "Rates s = (rateIn s, rateOut s)"

definition RTT :: "node_session \<Rightarrow> duration" where
  "RTT s = ns_rtt_micros s * 1000"

section \<open>The status document\<close>

text \<open>The part of a node's entry that does not need its session.\<close>

definition node_base :: "config \<Rightarrow> string \<Rightarrow> server \<Rightarrow> nodeStatus" where
  "node_base cfg name sv =
     (let st = stats_of name (sv_reg sv)
      in case (Times st, Rates st) of
           ((connected_at, disconnected_at, last_err), (rate_in, rate_out)) \<Rightarrow>
             \<lparr>nst_node = name, nst_up = False, nst_connected_at = connected_at,
              nst_disconnected_at = disconnected_at, nst_control = None, nst_channels = None,
              nst_streams = None, nst_capacity = None,
              nst_traffic = Some \<lparr>tfs_bytes_in = BytesIn st, tfs_bytes_out = BytesOut st,
                tfs_rate_in_bps = rate_in, tfs_rate_out_bps = rate_out\<rparr>,
              nst_ports = Snapshot name cfg (sv_reg sv) (sv_lm sv),
              nst_last_error = (if last_err \<noteq> '''' then Some last_err else None)\<rparr>)"

definition needed_channels :: "(int \<Rightarrow> int \<Rightarrow> int) \<Rightarrow> int \<Rightarrow> int \<Rightarrow> int" where
  "needed_channels ceil_quotient peak max_streams =
     (if 0 < max_streams then ceil_quotient peak max_streams else 0)"

definition node_online :: "(int \<Rightarrow> int \<Rightarrow> int) \<Rightarrow> node_session \<Rightarrow> node_stats \<Rightarrow> nodeStatus \<Rightarrow> nodeStatus" where
  "node_online ceil_quotient sess st ns =
     (let nc = ns_cfg sess
      in ns\<lparr>nst_up := True,
            nst_control := Some \<lparr>cts_connected = True, cts_last_seen = ns_last_seen sess,
              cts_rtt_ms = RTT sess div 1000000\<rparr>,
            nst_channels := Some \<lparr>chs_configured = Channels nc, chs_online = OnlineChannels sess\<rparr>,
            nst_streams := Some \<lparr>sts_active = ns_active_streams sess, sts_opened_total = Opened st,
              sts_queue_depth = ns_queue_depth sess\<rparr>,
            nst_capacity := Some \<lparr>cps_max_streams_per_conn = MaxStreamsPerConn nc,
              cps_max_concurrent = Channels nc * MaxStreamsPerConn nc, cps_peak_demand = Peak st,
              cps_channels_needed_at_peak = needed_channels ceil_quotient (Peak st) (MaxStreamsPerConn nc),
              cps_saturated_total = Saturated st\<rparr>\<rparr>)"

definition status_node ::
  "(int \<Rightarrow> int \<Rightarrow> int) \<Rightarrow> string \<Rightarrow> string \<Rightarrow> statusDoc \<times> server \<Rightarrow> statusDoc \<times> server" where
  "status_node ceil_quotient filter_by name acc =
     (let doc = fst acc; sv0 = snd acc
      in if filter_by \<noteq> '''' \<and> filter_by \<noteq> name then acc
         else (let sv = sv0\<lparr>sv_reg := Stats name (sv_reg sv0)\<rparr>; ns = node_base (sv_cfg sv) name sv
               in case Get name (sv_reg sv) of
                    None \<Rightarrow> (doc\<lparr>doc_offline := doc_offline doc @ [ns]\<rparr>, sv)
                  | Some r \<Rightarrow>
                      (doc\<lparr>doc_nodes := doc_nodes doc @
                         [node_online ceil_quotient (sv_sess sv r) (stats_of name (sv_reg sv)) ns]\<rparr>, sv)))"

definition buildStatus :: "(int \<Rightarrow> int \<Rightarrow> int) \<Rightarrow> string \<Rightarrow> server \<Rightarrow> statusDoc \<times> server" where
  "buildStatus ceil_quotient filter_by sv =
     fold (status_node ceil_quotient filter_by) (sort (cfg_node_order (sv_cfg sv)))
       (\<lparr>doc_nodes = [], doc_offline = []\<rparr>, sv)"

section \<open>The metrics text\<close>

type_synonym labels = "(string \<times> string) list"

definition newline :: string where
  "newline = [CHR 0x0A]"

definition escape_char :: "char \<Rightarrow> string" where
  "escape_char c =
     (if c = CHR 0x5C then [CHR 0x5C, CHR 0x5C]
      else if c = CHR 0x0A then [CHR 0x5C, CHR ''n'']
      else if c = CHR 0x22 then [CHR 0x5C, CHR 0x22]
      else [c])"

definition escapeLabel :: "string \<Rightarrow> string" where
  "escapeLabel v = concat (map escape_char v)"

fun join :: "string \<Rightarrow> string list \<Rightarrow> string" where
  "join sep [] = ''''"
| "join sep [p] = p"
| "join sep (p # q # ps) = p @ sep @ join sep (q # ps)"

definition label_value :: "labels \<Rightarrow> string \<Rightarrow> string" where
  "label_value ls k = (case map_of ls k of None \<Rightarrow> '''' | Some v \<Rightarrow> v)"

definition label_part :: "labels \<Rightarrow> string \<Rightarrow> string" where
  "label_part ls k = k @ [CHR ''='', CHR 0x22] @ escapeLabel (label_value ls k) @ [CHR 0x22]"

definition renderLabels :: "labels \<Rightarrow> string" where
  "renderLabels ls =
     (if length ls = 0 then ''''
      else ''{'' @ join '','' (map (label_part ls) (sort (map fst ls))) @ ''}'')"

record metricSet =
  ms_text :: string
  ms_types :: "(string \<times> string) list"

definition newMetricSet :: metricSet where
  "newMetricSet = \<lparr>ms_text = '''', ms_types = []\<rparr>"

definition quoted :: "string \<Rightarrow> string" where
  "quoted s = [CHR 0x22] @ s @ [CHR 0x22]"

definition metric_declare :: "string \<Rightarrow> string \<Rightarrow> string \<Rightarrow> metricSet \<Rightarrow> metricSet" where
  "metric_declare name typ doc m =
     m\<lparr>ms_types := AList.update name typ (ms_types m),
       ms_text := ms_text m @ ''# HELP '' @ name @ '' '' @ doc @ newline @
         ''# TYPE '' @ name @ '' '' @ typ @ newline\<rparr>"

definition metric_emit :: "string \<Rightarrow> string \<Rightarrow> labels \<Rightarrow> string \<Rightarrow> metricSet \<Rightarrow> metricSet" where
  "metric_emit typ name ls v m =
     (if map_of (ms_types m) name \<noteq> Some typ
      then m\<lparr>ms_text := ms_text m @ ''# ERROR '' @ name @ '' is declared '' @
               quoted (case map_of (ms_types m) name of None \<Rightarrow> '''' | Some got \<Rightarrow> got) @
               '' but was emitted as '' @ quoted typ @ newline\<rparr>
      else m\<lparr>ms_text := ms_text m @ name @ renderLabels ls @ '' '' @ v @ newline\<rparr>)"

definition metric_gauge :: "(int \<Rightarrow> string) \<Rightarrow> string \<Rightarrow> labels \<Rightarrow> int \<Rightarrow> metricSet \<Rightarrow> metricSet" where
  "metric_gauge format_float name ls v = metric_emit ''gauge'' name ls (format_float v)"

definition metric_gaugeInt :: "string \<Rightarrow> labels \<Rightarrow> int \<Rightarrow> metricSet \<Rightarrow> metricSet" where
  "metric_gaugeInt name ls v = metric_emit ''gauge'' name ls (itoa v)"

definition metric_counter :: "string \<Rightarrow> labels \<Rightarrow> int \<Rightarrow> metricSet \<Rightarrow> metricSet" where
  "metric_counter name ls v = metric_emit ''counter'' name ls (itoa v)"

definition metric_families :: "(string \<times> string \<times> string) list" where
  "metric_families =
     [(''tunnel_node_up'', ''gauge'', ''1 when the node has a live control channel''),
      (''tunnel_channels'', ''gauge'', ''Configured vs online data channels''),
      (''tunnel_streams_active'', ''gauge'', ''Streams currently forwarding''),
      (''tunnel_streams_peak'', ''gauge'', ''Peak concurrent stream demand since start''),
      (''tunnel_channels_needed_peak'', ''gauge'', ''ceil(peak_demand / max_streams_per_conn)''),
      (''tunnel_stream_open_total'', ''counter'', ''Stream open attempts by result''),
      (''tunnel_bytes_total'', ''counter'', ''Bytes forwarded by direction''),
      (''tunnel_node_saturated_total'', ''counter'', ''Times every channel was full past queue_timeout''),
      (''tunnel_local_dial_errors_total'', ''counter'', ''Client-side dial failures to the local service''),
      (''tunnel_port_listening'', ''gauge'', ''1 when the reverse port is bound''),
      (''tunnel_port_bind_errors_total'', ''counter'', ''Failed binds of the reverse port since start'')]"

definition metrics_port :: "(int \<Rightarrow> string) \<Rightarrow> string \<Rightarrow> PortStatus \<Rightarrow> metricSet \<Rightarrow> metricSet" where
  "metrics_port format_float name ps m =
     (let ls = [(''node'', name), (''port'', itoa (pst_port ps))]
      in metric_counter ''tunnel_port_bind_errors_total'' ls (pst_bind_errors ps)
           (metric_gauge format_float ''tunnel_port_listening'' ls (if pst_listening ps then 1 else 0) m))"

text \<open>The figures of a node: up, configured and online channels, active streams, stream limit.\<close>

definition node_figures :: "server \<Rightarrow> string \<Rightarrow> int \<times> int \<times> int \<times> int \<times> int" where
  "node_figures sv name =
     (case Get name (sv_reg sv) of
        None \<Rightarrow> (0, (case map_of (cfg_nodes (sv_cfg sv)) name of None \<Rightarrow> 0 | Some n \<Rightarrow> ns_spec_channels n), 0, 0,
                 st_max_streams (cfg_settings (sv_cfg sv)))
      | Some r \<Rightarrow> (1, Channels (ns_cfg (sv_sess sv r)), int (OnlineChannels (sv_sess sv r)),
                   ns_active_streams (sv_sess sv r), MaxStreamsPerConn (ns_cfg (sv_sess sv r))))"

definition metrics_traffic :: "string \<Rightarrow> node_stats \<Rightarrow> metricSet \<Rightarrow> metricSet" where
  "metrics_traffic name st m0 =
     (let l = [(''node'', name)];
          m1 = fold (\<lambda>result. metric_counter ''tunnel_stream_open_total''
                 [(''node'', name), (''result'', result)] (Result result st)) streamResults m0;
          m2 = metric_counter ''tunnel_bytes_total'' [(''node'', name), (''dir'', ''in'')] (BytesIn st) m1;
          m3 = metric_counter ''tunnel_bytes_total'' [(''node'', name), (''dir'', ''out'')] (BytesOut st) m2;
          m4 = metric_counter ''tunnel_node_saturated_total'' l (Saturated st) m3
      in metric_counter ''tunnel_local_dial_errors_total'' l (LocalDialErrors st) m4)"

definition metrics_node ::
  "(int \<Rightarrow> int \<Rightarrow> int) \<Rightarrow> (int \<Rightarrow> string) \<Rightarrow> string \<Rightarrow> metricSet \<times> server \<Rightarrow> metricSet \<times> server" where
  "metrics_node ceil_quotient format_float name acc =
     (let sv = (snd acc)\<lparr>sv_reg := Stats name (sv_reg (snd acc))\<rparr>; st = stats_of name (sv_reg sv);
          l = [(''node'', name)]
      in case node_figures sv name of
           (up, configured, connected, active, max_streams) \<Rightarrow>
             (let m1 = metric_gauge format_float ''tunnel_node_up'' l up (fst acc);
                  m2 = metric_gaugeInt ''tunnel_channels'' [(''node'', name), (''state'', ''configured'')] configured m1;
                  m3 = metric_gaugeInt ''tunnel_channels'' [(''node'', name), (''state'', ''online'')] connected m2;
                  m4 = metric_gaugeInt ''tunnel_streams_active'' l active m3;
                  m5 = metric_gaugeInt ''tunnel_streams_peak'' l (Peak st) m4;
                  m6 = metric_gauge format_float ''tunnel_channels_needed_peak'' l
                         (needed_channels ceil_quotient (Peak st) max_streams) m5;
                  m7 = metrics_traffic name st m6
              in (fold (metrics_port format_float name)
                    (Snapshot name (sv_cfg sv) (sv_reg sv) (sv_lm sv)) m7, sv)))"

definition handleMetrics :: "(int \<Rightarrow> int \<Rightarrow> int) \<Rightarrow> (int \<Rightarrow> string) \<Rightarrow> server \<Rightarrow> string \<times> server" where
  "handleMetrics ceil_quotient format_float sv =
     (let m = fold (\<lambda>(name, typ, doc). metric_declare name typ doc) metric_families newMetricSet
      in case fold (metrics_node ceil_quotient format_float) (sort (cfg_node_order (sv_cfg sv))) (m, sv) of
           (m', sv') \<Rightarrow> (ms_text m', sv'))"

end
