(* ===== verification/Status_Properties.thy ===== *)
theory Status_Properties
  imports Server_Status
begin

text \<open>
  The telemetry of internal/server/status.go: the status document lists every configured node
  once, the metrics text is well-typed and the same at every scrape, and the text of a label
  cannot be mistaken for another label.
\<close>

section \<open>The status document\<close>

text \<open>Reading statistics creates them, which nothing else can observe.\<close>

lemma port_status_Stats [simp]: "port_status node (Stats n r) lm = port_status node r lm"
  by (rule ext) (simp add: port_status_def)

lemma Snapshot_Stats [simp]: "Snapshot node cfg (Stats n r) lm = Snapshot node cfg r lm"
  by (simp add: Snapshot_def)

lemma node_base_Stats [simp]: "node_base cfg name (sv\<lparr>sv_reg := Stats n (sv_reg sv)\<rparr>) = node_base cfg name sv"
  by (simp add: node_base_def Let_def)

definition node_entry :: "(int \<Rightarrow> int \<Rightarrow> int) \<Rightarrow> server \<Rightarrow> string \<Rightarrow> nodeStatus" where
  "node_entry cq sv name =
     (case Get name (sv_reg sv) of
        None \<Rightarrow> node_base (sv_cfg sv) name sv
      | Some r \<Rightarrow> node_online cq (sv_sess sv r) (stats_of name (sv_reg sv)) (node_base (sv_cfg sv) name sv))"

definition selected :: "string \<Rightarrow> string \<Rightarrow> bool" where
  "selected filter_by name \<longleftrightarrow> filter_by = '''' \<or> filter_by = name"

lemma node_entry_Stats [simp]: "node_entry cq (sv\<lparr>sv_reg := Stats n (sv_reg sv)\<rparr>) = node_entry cq sv"
  by (rule ext) (simp add: node_entry_def split: option.split)

lemma status_fold:
  "fold (status_node cq f) names (doc, sv) =
     (\<lparr>doc_nodes = doc_nodes doc @ map (node_entry cq sv) (filter (\<lambda>n. selected f n \<and> Get n (sv_reg sv) \<noteq> None) names),
       doc_offline = doc_offline doc @ map (node_entry cq sv) (filter (\<lambda>n. selected f n \<and> Get n (sv_reg sv) = None) names)\<rparr>,
      sv\<lparr>sv_reg := fold Stats (filter (selected f) names) (sv_reg sv)\<rparr>)"
proof (induction names arbitrary: doc sv)
  case (Cons n names)
  show ?case
  proof (cases "selected f n")
    case False
    then have "status_node cq f n (doc, sv) = (doc, sv)" by (simp add: status_node_def Let_def selected_def)
    with False Cons show ?thesis by simp
  next
    case True
    then have "status_node cq f n (doc, sv) =
        (if Get n (sv_reg sv) \<noteq> None then doc\<lparr>doc_nodes := doc_nodes doc @ [node_entry cq sv n]\<rparr>
         else doc\<lparr>doc_offline := doc_offline doc @ [node_entry cq sv n]\<rparr>, sv\<lparr>sv_reg := Stats n (sv_reg sv)\<rparr>)"
      by (auto simp: status_node_def Let_def selected_def node_entry_def split: option.split)
    with True Cons [of _ "sv\<lparr>sv_reg := Stats n (sv_reg sv)\<rparr>"] show ?thesis by simp
  qed
qed simp

lemma Stats_fold: "live (fold Stats ns r) = live r" "stats_of n (fold Stats ns r) = stats_of n r"
  by (induction ns arbitrary: r) simp_all

lemma node_entry_fields:
  "nst_node (node_entry cq sv n) = n" "nst_up (node_entry cq sv n) \<longleftrightarrow> Get n (sv_reg sv) \<noteq> None"
  "nst_ports (node_entry cq sv n) = Snapshot n (sv_cfg sv) (sv_reg sv) (sv_lm sv)"
  by (simp_all add: node_entry_def node_base_def node_online_def Let_def split_beta split: option.split)

text \<open>C30: the status document is complete and exact. It has one entry for each configured node, or
  for the one that was asked for, in the order of the names, in the list of the online nodes if
  it has a session and of the offline ones if not; every entry reports all ports of its node, in
  document order. Producing it changes nothing that another request could see.\<close>

theorem status_lists_every_node:
  fixes cq filter_by sv
  defines "doc \<equiv> fst (buildStatus cq filter_by sv)" and "sv' \<equiv> snd (buildStatus cq filter_by sv)"
  shows "map nst_node (doc_nodes doc) =
      filter (\<lambda>n. Get n (sv_reg sv) \<noteq> None \<and> (filter_by = '''' \<or> filter_by = n)) (sort (cfg_node_order (sv_cfg sv))) \<and>
    map nst_node (doc_offline doc) =
      filter (\<lambda>n. Get n (sv_reg sv) = None \<and> (filter_by = '''' \<or> filter_by = n)) (sort (cfg_node_order (sv_cfg sv))) \<and>
    list_all nst_up (doc_nodes doc) \<and> list_all (\<lambda>ns. \<not> nst_up ns) (doc_offline doc) \<and>
    list_all (\<lambda>ns. map pst_port (nst_ports ns) = map ps_port (PortsOf (sv_cfg sv) (nst_node ns)))
      (doc_nodes doc @ doc_offline doc) \<and>
    sv' = sv\<lparr>sv_reg := sv_reg sv'\<rparr> \<and> live (sv_reg sv') = live (sv_reg sv) \<and>
    (\<forall>n. stats_of n (sv_reg sv') = stats_of n (sv_reg sv))"
proof -
  have ports: "map pst_port (Snapshot n c r lm) = map ps_port (PortsOf c n)" for n c r lm
    by (simp add: Snapshot_def port_status_def Let_def split: option.split)
  show ?thesis
    unfolding doc_def sv'_def buildStatus_def status_fold
    by (simp add: node_entry_fields comp_def selected_def list_all_iff Stats_fold conj_commute)
      (auto simp: node_entry_fields ports)
qed

text \<open>The capacity figure is the right advice. With a quotient that rounds up, the number of
  channels that the status page says a node needed at its peak is enough for the peak demand, and
  one channel less would not have been.\<close>

theorem needed_channels_suffice:
  assumes "\<And>a b. 0 \<le> a \<Longrightarrow> 0 < b \<Longrightarrow> cq a b = - (- a div b)" and "0 \<le> peak" and "0 < max_streams"
  shows "peak \<le> needed_channels cq peak max_streams * max_streams \<and>
    (\<forall>k. peak \<le> k * max_streams \<longrightarrow> needed_channels cq peak max_streams \<le> k)"
proof -
  have n: "needed_channels cq peak max_streams = - (- peak div max_streams)"
    using assms by (simp add: needed_channels_def)
  have "- peak div max_streams * max_streams \<le> - peak"
    using assms(3) by (simp add: minus_mod_eq_div_mult [symmetric])
  moreover have "- (- peak div max_streams) \<le> k" if "peak \<le> k * max_streams" for k
  proof -
    have "- k = (- k * max_streams) div max_streams"
      using assms(3) nonzero_mult_div_cancel_right [of max_streams "- k"] by simp
    also have "\<dots> \<le> - peak div max_streams"
      using that assms(3) by (intro zdiv_mono1) simp_all
    finally show ?thesis by simp
  qed
  ultimately show ?thesis unfolding n by simp
qed

theorem needed_channels_suffice_witness:
  "needed_channels (\<lambda>a b. - (- a div b)) 513 256 = 3 \<and> (513::int) \<le> needed_channels (\<lambda>a b. - (- a div b)) 513 256 * 256"
  using needed_channels_suffice [of "\<lambda>a b. - (- a div b)" 513 256] by (simp add: needed_channels_def)

section \<open>Labels\<close>

text \<open>A reader of label values: it stops at the first quote that is not escaped.\<close>

fun label_text :: "string \<Rightarrow> (string \<times> string) option" where
  "label_text [] = None"
| "label_text (c # cs) =
     (if c = CHR 0x22 then Some ('''', cs)
      else if c = CHR 0x5C
      then (case cs of
              [] \<Rightarrow> None
            | d # ds \<Rightarrow>
                (case label_text ds of
                   None \<Rightarrow> None
                 | Some (v, rest) \<Rightarrow> Some ((if d = CHR ''n'' then CHR 0x0A else d) # v, rest)))
      else (case label_text cs of None \<Rightarrow> None | Some (v, rest) \<Rightarrow> Some (c # v, rest)))"

lemma label_text_escape: "label_text (escapeLabel v @ [CHR 0x22] @ rest) = Some (v, rest)"
  by (induction v) (simp_all add: escapeLabel_def escape_char_def)

interpretation label_codec: codec "\<lambda>_. True" "\<lambda>v. escapeLabel v @ [CHR 0x22]" label_text
  by unfold_locales (simp add: label_text_escape [simplified])

lemma label_part_inject:
  "label_part ls k @ r = label_part ls' k @ r' \<Longrightarrow> label_value ls k = label_value ls' k \<and> r = r'"
  using label_codec.enc_inject [of "label_value ls k" r "label_value ls' k" r'] by (simp add: label_part_def)

lemma join_inject:
  "join '','' (map (label_part ls) ks) @ ''}'' = join '','' (map (label_part ls') ks) @ ''}'' \<Longrightarrow>
     \<forall>k \<in> set ks. label_value ls k = label_value ls' k"
proof (induction ks rule: induct_list012)
  case (2 k)
  then show ?case using label_part_inject [of ls k "''}''" ls' "''}''"] by simp
next
  case (3 k l ks)
  then show ?case
    using label_part_inject [of ls k "'','' @ join '','' (map (label_part ls) (l # ks)) @ ''}''" ls'
        "'','' @ join '','' (map (label_part ls') (l # ks)) @ ''}''"] by simp
qed simp

text \<open>Labels cannot be forged. Whatever characters a node name or another label value has,
  quotes, backslashes and line breaks included, two samples with the same label names are
  rendered alike only if all their label values are the same; and a rendered value is read back
  as it was up to its closing quote.\<close>

theorem labels_unforgeable:
  assumes "set (map fst ls) = set (map fst ls')" and "distinct (map fst ls)" and "distinct (map fst ls')"
    and "renderLabels ls = renderLabels ls'"
  shows "map_of ls = map_of ls' \<and> label_text (escapeLabel v @ [CHR 0x22] @ rest) = Some (v, rest)"
proof -
  have ks: "sort (map fst ls) = sort (map fst ls')"
    using assms(1-3) sorted_distinct_set_unique [of "sort (map fst ls)" "sort (map fst ls')"] by simp
  have "map_of ls k = map_of ls' k" for k
  proof (cases "k \<in> set (map fst ls)")
    case True
    then have "ls \<noteq> []" "ls' \<noteq> []" using assms(1) by auto
    then have "\<forall>k \<in> set (sort (map fst ls)). label_value ls k = label_value ls' k"
      using assms(4) ks by (intro join_inject) (simp add: renderLabels_def)
    with True have "label_value ls k = label_value ls' k" by (simp only: set_sort)
    moreover from True assms(1) obtain v v' where "map_of ls k = Some v" "map_of ls' k = Some v'"
      by (metis map_of_eq_None_iff option.exhaust set_map)
    ultimately show ?thesis by (simp add: label_value_def)
  next
    case False
    then show ?thesis using assms(1) by (metis map_of_eq_None_iff set_map)
  qed
  then show ?thesis using label_text_escape [of v rest] by blast
qed

theorem labels_unforgeable_witness:
  "renderLabels [(''node'', [CHR ''a'', CHR 0x22])] \<noteq> renderLabels [(''node'', ''a'')]"
proof
  assume "renderLabels [(''node'', [CHR ''a'', CHR 0x22])] = renderLabels [(''node'', ''a'')]"
  from labels_unforgeable [OF _ _ _ this] have "map_of [(''node'', [CHR ''a'', CHR 0x22])] = map_of [(''node'', ''a'')]"
    by simp
  then have "map_of [(''node'', [CHR ''a'', CHR 0x22])] ''node'' = map_of [(''node'', ''a'')] ''node''" by (rule fun_cong)
  then show False by simp
qed

section \<open>The metrics text\<close>

definition metric_types :: "(string \<times> string) list" where
  "metric_types = map (\<lambda>(name, typ, doc). (name, typ)) metric_families"

definition families_text :: string where
  "families_text = concat (map (\<lambda>(name, typ, doc).
     ''# HELP '' @ name @ '' '' @ doc @ newline @ ''# TYPE '' @ name @ '' '' @ typ @ newline) metric_families)"

definition sample_line :: "string \<times> labels \<times> string \<Rightarrow> string" where
  "sample_line = (\<lambda>(name, ls, v). name @ renderLabels ls @ '' '' @ v @ newline)"

text \<open>A metric set that holds the declarations, then samples of declared families only.\<close>

definition well_typed :: "metricSet \<Rightarrow> bool" where
  "well_typed m \<longleftrightarrow> ms_types m = metric_types \<and>
     (\<exists>samples. ms_text m = families_text @ concat (map sample_line samples) \<and>
        (\<forall>(name, ls, v) \<in> set samples. map_of metric_types name \<noteq> None))"

lemma well_typed_start:
  "well_typed (fold (\<lambda>(name, typ, doc). metric_declare name typ doc) metric_families newMetricSet)"
  unfolding well_typed_def
  by (intro conjI exI [of _ "[]"])
    (simp_all add: metric_types_def metric_families_def metric_declare_def newMetricSet_def families_text_def)

lemma well_typed_emit:
  assumes "well_typed m" "map_of metric_types name = Some typ"
  shows "well_typed (metric_emit typ name ls v m)"
proof -
  obtain samples where s: "ms_types m = metric_types" "ms_text m = families_text @ concat (map sample_line samples)"
    "\<forall>(name, ls, v) \<in> set samples. map_of metric_types name \<noteq> None"
    using assms(1) by (auto simp: well_typed_def)
  then show ?thesis
    using assms(2) unfolding well_typed_def
    by (intro conjI exI [of _ "samples @ [(name, ls, v)]"]) (auto simp: metric_emit_def sample_line_def)
qed

lemma metric_types_lookup:
  "map_of metric_types ''tunnel_node_up'' = Some ''gauge''" "map_of metric_types ''tunnel_channels'' = Some ''gauge''"
  "map_of metric_types ''tunnel_streams_active'' = Some ''gauge''" "map_of metric_types ''tunnel_streams_peak'' = Some ''gauge''"
  "map_of metric_types ''tunnel_channels_needed_peak'' = Some ''gauge''"
  "map_of metric_types ''tunnel_stream_open_total'' = Some ''counter''" "map_of metric_types ''tunnel_bytes_total'' = Some ''counter''"
  "map_of metric_types ''tunnel_node_saturated_total'' = Some ''counter''"
  "map_of metric_types ''tunnel_local_dial_errors_total'' = Some ''counter''"
  "map_of metric_types ''tunnel_port_listening'' = Some ''gauge''"
  "map_of metric_types ''tunnel_port_bind_errors_total'' = Some ''counter''"
  by (simp_all add: metric_types_def metric_families_def)

lemma well_typed_port: "well_typed m \<Longrightarrow> well_typed (metrics_port ff name ps m)"
  by (simp add: metrics_port_def Let_def metric_gauge_def metric_counter_def well_typed_emit metric_types_lookup)

lemma well_typed_ports: "well_typed m \<Longrightarrow> well_typed (fold (metrics_port ff name) pss m)"
  by (induction pss arbitrary: m) (simp_all add: well_typed_port)

lemma well_typed_results:
  "well_typed m \<Longrightarrow> well_typed (fold (\<lambda>result. metric_counter ''tunnel_stream_open_total'' (ls result) (f result)) rs m)"
  by (induction rs arbitrary: m) (simp_all add: metric_counter_def well_typed_emit metric_types_lookup)

lemma well_typed_traffic: "well_typed m \<Longrightarrow> well_typed (metrics_traffic name st m)"
  by (simp add: metrics_traffic_def Let_def well_typed_results)
    (simp add: metric_counter_def well_typed_emit metric_types_lookup well_typed_results [unfolded metric_counter_def])

lemma well_typed_node: "well_typed (fst acc) \<Longrightarrow> well_typed (fst (metrics_node cq ff name acc))"
  by (simp add: metrics_node_def Let_def split_beta metric_gauge_def metric_gaugeInt_def well_typed_ports
      well_typed_traffic well_typed_emit metric_types_lookup)

text \<open>What a node contributes depends on the server only through what reading statistics keeps.\<close>

lemma node_figures_Stats [simp]: "node_figures (sv\<lparr>sv_reg := Stats n (sv_reg sv)\<rparr>) = node_figures sv"
  by (rule ext) (simp add: node_figures_def split: option.split)

definition node_metrics :: "(int \<Rightarrow> int \<Rightarrow> int) \<Rightarrow> (int \<Rightarrow> string) \<Rightarrow> server \<Rightarrow> string \<Rightarrow> metricSet \<Rightarrow> metricSet" where
  "node_metrics cq ff sv name m = fst (metrics_node cq ff name (m, sv))"

lemma node_metrics_Stats [simp]:
  "node_metrics cq ff (sv\<lparr>sv_reg := Stats n (sv_reg sv)\<rparr>) = node_metrics cq ff sv"
  by (intro ext) (simp add: node_metrics_def metrics_node_def Let_def node_figures_def split_beta split: option.split)

lemma metrics_node_eq: "metrics_node cq ff n (m, sv) = (node_metrics cq ff sv n m, sv\<lparr>sv_reg := Stats n (sv_reg sv)\<rparr>)"
  by (simp add: node_metrics_def metrics_node_def Let_def split_beta)

lemma metrics_fold:
  "fold (metrics_node cq ff) names (m, sv) =
     (fold (node_metrics cq ff sv) names m, sv\<lparr>sv_reg := fold Stats names (sv_reg sv)\<rparr>)"
proof (induction names arbitrary: m sv)
  case (Cons n names)
  show ?case
    using Cons [of "node_metrics cq ff sv n m" "sv\<lparr>sv_reg := Stats n (sv_reg sv)\<rparr>"] by (simp add: metrics_node_eq)
qed simp

lemma node_metrics_folds [simp]:
  "node_metrics cq ff (sv\<lparr>sv_reg := fold Stats ns (sv_reg sv)\<rparr>) = node_metrics cq ff sv"
proof (induction ns arbitrary: sv)
  case (Cons n ns)
  from Cons [of "sv\<lparr>sv_reg := Stats n (sv_reg sv)\<rparr>"] show ?case by simp
qed simp

text \<open>The metrics are well-typed and stable. The text is the declarations of the eleven families,
  each once and with its type, followed by samples of declared families only, each emitted as the
  type its family has: the error line of the writer never occurs. A second scrape of an unchanged
  server gives the same bytes.\<close>

theorem metrics_well_typed_and_stable:
  "(\<exists>samples. fst (handleMetrics cq ff sv) = families_text @ concat (map sample_line samples) \<and>
      list_all (\<lambda>(name, ls, v). name \<in> fst ` set metric_families) samples) \<and>
   distinct (map fst metric_families) \<and>
   fst (handleMetrics cq ff (snd (handleMetrics cq ff sv))) = fst (handleMetrics cq ff sv)"
proof (intro conjI)
  let ?m = "fold (\<lambda>(name, typ, doc). metric_declare name typ doc) metric_families newMetricSet"
  let ?ns = "sort (cfg_node_order (sv_cfg sv))"
  have h: "handleMetrics cq ff sv = (ms_text (fold (node_metrics cq ff sv) ?ns ?m), sv\<lparr>sv_reg := fold Stats ?ns (sv_reg sv)\<rparr>)"
    by (simp add: handleMetrics_def Let_def metrics_fold)
  have "well_typed m \<Longrightarrow> well_typed (fold (node_metrics cq ff sv) ns m)" for ns m
    by (induction ns arbitrary: m) (simp_all add: node_metrics_def well_typed_node)
  from this [OF well_typed_start] obtain samples where
    "ms_text (fold (node_metrics cq ff sv) ?ns ?m) = families_text @ concat (map sample_line samples)"
    "\<forall>(name, ls, v) \<in> set samples. map_of metric_types name \<noteq> None"
    unfolding well_typed_def by blast
  moreover have "map_of metric_types name \<noteq> None \<longleftrightarrow> name \<in> fst ` set metric_families" for name
    by (auto simp: map_of_eq_None_iff metric_types_def image_image split_beta)
  ultimately show "\<exists>samples. fst (handleMetrics cq ff sv) = families_text @ concat (map sample_line samples) \<and>
      list_all (\<lambda>(name, ls, v). name \<in> fst ` set metric_families) samples"
    unfolding h by (intro exI [of _ samples]) (auto simp: list_all_iff)
  show "distinct (map fst metric_families)" by (simp add: metric_families_def)
  show "fst (handleMetrics cq ff (snd (handleMetrics cq ff sv))) = fst (handleMetrics cq ff sv)"
    unfolding h by (simp add: handleMetrics_def Let_def metrics_fold)
qed

end
