(* ===== verification/Pool_Properties.thy ===== *)
theory Pool_Properties
  imports Open_Stream
begin

text \<open>
  What the slot pool of internal/server/registry.go guarantees, for every interleaving of the
  requests with channels coming and going, reloads, draining and the end of the session.
  The concrete runs are evaluated by the simplifier.
\<close>

definition pool_cfg :: "int \<Rightarrow> node_config" where
  "pool_cfg limit = \<lparr>Ports = [], Channels = 1, Heartbeat = 15 * second, DialTimeout = 10 * second,
     MaxStreamsPerConn = limit\<rparr>"

definition fresh_pool :: "int \<Rightarrow> pool" where
  "fresh_pool limit =
     pool_init (newNodeSession ''node1'' ''s1'' (pool_cfg limit) (5 * second) 0) zero_stats"

definition run_pool :: "int \<Rightarrow> pool_event list \<Rightarrow> pool" where
  "run_pool limit es = fold pool_step es (fresh_pool limit)"

text \<open>A request that arrives and goes as far as \<open>acquire\<close>.\<close>

definition enter :: "nat \<Rightarrow> pool_event list" where
  "enter i = [Arrive, Run i Receive, Run i Receive, Run i Receive]"

lemma run_pool_reachable: "reachable (run_pool limit es)"
  unfolding run_pool_def fresh_pool_def by (rule reachable_run) (rule reachable.start)

text \<open>C1: the slot account. In every reachable state the counter of every data channel, also of one
  that has left the pool, is the number of requests that hold a slot on it; the session's counter of
  active streams is the number of requests that hold any slot, and its queue depth the number of
  requests inside \<open>OpenStream\<close> that have not opened their stream yet. No slot leaks and none is
  released twice.\<close>

theorem slot_account:
  assumes "reachable p"
  shows "ch_active (ns_chans (p_sess p) c) = count_if (held (p_sess p) c) (p_reqs p) \<and>
    ns_active_streams (p_sess p) = count_if (occupied (p_sess p)) (p_reqs p) \<and>
    ns_queue_depth (p_sess p) = count_if queued (p_reqs p)"
  using reachable_ok [OF assms] by (simp add: pool_ok_def slots_ok_def depth_ok_def)

theorem slot_account_witness:
  "let p = run_pool 1 (ChannelUp # enter 0 @ enter 1) in
     ch_active (ns_chans (p_sess p) 0) = count_if (held (p_sess p) 0) (p_reqs p) \<and>
     ns_active_streams (p_sess p) = count_if (occupied (p_sess p)) (p_reqs p) \<and>
     ns_queue_depth (p_sess p) = count_if queued (p_reqs p)"
  unfolding Let_def by (rule slot_account) (rule run_pool_reachable)



text \<open>C14: capacity is never left idle. While somebody is parked, and no reload is between storing its new
  limit and handing out the room it made, every channel in the pool is closed or already carries
  \<open>max_streams_per_conn\<close> streams.\<close>

theorem parked_only_when_full:
  assumes "reachable p" and "p_cfg_pending p = 0" and "ns_waiters (p_sess p) \<noteq> []"
    and "(i, c) \<in> set (ns_channels (p_sess p))"
  shows "ch_closed (ns_chans (p_sess p) c) \<or> ch_sess_closed (ns_chans (p_sess p) c) \<or>
    ns_max_streams (p_sess p) \<le> ch_active (ns_chans (p_sess p) c)"
  using reachable_ok [OF assms(1)] assms(2-4)
  by (force simp: pool_ok_def no_room_def eligible_def)

theorem parked_only_when_full_witness:
  "let s = p_sess (run_pool 1 (ChannelUp # enter 0 @ enter 1)) in
     ch_closed (ns_chans s 0) \<or> ch_sess_closed (ns_chans s 0) \<or> ns_max_streams s \<le> ch_active (ns_chans s 0)"
proof -
  let ?p = "run_pool 1 (ChannelUp # enter 0 @ enter 1)"
  have "p_cfg_pending ?p = 0 \<and> ns_waiters (p_sess ?p) = [0] \<and> ns_channels (p_sess ?p) = [(1, 0)]"
    by code_simp
  then show ?thesis
    using parked_only_when_full [OF run_pool_reachable, of 1 "ChannelUp # enter 0 @ enter 1" 1 0]
    by (simp add: Let_def)
qed

text \<open>C13: a parked request is never forgotten and a handoff never blocks. Its waiter is in the queue, or
  its slot lies in the waiter's buffer; in the second case every way out of the \<open>select\<close> that can
  fire, the timeout and the cancellation included, ends with the request holding that slot.\<close>

theorem handed_slot_not_lost:
  assumes "reachable p" and "i < length (p_reqs p)" and "p_reqs p ! i = Parked w"
  shows "\<not> ns_stuck (p_sess p) \<and>
    (w \<in> set (ns_waiters (p_sess p)) \<or>
     (\<exists>c. w_ready (ns_slots (p_sess p) w) = Some c \<and>
        (\<forall>ch \<in> {Receive, Timer, CtxDone}. p_reqs (pool_step (Run i ch) p) ! i = Holding c)))"
proof -
  have core: "core_ok (p_sess p) (p_reqs p)" using reachable_ok [OF assms(1)] by (simp add: pool_ok_alt)
  then have "\<not> ns_stuck (p_sess p)" by (simp add: core_ok_def queue_ok_def)
  moreover have "w \<in> set (ns_waiters (p_sess p)) \<or>
      w_handed (ns_slots (p_sess p) w) \<and> w_ready (ns_slots (p_sess p) w) \<noteq> None"
    by (rule parked_request(4) [OF core assms(2,3)])
  moreover have "p_reqs (pool_step (Run i ch) p) ! i = Holding c"
    if "w_handed (ns_slots (p_sess p) w)" "w_ready (ns_slots (p_sess p) w) = Some c"
      "ch \<in> {Receive, Timer, CtxDone}" for c ch
    using that assms(2,3)
    by (auto simp: pool_step_def open_step_def take_ready_def abandon_def after_abandon_def Let_def)
  ultimately show ?thesis by blast
qed

theorem handed_slot_not_lost_witness:
  "let p = run_pool 1 (enter 0 @ [ChannelUp]) in
     \<exists>c. w_ready (ns_slots (p_sess p) 0) = Some c \<and> p_reqs (pool_step (Run 0 Timer) p) ! 0 = Holding c"
proof -
  let ?p = "run_pool 1 (enter 0 @ [ChannelUp])"
  have "0 < length (p_reqs ?p) \<and> p_reqs ?p ! 0 = Parked 0 \<and> ns_waiters (p_sess ?p) = []"
    by code_simp
  with handed_slot_not_lost [OF run_pool_reachable, of 0 1 "enter 0 @ [ChannelUp]" 0] show ?thesis
    by (auto simp: Let_def)
qed

text \<open>C29: no data channel is ever overbooked. If the limit the session started with and every limit a
  reload stores is at most \<open>l\<close>, then no channel carries more than \<open>l\<close> streams at any time, whatever
  the requests, channels and reloads do.\<close>

theorem never_overbooked:
  assumes "0 \<le> l" and "MaxStreamsPerConn cfg \<le> l" and "\<forall>e \<in> set es. event_limit l e"
  shows "ch_active (ns_chans (p_sess
      (fold pool_step es (pool_init (newNodeSession name sid cfg qt now) st))) c) \<le> l"
proof -
  have "limited l (p_sess (pool_init (newNodeSession name sid cfg qt now) st))"
    using assms(1,2) by (simp add: limited_def pool_init_def newNodeSession_def zero_channel_def)
  from run_limited [OF this assms(3)] show ?thesis by (simp add: limited_def)
qed

theorem never_overbooked_witness:
  "ch_active (ns_chans (p_sess (run_pool 2 (ChannelUp # enter 0 @ enter 1 @ enter 2 @
     [ConfigStore (pool_cfg 1) 0, ConfigHandoff]))) 0) \<le> 2"
  unfolding run_pool_def fresh_pool_def
  by (rule never_overbooked) (simp_all add: pool_cfg_def enter_def)

text \<open>A new stream lands on the least-loaded usable channel, whatever order the channel map
  iterates in; \<open>reserveLocked\<close> finds none exactly when every channel is closed or full.\<close>

theorem reserve_least_loaded:
  "case reserveLocked s of
     (None, s') \<Rightarrow> s' = s \<and> (\<forall>(i, c) \<in> set (ns_channels s). \<not> eligible (ns_max_streams s) (ns_chans s) c)
   | (Some c, s') \<Rightarrow> s' = add_active c 1 s \<and> eligible (ns_max_streams s) (ns_chans s) c \<and>
       (\<exists>i. (i, c) \<in> set (ns_channels s)) \<and>
       (\<forall>(i, d) \<in> set (ns_channels s). eligible (ns_max_streams s) (ns_chans s) d \<longrightarrow>
          ch_active (ns_chans s c) \<le> ch_active (ns_chans s d))"
proof (cases "reserveLocked s")
  case (Pair r s')
  then show ?thesis
    using reserveLocked_None [of s] reserveLocked_fail [of s s']
      reserveLocked_Some [of s _ s'] by (cases r) force+
qed

theorem reserve_least_loaded_witness:
  "\<exists>s s'. ns_channels s = [(1, 0), (2, 1)] \<and> reserveLocked s = (Some 1, s') \<and>
     ch_active (ns_chans s 1) \<le> ch_active (ns_chans s 0)"
proof -
  let ?s = "p_sess (run_pool 3 (ChannelUp # enter 0 @ [ChannelUp]))"
  have e: "ns_channels ?s = [(1, 0), (2, 1)] \<and> fst (reserveLocked ?s) = Some 1 \<and>
      eligible (ns_max_streams ?s) (ns_chans ?s) 0"
    by code_simp
  then obtain s' where "reserveLocked ?s = (Some 1, s')" by (metis prod.collapse)
  with reserve_least_loaded [of ?s] e show ?thesis by (intro exI [of _ ?s] exI [of _ s']) simp
qed

text \<open>The demand figure can exceed the number of requests. A request that has reserved its slot still
  counts as queued until smux has opened its stream, so it counts twice, against the comment in
  \<open>OpenStream\<close> ("never both at once"): two requests on one channel with room for both leave a peak
  demand of three.\<close>

theorem demand_counted_twice:
  "\<exists>es. let p = run_pool 2 es in
     length (p_reqs p) = 2 \<and> Peak (p_stats p) = 3 \<and>
     ns_active_streams (p_sess p) + ns_queue_depth (p_sess p) = 3"
proof -
  let ?es = "ChannelUp # enter 0 @ [Arrive, Run 1 Receive, Run 1 Receive]"
  have "length (p_reqs (run_pool 2 ?es)) = 2 \<and> Peak (p_stats (run_pool 2 ?es)) = 3 \<and>
      ns_active_streams (p_sess (run_pool 2 ?es)) + ns_queue_depth (p_sess (run_pool 2 ?es)) = 3"
    by code_simp
  then show ?thesis unfolding Let_def by (rule exI [of _ ?es])
qed

text \<open>Closing a session is final for its channels and idempotent. The pool is empty, every channel
  that was in it is closed, the waiters are released by \<open>done\<close>, and a second \<open>Close\<close> with another
  reason changes nothing.\<close>

theorem session_close_final:
  assumes "\<not> ns_done s"
  shows "ns_done (Session_Close r s) \<and> ns_reason (Session_Close r s) = r \<and>
    ns_channels (Session_Close r s) = [] \<and>
    (\<forall>(i, c) \<in> set (ns_channels s). ch_closed (ns_chans (Session_Close r s) c)) \<and>
    fst (reserveLocked (Session_Close r s)) = None \<and>
    Session_Close r' (Session_Close r s) = Session_Close r s"
proof -
  have c: "ns_done (Session_Close r s)" "ns_channels (Session_Close r s) = []"
    "ns_reason (Session_Close r s) = r"
    using assms by (simp_all add: Session_Close_def)
  moreover from c(1) have "Session_Close r' (Session_Close r s) = Session_Close r s"
    by (simp add: Session_Close_def [of r'])
  moreover have "\<forall>(i, c) \<in> set (ns_channels s). ch_closed (ns_chans (Session_Close r s) c)"
    using assms by (force simp: Session_Close_def close_all_closed)
  ultimately show ?thesis using reserveLocked_None [of "Session_Close r s"] by simp
qed

theorem session_close_final_witness:
  "ns_channels (Session_Close ''bye'' (p_sess (run_pool 1 [ChannelUp]))) = [] \<and>
   ch_closed (ns_chans (Session_Close ''bye'' (p_sess (run_pool 1 [ChannelUp]))) 0)"
proof -
  let ?s = "p_sess (run_pool 1 [ChannelUp])"
  have "\<not> ns_done ?s \<and> ns_channels ?s = [(1, 0)]" by code_simp
  with session_close_final [of ?s "''bye''" "''''"] show ?thesis by simp
qed

end
