(* ===== verification/Json_Text.thy ===== *)
theory Json_Text
  imports Tunnel_Prelude
begin

text \<open>
  JSON texts as encoding/json of the Go standard library writes and reads them: the escaping of
  strings (with its HTML-safe escapes and the treatment of bytes that are not UTF-8), the grammar
  of tokens, and the automaton that assembles them, with its limit on the nesting depth. Strings are
  lists of bytes. A number keeps its literal, as the decoder does until it knows the target type.
\<close>

datatype json =
    JNull
  | JBool bool
  | JNum string
  | JStr string
  | JArr "json list"
  | JObj "(string \<times> json) list"

section \<open>UTF-8\<close>

abbreviation byte_of :: "char \<Rightarrow> nat" where
  "byte_of c \<equiv> of_char c"

definition in_range :: "nat \<Rightarrow> nat \<Rightarrow> char \<Rightarrow> bool" where
  "in_range lo hi c \<longleftrightarrow> lo \<le> byte_of c \<and> byte_of c \<le> hi"

abbreviation continuation :: "char \<Rightarrow> bool" where
  "continuation \<equiv> in_range 0x80 0xBF"

text \<open>The first rune of a string and what follows it, as \<open>utf8.DecodeRune\<close> accepts it: no overlong
  form, no surrogate, nothing above U+10FFFF.\<close>

definition utf8_second :: "nat \<Rightarrow> char \<Rightarrow> bool" where
  "utf8_second a =
     (if a = 0xE0 then in_range 0xA0 0xBF
      else if a = 0xED then in_range 0x80 0x9F
      else if a = 0xF0 then in_range 0x90 0xBF
      else if a = 0xF4 then in_range 0x80 0x8F
      else continuation)"

fun utf8_rune :: "string \<Rightarrow> (string \<times> string) option" where
  "utf8_rune [] = None"
| "utf8_rune (a # s) =
     (let x = byte_of a
      in if x < 0x80 then Some ([a], s)
         else if x < 0xC2 \<or> 0xF4 < x then None
         else if x < 0xE0
         then (case s of b # r \<Rightarrow> if continuation b then Some ([a, b], r) else None | _ \<Rightarrow> None)
         else if x < 0xF0
         then (case s of b # c # r \<Rightarrow>
                 if utf8_second x b \<and> continuation c then Some ([a, b, c], r) else None | _ \<Rightarrow> None)
         else (case s of b # c # d # r \<Rightarrow>
                 if utf8_second x b \<and> continuation c \<and> continuation d then Some ([a, b, c, d], r) else None
               | _ \<Rightarrow> None))"

declare utf8_rune.simps [simp del]

lemma utf8_rune_split: "utf8_rune s = Some (u, r) \<Longrightarrow> s = u @ r \<and> u \<noteq> []"
  by (cases s) (auto simp: utf8_rune.simps Let_def split: if_splits list.splits)

lemma utf8_rune_shorter: "utf8_rune s = Some (u, r) \<Longrightarrow> length r < length s"
  using utf8_rune_split [of s u r] by auto

lemma utf8_rune_frame: "utf8_rune s = Some (u, r) \<Longrightarrow> utf8_rune (u @ t) = Some (u, t)"
  by (cases s) (auto simp: utf8_rune.simps Let_def split: if_splits list.splits)

function valid_utf8 :: "string \<Rightarrow> bool" where
  "valid_utf8 s = (if s = [] then True else case utf8_rune s of None \<Rightarrow> False | Some (u, r) \<Rightarrow> valid_utf8 r)"
  by pat_completeness auto
termination by (relation "measure length") (auto intro: utf8_rune_shorter)

declare valid_utf8.simps [simp del]

lemma valid_utf8_Nil [simp]: "valid_utf8 []"
  by (simp add: valid_utf8.simps)

lemma valid_utf8_step: "utf8_rune s = Some (u, r) \<Longrightarrow> valid_utf8 s = valid_utf8 r"
  by (subst valid_utf8.simps) (auto simp: utf8_rune.simps)

lemma valid_utf8_ascii: "byte_of c < 0x80 \<Longrightarrow> valid_utf8 (c # s) = valid_utf8 s"
  by (rule valid_utf8_step [where u = "[c]"]) (simp add: utf8_rune.simps)

lemma valid_utf8_append: "valid_utf8 u \<Longrightarrow> valid_utf8 (u @ v) = valid_utf8 v"
proof (induction u rule: valid_utf8.induct)
  case (1 u)
  show ?case
  proof (cases "u = []")
    case False
    with 1(2) obtain w r where w: "utf8_rune u = Some (w, r)" "valid_utf8 r"
      by (subst (asm) valid_utf8.simps) (auto split: option.splits)
    then have "utf8_rune (u @ v) = Some (w, r @ v)"
      using utf8_rune_frame [OF w(1), of "r @ v"] utf8_rune_split [OF w(1)] by simp
    then show ?thesis using 1(1) [of "(w, r)" w r] w False valid_utf8_step by simp
  qed simp
qed

text \<open>\<open>utf8.EncodeRune\<close>.\<close>

definition utf8_encode :: "nat \<Rightarrow> string" where
  "utf8_encode r =
     (if r < 0x80 then [char_of r]
      else if r < 0x800 then [char_of (0xC0 + r div 64), char_of (0x80 + r mod 64)]
      else if r < 0x10000
      then [char_of (0xE0 + r div 4096), char_of (0x80 + r div 64 mod 64), char_of (0x80 + r mod 64)]
      else [char_of (0xF0 + r div 262144), char_of (0x80 + r div 4096 mod 64),
            char_of (0x80 + r div 64 mod 64), char_of (0x80 + r mod 64)])"

definition replacement_rune :: string where
  "replacement_rune = [CHR 0xEF, CHR 0xBF, CHR 0xBD]"

section \<open>Strings\<close>

abbreviation "quote_char \<equiv> CHR 0x22"
abbreviation "backslash \<equiv> CHR 0x5C"

definition hex_char :: "nat \<Rightarrow> char" where
  "hex_char d = (if d < 10 then char_of (48 + d) else char_of (87 + d))"

definition hex_value :: "char \<Rightarrow> nat option" where
  "hex_value c =
     (let v = byte_of c
      in if 48 \<le> v \<and> v \<le> 57 then Some (v - 48)
         else if 97 \<le> v \<and> v \<le> 102 then Some (v - 87)
         else if 65 \<le> v \<and> v \<le> 70 then Some (v - 55)
         else None)"

definition html_unsafe :: "char \<Rightarrow> bool" where
  "html_unsafe c \<longleftrightarrow> byte_of c < 0x20 \<or> c \<in> set ''<>&''"

definition escape_ascii :: "char \<Rightarrow> string" where
  "escape_ascii c =
     (if c = backslash \<or> c = quote_char then [backslash, c]
      else if c = CHR 0x08 then [backslash, CHR ''b'']
      else if c = CHR 0x0C then [backslash, CHR ''f'']
      else if c = CHR 0x0A then [backslash, CHR ''n'']
      else if c = CHR 0x0D then [backslash, CHR ''r'']
      else if c = CHR 0x09 then [backslash, CHR ''t'']
      else if html_unsafe c
      then [backslash, CHR ''u'', CHR ''0'', CHR ''0'', hex_char (byte_of c div 16), hex_char (byte_of c mod 16)]
      else [c])"

text \<open>The line and paragraph separators U+2028 and U+2029 are escaped.\<close>

definition escape_rune :: "string \<Rightarrow> string" where
  "escape_rune u =
     (case u of
        [c] \<Rightarrow> escape_ascii c
      | _ \<Rightarrow> if u = [CHR 0xE2, CHR 0x80, CHR 0xA8] then backslash # ''u2028''
            else if u = [CHR 0xE2, CHR 0x80, CHR 0xA9] then backslash # ''u2029''
            else u)"

function json_escape :: "string \<Rightarrow> string" where
  "json_escape s =
     (case s of
        [] \<Rightarrow> []
      | c # cs \<Rightarrow>
          (case utf8_rune s of
             None \<Rightarrow> backslash # ''ufffd'' @ json_escape cs
           | Some (u, r) \<Rightarrow> escape_rune u @ json_escape r))"
  by pat_completeness auto
termination by (relation "measure length") (auto dest: utf8_rune_shorter)

declare json_escape.simps [simp del]

definition json_string :: "string \<Rightarrow> string" where
  "json_string s = quote_char # json_escape s @ [quote_char]"

text \<open>Reading: the four hexadecimal digits of an escape, and the surrogate pairs.\<close>

definition hex4 :: "string \<Rightarrow> (nat \<times> string) option" where
  "hex4 s =
     (case s of
        a # b # c # d # r \<Rightarrow>
          (case (hex_value a, hex_value b, hex_value c, hex_value d) of
             (Some w, Some x, Some y, Some z) \<Rightarrow> Some (4096 * w + 256 * x + 16 * y + z, r)
           | _ \<Rightarrow> None)
      | _ \<Rightarrow> None)"

definition unescape_simple :: "char \<Rightarrow> char option" where
  "unescape_simple e =
     (if e = quote_char \<or> e = backslash \<or> e = CHR ''/'' then Some e
      else if e = CHR ''b'' then Some (CHR 0x08)
      else if e = CHR ''f'' then Some (CHR 0x0C)
      else if e = CHR ''n'' then Some (CHR 0x0A)
      else if e = CHR ''r'' then Some (CHR 0x0D)
      else if e = CHR ''t'' then Some (CHR 0x09)
      else None)"

definition low_surrogate :: "string \<Rightarrow> (nat \<times> string) option" where
  "low_surrogate s =
     (case s of
        a # b # r \<Rightarrow>
          if a = backslash \<and> b = CHR ''u''
          then (case hex4 r of
                  None \<Rightarrow> None
                | Some (v, r') \<Rightarrow> if 0xDC00 \<le> v \<and> v < 0xE000 then Some (v, r') else None)
          else None
      | _ \<Rightarrow> None)"

definition unicode_escape :: "string \<Rightarrow> (string \<times> string) option" where
  "unicode_escape s =
     (case hex4 s of
        None \<Rightarrow> None
      | Some (v, r) \<Rightarrow>
          if v < 0xD800 \<or> 0xE000 \<le> v then Some (utf8_encode v, r)
          else if 0xDC00 \<le> v then Some (replacement_rune, r)
          else (case low_surrogate r of
                  None \<Rightarrow> Some (replacement_rune, r)
                | Some (w, r') \<Rightarrow> Some (utf8_encode ((v - 0xD800) * 1024 + (w - 0xDC00) + 0x10000), r')))"

lemma hex4_shorter: "hex4 s = Some (v, r) \<Longrightarrow> length r < length s"
  by (auto simp: hex4_def split: list.splits option.splits)

lemma unicode_escape_shorter: "unicode_escape s = Some (u, r) \<Longrightarrow> length r < length s"
  by (auto simp: unicode_escape_def low_surrogate_def split: option.splits if_splits list.splits
      dest!: hex4_shorter)

text \<open>One character of a string literal: its bytes, \<open>None\<close> where the scanner fails.\<close>

definition unquote_step :: "string \<Rightarrow> (string \<times> string) option" where
  "unquote_step s =
     (case s of
        [] \<Rightarrow> None
      | c # cs \<Rightarrow>
          if c = backslash
          then (case cs of
                  [] \<Rightarrow> None
                | e # r \<Rightarrow>
                    if e = CHR ''u'' then unicode_escape r
                    else map_option (\<lambda>x. ([x], r)) (unescape_simple e))
          else if byte_of c < 0x20 then None
          else (case utf8_rune s of
                  None \<Rightarrow> Some (replacement_rune, cs)
                | Some ur \<Rightarrow> Some ur))"

lemma unquote_step_shorter: "unquote_step s = Some (u, r) \<Longrightarrow> length r < length s"
  by (auto simp: unquote_step_def split: list.splits if_splits option.splits
      dest!: unicode_escape_shorter utf8_rune_shorter)

text \<open>A literal from behind its opening quote to behind its closing one.\<close>

function unquote :: "string \<Rightarrow> (string \<times> string) option" where
  "unquote s =
     (case s of
        [] \<Rightarrow> None
      | c # cs \<Rightarrow>
          if c = quote_char then Some ([], cs)
          else (case unquote_step s of
                  None \<Rightarrow> None
                | Some (u, r) \<Rightarrow> map_option (\<lambda>(t, rest). (u @ t, rest)) (unquote r)))"
  by pat_completeness auto
termination by (relation "measure length") (auto dest: unquote_step_shorter)

declare unquote.simps [simp del]

section \<open>A written string reads back\<close>

lemma unquote_Cons:
  assumes "unquote_step s = Some (u, r)" "hd s \<noteq> quote_char"
  shows "unquote s = map_option (\<lambda>(t, rest). (u @ t, rest)) (unquote r)"
proof -
  obtain c cs where "s = c # cs" using assms(1) by (cases s) (auto simp: unquote_step_def)
  with assms show ?thesis by (subst unquote.simps) simp
qed

lemma unquote_quote [simp]: "unquote (quote_char # rest) = Some ([], rest)"
  by (simp add: unquote.simps)

lemma hex_value_char: "d < 16 \<Longrightarrow> hex_value (hex_char d) = Some d"
  by (auto simp: hex_value_def hex_char_def Let_def)

lemma hex_value_0: "hex_value (CHR ''0'') = Some 0"
  by (simp add: hex_value_def)

lemma separator_chars:
  "char_of (226 :: nat) = CHR 0xE2" "char_of (128 :: nat) = CHR 0x80"
  "char_of (168 :: nat) = CHR 0xA8" "char_of (169 :: nat) = CHR 0xA9"
  by (simp_all add: char_of_eqI)

lemma escape_ascii_safe:
  assumes "\<not> html_unsafe c" "c \<noteq> backslash" "c \<noteq> quote_char"
  shows "escape_ascii c = [c]"
proof -
  have "html_unsafe (CHR 0x08)" "html_unsafe (CHR 0x0C)" "html_unsafe (CHR 0x0A)"
    "html_unsafe (CHR 0x0D)" "html_unsafe (CHR 0x09)"
    by (simp_all add: html_unsafe_def)
  with assms(1) have "c \<noteq> CHR 0x08" "c \<noteq> CHR 0x0C" "c \<noteq> CHR 0x0A" "c \<noteq> CHR 0x0D" "c \<noteq> CHR 0x09"
    by blast+
  with assms show ?thesis by (simp add: escape_ascii_def)
qed

lemma unquote_step_ascii:
  assumes "byte_of c < 0x80"
  shows "unquote_step (escape_ascii c @ t) = Some ([c], t)"
proof (cases "html_unsafe c \<and> c \<notin> {CHR 0x08, CHR 0x0C, CHR 0x0A, CHR 0x0D, CHR 0x09}")
  case True
  moreover have "\<not> html_unsafe backslash" "\<not> html_unsafe quote_char" by (simp_all add: html_unsafe_def)
  ultimately have "c \<noteq> backslash" "c \<noteq> quote_char" by blast+
  with True have "escape_ascii c =
      [backslash, CHR ''u'', CHR ''0'', CHR ''0'', hex_char (byte_of c div 16), hex_char (byte_of c mod 16)]"
    by (simp add: escape_ascii_def)
  moreover have "hex4 (CHR ''0'' # CHR ''0'' # hex_char (byte_of c div 16) # hex_char (byte_of c mod 16) # t) =
      Some (byte_of c, t)"
    using assms by (simp add: hex4_def hex_value_char hex_value_0)
  ultimately show ?thesis
    using assms by (simp add: unquote_step_def unicode_escape_def utf8_encode_def)
next
  case False
  then consider "c \<in> {CHR 0x08, CHR 0x0C, CHR 0x0A, CHR 0x0D, CHR 0x09, backslash, quote_char}"
    | "\<not> html_unsafe c" "c \<noteq> backslash" "c \<noteq> quote_char"
    by (auto simp: html_unsafe_def)
  then show ?thesis
  proof cases
    case 1
    then show ?thesis
      by (elim insertE emptyE) (simp_all add: escape_ascii_def unquote_step_def unescape_simple_def)
  next
    case 2
    then have "escape_ascii c = [c]" by (rule escape_ascii_safe)
    with 2 assms show ?thesis by (simp add: unquote_step_def html_unsafe_def utf8_rune.simps)
  qed
qed

lemma escape_ascii_hd: "hd (escape_ascii c @ t) \<noteq> quote_char"
  by (simp add: escape_ascii_def)

lemma unquote_escape_rune:
  assumes "utf8_rune s = Some (u, r)"
  shows "unquote_step (escape_rune u @ t) = Some (u, t) \<and> hd (escape_rune u @ t) \<noteq> quote_char"
proof (cases "length u = 1")
  case True
  then obtain c where u: "u = [c]" by (cases u) auto
  then have "byte_of c < 0x80"
    using assms by (cases s) (auto simp: utf8_rune.simps Let_def split: if_splits list.splits)
  then show ?thesis using u unquote_step_ascii escape_ascii_hd by (simp add: escape_rune_def)
next
  case False
  then obtain a b v where u: "u = a # b # v"
    using utf8_rune_split [OF assms] by (metis One_nat_def length_Cons list.size(3) neq_Nil_conv)
  then have a: "0xC2 \<le> byte_of a"
    using assms by (cases s) (auto simp: utf8_rune.simps Let_def split: if_splits list.splits)
  show ?thesis
  proof (cases "u = [CHR 0xE2, CHR 0x80, CHR 0xA8] \<or> u = [CHR 0xE2, CHR 0x80, CHR 0xA9]")
    case True
    then show ?thesis
      by (auto simp: escape_rune_def unquote_step_def unicode_escape_def hex4_def hex_value_def utf8_encode_def Let_def
          separator_chars)
  next
    case False
    then have "escape_rune u = u" by (simp add: escape_rune_def u)
    moreover have "a \<noteq> backslash" "a \<noteq> quote_char" using a by auto
    ultimately show ?thesis
      using a utf8_rune_frame [OF assms, of t] by (auto simp: unquote_step_def u)
  qed
qed

lemma unquote_json_escape: "valid_utf8 s \<Longrightarrow> unquote (json_escape s @ quote_char # rest) = Some (s, rest)"
proof (induction s rule: valid_utf8.induct)
  case (1 s)
  show ?case
  proof (cases s)
    case Nil
    then show ?thesis by (simp add: json_escape.simps)
  next
    case (Cons c cs)
    with 1(2) obtain u r where u: "utf8_rune s = Some (u, r)" "valid_utf8 r"
      by (subst (asm) valid_utf8.simps) (auto split: option.splits)
    have "unquote (json_escape r @ quote_char # rest) = Some (r, rest)"
      using 1(1) [of "(u, r)" u r] u Cons by simp
    moreover have "json_escape s = escape_rune u @ json_escape r"
      using u(1) Cons by (subst json_escape.simps) simp
    ultimately show ?thesis
      using unquote_escape_rune [OF u(1), of "json_escape r @ quote_char # rest"]
        unquote_Cons [of "escape_rune u @ json_escape r @ quote_char # rest"] utf8_rune_split [OF u(1)]
      by simp
  qed
qed

end
