(* ===== verification/Json_Parse.thy ===== *)
theory Json_Parse
  imports Json_Text
begin

text \<open>
  Tokens and documents: the scanner of encoding/json as a lexer followed by an automaton with an
  explicit stack, one frame for each open array or object (the \<open>parseState\<close> of the Go scanner), and
  the compact printer. \<open>json_document\<close> is \<open>json.Unmarshal\<close> up to the assignment to the target.
\<close>

datatype token =
    LBrace | RBrace | LBracket | RBracket | Comma | Colon
  | TNull | TBool bool | TNum string | TStr string

section \<open>Tokens\<close>

abbreviation is_digit :: "char \<Rightarrow> bool" where
  "is_digit c \<equiv> char_digit c \<noteq> None"

definition lex_frac :: "string \<Rightarrow> (string \<times> string) option" where
  "lex_frac s =
     (if s \<noteq> [] \<and> hd s = CHR ''.''
      then (if takeWhile is_digit (tl s) = [] then None
            else Some (CHR ''.'' # takeWhile is_digit (tl s), dropWhile is_digit (tl s)))
      else Some ([], s))"

definition lex_exp :: "string \<Rightarrow> (string \<times> string) option" where
  "lex_exp s =
     (if s \<noteq> [] \<and> (hd s = CHR ''e'' \<or> hd s = CHR ''E'')
      then (let signed = (tl s \<noteq> [] \<and> (hd (tl s) = CHR ''-'' \<or> hd (tl s) = CHR ''+''));
                n = (if signed then 2 else 1); r = drop n s
            in if takeWhile is_digit r = [] then None
               else Some (take n s @ takeWhile is_digit r, dropWhile is_digit r))
      else Some ([], s))"

definition lex_tail :: "string \<Rightarrow> (string \<times> string) option" where
  "lex_tail s =
     (case lex_frac s of
        None \<Rightarrow> None
      | Some (fp, r) \<Rightarrow> map_option (\<lambda>(ep, r'). (fp @ ep, r')) (lex_exp r))"

definition lex_number :: "string \<Rightarrow> (string \<times> string) option" where
  "lex_number s =
     (let n = (if s \<noteq> [] \<and> hd s = CHR ''-'' then 1 else 0); s1 = drop n s;
          k = (if hd s1 = CHR ''0'' then 1 else length (takeWhile is_digit s1))
      in if s1 = [] \<or> \<not> is_digit (hd s1) then None
         else map_option (\<lambda>(t, r). (take n s @ take k s1 @ t, r)) (lex_tail (drop k s1)))"

definition lex_word :: "string \<Rightarrow> (token \<times> string) option" where
  "lex_word s =
     (if take 4 s = ''null'' then Some (TNull, drop 4 s)
      else if take 4 s = ''true'' then Some (TBool True, drop 4 s)
      else if take 5 s = ''false'' then Some (TBool False, drop 5 s)
      else None)"

definition lex_token :: "string \<Rightarrow> (token \<times> string) option" where
  "lex_token s =
     (case s of
        [] \<Rightarrow> None
      | c # cs \<Rightarrow>
          if c = CHR ''{'' then Some (LBrace, cs)
          else if c = CHR ''}'' then Some (RBrace, cs)
          else if c = CHR ''['' then Some (LBracket, cs)
          else if c = CHR '']'' then Some (RBracket, cs)
          else if c = CHR '','' then Some (Comma, cs)
          else if c = CHR '':'' then Some (Colon, cs)
          else if c = quote_char then map_option (\<lambda>(t, r). (TStr t, r)) (unquote cs)
          else if c = CHR ''-'' \<or> is_digit c then map_option (\<lambda>(l, r). (TNum l, r)) (lex_number s)
          else lex_word s)"

definition json_space :: "char \<Rightarrow> bool" where
  "json_space c \<longleftrightarrow> c \<in> {CHR 0x20, CHR 0x09, CHR 0x0D, CHR 0x0A}"

lemma unquote_shorter: "unquote s = Some (t, r) \<Longrightarrow> length r < length s"
proof (induction s arbitrary: t r rule: unquote.induct)
  case (1 s)
  show ?case
  proof (cases "s = [] \<or> hd s = quote_char")
    case True
    with 1(2) show ?thesis by (cases s) (auto simp: unquote.simps)
  next
    case False
    then obtain c cs where s: "s = c # cs" "c \<noteq> quote_char" by (cases s) auto
    with 1(2) obtain u r' t' where u: "unquote_step s = Some (u, r')" "unquote r' = Some (t', r)"
      by (subst (asm) unquote.simps) (auto split: option.splits)
    from 1(1) [OF s(1) s(2) u(1) _ u(2)] unquote_step_shorter [OF u(1)] show ?thesis by simp
  qed
qed

lemma lex_frac_length: "lex_frac s = Some (t, r) \<Longrightarrow> length r \<le> length s"
  by (cases s) (auto simp: lex_frac_def length_dropWhile_le le_SucI split: if_splits)

lemma lex_exp_length: "lex_exp s = Some (t, r) \<Longrightarrow> length r \<le> length s"
  by (auto simp: lex_exp_def Let_def split: if_splits
      intro: le_trans [OF length_dropWhile_le] order_trans [OF length_dropWhile_le])

lemma lex_tail_length: "lex_tail s = Some (t, r) \<Longrightarrow> length r \<le> length s"
  by (auto simp: lex_tail_def split: option.splits dest!: lex_frac_length lex_exp_length)

lemma lex_number_shorter: "lex_number s = Some (t, r) \<Longrightarrow> length r < length s"
proof -
  define n where "n = (if s \<noteq> [] \<and> hd s = CHR ''-'' then 1 else 0 :: nat)"
  define s1 where "s1 = drop n s"
  define k where "k = (if hd s1 = CHR ''0'' then 1 else length (takeWhile is_digit s1))"
  assume "lex_number s = Some (t, r)"
  then have s1: "s1 \<noteq> []" "is_digit (hd s1)" and "\<exists>t'. lex_tail (drop k s1) = Some (t', r)"
    unfolding lex_number_def Let_def n_def [symmetric] s1_def [symmetric] k_def [symmetric]
    by (auto split: if_splits)
  then have "length r \<le> length (drop k s1)" using lex_tail_length by blast
  moreover have "0 < k" "0 < length s1" using s1 by (cases s1; auto simp: k_def)+
  moreover have "length s1 \<le> length s" by (simp add: s1_def)
  ultimately show ?thesis unfolding length_drop by linarith
qed

lemma lex_word_shorter: "lex_word s = Some (t, r) \<Longrightarrow> s \<noteq> [] \<Longrightarrow> length r < length s"
  by (auto simp: lex_word_def split: if_split_asm)

lemma lex_token_shorter:
  assumes "lex_token s = Some (t, r)"
  shows "length r < length s"
proof (cases s)
  case Nil
  with assms show ?thesis by (simp add: lex_token_def)
next
  case (Cons c cs)
  have "r = cs \<or> (\<exists>x. unquote cs = Some (x, r)) \<or> (\<exists>x. lex_number s = Some (x, r)) \<or> lex_word s = Some (t, r)"
    using assms by (simp add: lex_token_def Cons split: if_split_asm) blast+
  then show ?thesis
    using unquote_shorter [of cs _ r] lex_number_shorter [of s _ r] lex_word_shorter [of s t r]
    by (auto simp: Cons)
qed

function lex :: "string \<Rightarrow> token list option" where
  "lex s =
     (case s of
        [] \<Rightarrow> Some []
      | c # cs \<Rightarrow>
          if json_space c then lex cs
          else (case lex_token s of
                  None \<Rightarrow> None
                | Some (t, r) \<Rightarrow> map_option (\<lambda>ts. t # ts) (lex r)))"
  by pat_completeness auto
termination by (relation "measure length") (auto dest: lex_token_shorter)

declare lex.simps [simp del]

section \<open>Documents\<close>

datatype frame = FObj "(string \<times> json) list" string | FArr "json list"

text \<open>What the automaton waits for: a value (or the end of the array just opened), a key (or the
  end of the object just opened), the colon behind a key, or what may follow a value.\<close>

datatype pstate =
    WantValue "frame list" bool
  | WantKey "(string \<times> json) list" "frame list" bool
  | WantColon "(string \<times> json) list" string "frame list"
  | GotValue json "frame list"

definition max_nesting :: nat where
  "max_nesting = 10000"

fun json_step :: "token \<Rightarrow> pstate \<Rightarrow> pstate option" where
  "json_step TNull (WantValue st b) = Some (GotValue JNull st)"
| "json_step (TBool x) (WantValue st b) = Some (GotValue (JBool x) st)"
| "json_step (TNum l) (WantValue st b) = Some (GotValue (JNum l) st)"
| "json_step (TStr s) (WantValue st b) = Some (GotValue (JStr s) st)"
| "json_step LBrace (WantValue st b) =
     (if max_nesting < length st + 1 then None else Some (WantKey [] st True))"
| "json_step LBracket (WantValue st b) =
     (if max_nesting < length st + 1 then None else Some (WantValue (FArr [] # st) True))"
| "json_step RBracket (WantValue (FArr [] # st) True) = Some (GotValue (JArr []) st)"
| "json_step (TStr k) (WantKey ms st b) = Some (WantColon ms k st)"
| "json_step RBrace (WantKey ms st True) = Some (GotValue (JObj ms) st)"
| "json_step Colon (WantColon ms k st) = Some (WantValue (FObj ms k # st) False)"
| "json_step Comma (GotValue v (FObj ms k # st)) = Some (WantKey (ms @ [(k, v)]) st False)"
| "json_step RBrace (GotValue v (FObj ms k # st)) = Some (GotValue (JObj (ms @ [(k, v)])) st)"
| "json_step Comma (GotValue v (FArr vs # st)) = Some (WantValue (FArr (vs @ [v]) # st) False)"
| "json_step RBracket (GotValue v (FArr vs # st)) = Some (GotValue (JArr (vs @ [v])) st)"
| "json_step _ _ = None"

fun json_run :: "token list \<Rightarrow> pstate \<Rightarrow> pstate option" where
  "json_run [] s = Some s"
| "json_run (t # ts) s = (case json_step t s of None \<Rightarrow> None | Some s' \<Rightarrow> json_run ts s')"

definition json_document :: "string \<Rightarrow> json option" where
  "json_document s =
     (case lex s of
        None \<Rightarrow> None
      | Some ts \<Rightarrow>
          (case json_run ts (WantValue [] False) of
             Some (GotValue v []) \<Rightarrow> Some v
           | _ \<Rightarrow> None))"

section \<open>Printing\<close>

fun token_text :: "token \<Rightarrow> string" where
  "token_text LBrace = ''{''"
| "token_text RBrace = ''}''"
| "token_text LBracket = ''[''"
| "token_text RBracket = '']''"
| "token_text Comma = '',''"
| "token_text Colon = '':''"
| "token_text TNull = ''null''"
| "token_text (TBool b) = (if b then ''true'' else ''false'')"
| "token_text (TNum l) = l"
| "token_text (TStr s) = json_string s"

fun json_tokens :: "json \<Rightarrow> token list"
  and member_tokens :: "(string \<times> json) list \<Rightarrow> token list"
  and element_tokens :: "json list \<Rightarrow> token list" where
  "json_tokens JNull = [TNull]"
| "json_tokens (JBool b) = [TBool b]"
| "json_tokens (JNum l) = [TNum l]"
| "json_tokens (JStr s) = [TStr s]"
| "json_tokens (JArr vs) = LBracket # element_tokens vs @ [RBracket]"
| "json_tokens (JObj ms) = LBrace # member_tokens ms @ [RBrace]"
| "member_tokens [] = []"
| "member_tokens ((k, v) # ms) =
     TStr k # Colon # json_tokens v @ (if ms = [] then [] else Comma # member_tokens ms)"
| "element_tokens [] = []"
| "element_tokens (v # vs) = json_tokens v @ (if vs = [] then [] else Comma # element_tokens vs)"

definition tokens_text :: "token list \<Rightarrow> string" where
  "tokens_text ts = concat (map token_text ts)"

definition json_text :: "json \<Rightarrow> string" where
  "json_text j = tokens_text (json_tokens j)"

section \<open>A printed document reads back\<close>

definition int_literal :: "string \<Rightarrow> bool" where
  "int_literal l \<longleftrightarrow> (case atoi l of None \<Rightarrow> False | Some n \<Rightarrow> l = itoa n)"

fun token_ok :: "token \<Rightarrow> bool" where
  "token_ok (TNum l) = int_literal l"
| "token_ok (TStr s) = valid_utf8 s"
| "token_ok _ = True"

definition ends_number :: "string \<Rightarrow> bool" where
  "ends_number r \<longleftrightarrow> r = [] \<or> hd r \<in> set '',}]'' \<or> json_space (hd r)"

lemma digits_of_digits: "list_all is_digit (digits_of n)"
  by (induction n rule: digits_of.induct) (subst digits_of.simps, auto)

lemma digits_of_lead: "0 < n \<Longrightarrow> hd (digits_of n) \<noteq> CHR ''0''"
proof (induction n rule: digits_of.induct)
  case (1 n)
  show ?case
  proof (cases "n < 10")
    case True
    have "digit_char n \<noteq> digit_char 0"
      using True 1(2) char_digit_digit_char [of n] char_digit_digit_char [of 0] by fastforce
    moreover have "digit_char 0 = CHR ''0''" by (simp add: digit_char_def char_of_eqI)
    ultimately show ?thesis using True by (subst digits_of.simps) simp
  next
    case False
    then have "hd (digits_of (n div 10)) \<noteq> CHR ''0''" using 1(1) by simp
    with False show ?thesis by (subst digits_of.simps) simp
  qed
qed

lemma lex_tail_end: "ends_number r \<Longrightarrow> lex_tail r = Some ([], r)"
  by (auto simp: ends_number_def json_space_def lex_tail_def lex_frac_def lex_exp_def)

lemma number_digits:
  assumes "ends_number r"
  shows "takeWhile is_digit (digits_of n @ r) = digits_of n"
    and "(if hd (digits_of n @ r) = CHR ''0'' then 1 else length (takeWhile is_digit (digits_of n @ r))) =
      length (digits_of n)"
proof -
  have "takeWhile is_digit r = []" using assms by (cases r) (auto simp: ends_number_def json_space_def char_digit_def)
  then show t: "takeWhile is_digit (digits_of n @ r) = digits_of n"
    using digits_of_digits [of n] by (simp add: takeWhile_append list_all_iff)
  have "length (digits_of 0) = 1" by (subst digits_of.simps) simp
  then show "(if hd (digits_of n @ r) = CHR ''0'' then 1 else length (takeWhile is_digit (digits_of n @ r))) =
      length (digits_of n)"
    using t digits_of_lead [of n] by (cases "n = 0") auto
qed

lemma lex_number_itoa:
  assumes "ends_number r"
  shows "lex_number (itoa n @ r) = Some (itoa n, r)"
proof -
  have "\<exists>m. itoa n = (if n < 0 then ''-'' else []) @ digits_of m" by (auto simp: itoa_def)
  then obtain m where m: "itoa n = (if n < 0 then ''-'' else []) @ digits_of m" by blast
  obtain d cs where d: "d < 10" "digits_of m = digit_char d # cs" using digits_of_Cons by blast
  then have hd: "hd (digits_of m @ r) \<noteq> CHR ''-''" "is_digit (hd (digits_of m @ r))"
    using digit_char_not_sign by simp_all
  define k where "k = (if itoa n @ r \<noteq> [] \<and> hd (itoa n @ r) = CHR ''-'' then 1 else 0 :: nat)"
  have drop: "drop k (itoa n @ r) = digits_of m @ r" and take: "take k (itoa n @ r) @ digits_of m = itoa n"
    using hd by (auto simp: k_def m)
  show ?thesis
    unfolding lex_number_def Let_def k_def [symmetric] drop number_digits(2) [OF assms]
    using hd take lex_tail_end [OF assms] by simp
qed

lemma lex_Nil [simp]: "lex [] = Some []"
  by (simp add: lex.simps)

lemma lex_token_first:
  assumes "lex_token s = Some (t, r)"
  shows "lex s = map_option (\<lambda>ts. t # ts) (lex r)"
proof -
  obtain c cs where s: "s = c # cs" using assms by (cases s) (auto simp: lex_token_def)
  moreover have "\<not> json_space c"
    using assms by (auto simp: s lex_token_def json_space_def lex_word_def char_digit_def)
  ultimately show ?thesis using assms by (subst lex.simps) simp
qed

lemma lex_token_text:
  assumes "token_ok t" "\<And>l. t = TNum l \<Longrightarrow> ends_number r"
  shows "lex_token (token_text t @ r) = Some (t, r)"
proof (cases t)
  case (TNum l)
  with assms(1) obtain n where l: "l = itoa n" by (auto simp: int_literal_def split: option.splits)
  then have "lex_number (l @ r) = Some (l, r)" using lex_number_itoa assms(2) TNum by blast
  moreover obtain c cs where c: "l = c # cs" "c = CHR ''-'' \<or> is_digit c"
    using l digits_of_Cons [of "nat n"] by (cases "n < 0") (auto simp: itoa_def)
  moreover have "c \<notin> set ''{}[],:'' \<and> c \<noteq> quote_char" using c(2) by (auto simp: char_digit_def)
  ultimately show ?thesis by (auto simp: TNum lex_token_def)
next
  case (TStr s)
  with assms(1) have "unquote (json_escape s @ quote_char # r) = Some (s, r)"
    by (simp add: unquote_json_escape)
  then show ?thesis by (simp add: TStr json_string_def lex_token_def)
qed (simp_all add: lex_token_def lex_word_def char_digit_def)

text \<open>\<open>separated\<close>: a number is followed by what ends it.\<close>

definition closer :: "token \<Rightarrow> bool" where
  "closer t \<longleftrightarrow> t = Comma \<or> t = RBrace \<or> t = RBracket"

definition number_token :: "token \<Rightarrow> bool" where
  "number_token t \<longleftrightarrow> (case t of TNum l \<Rightarrow> True | _ \<Rightarrow> False)"

fun separated :: "token list \<Rightarrow> bool" where
  "separated (t # u # ts) \<longleftrightarrow> (number_token t \<longrightarrow> closer u) \<and> separated (u # ts)"
| "separated _ \<longleftrightarrow> True"

lemma tokens_text_simps [simp]:
  "tokens_text [] = []" "tokens_text (t # ts) = token_text t @ tokens_text ts"
  "tokens_text (ts @ us) = tokens_text ts @ tokens_text us"
  by (simp_all add: tokens_text_def)

lemma lex_tokens: "list_all token_ok ts \<Longrightarrow> separated ts \<Longrightarrow> lex (tokens_text ts) = Some ts"
proof (induction ts)
  case (Cons t ts)
  have "ends_number (tokens_text ts)" if "number_token t"
    using that Cons.prems(2) by (cases ts) (auto simp: closer_def ends_number_def)
  then have "lex_token (token_text t @ tokens_text ts) = Some (t, tokens_text ts)"
    using Cons.prems(1) by (intro lex_token_text) (auto simp: number_token_def)
  moreover have "separated ts" using Cons.prems(2) by (cases ts) auto
  ultimately show ?case using lex_token_first Cons by simp
qed simp

definition closed :: "token list \<Rightarrow> bool" where
  "closed ts \<longleftrightarrow> (case ts of [] \<Rightarrow> True | t # us \<Rightarrow> closer t)"

lemma separated_Cons: "separated (t # ts) \<longleftrightarrow> (number_token t \<longrightarrow> closed ts) \<and> separated ts"
  by (cases ts) (auto simp: closed_def)

lemma separated_json:
  "separated ts \<Longrightarrow> closed ts \<Longrightarrow> separated (json_tokens j @ ts)"
  "separated ts \<Longrightarrow> closed ts \<Longrightarrow> ts \<noteq> [] \<Longrightarrow> separated (member_tokens ms @ ts)"
  "separated ts \<Longrightarrow> closed ts \<Longrightarrow> ts \<noteq> [] \<Longrightarrow> separated (element_tokens vs @ ts)"
proof (induction j and ms and vs arbitrary: ts and ts and ts
    rule: json_tokens_member_tokens_element_tokens.induct)
qed (auto simp: separated_Cons number_token_def closed_def closer_def)

fun json_ok :: "json \<Rightarrow> bool" where
  "json_ok (JNum l) \<longleftrightarrow> int_literal l"
| "json_ok (JStr s) \<longleftrightarrow> valid_utf8 s"
| "json_ok (JArr vs) \<longleftrightarrow> (\<forall>v \<in> set vs. json_ok v)"
| "json_ok (JObj ms) \<longleftrightarrow> (\<forall>(k, v) \<in> set ms. valid_utf8 k \<and> json_ok v)"
| "json_ok _ \<longleftrightarrow> True"

lemma tokens_ok:
  "json_ok j \<Longrightarrow> list_all token_ok (json_tokens j)"
  "\<forall>(k, v) \<in> set ms. valid_utf8 k \<and> json_ok v \<Longrightarrow> list_all token_ok (member_tokens ms)"
  "\<forall>v \<in> set vs. json_ok v \<Longrightarrow> list_all token_ok (element_tokens vs)"
  by (induction j and ms and vs rule: json_tokens_member_tokens_element_tokens.induct) auto

fun json_depth :: "json \<Rightarrow> nat" where
  "json_depth (JArr vs) = Suc (fold max (map json_depth vs) 0)"
| "json_depth (JObj ms) = Suc (fold max (map (\<lambda>(k, v). json_depth v) ms) 0)"
| "json_depth _ = 0"

lemma fold_max_le: "fold max xs (m :: nat) \<le> n \<longleftrightarrow> m \<le> n \<and> (\<forall>x \<in> set xs. x \<le> n)"
  by (induction xs arbitrary: m) auto

lemma depth_bound:
  "k + json_depth (JArr vs) \<le> n \<longleftrightarrow> k < n \<and> (\<forall>v \<in> set vs. Suc k + json_depth v \<le> n)"
  "k + json_depth (JObj ms) \<le> n \<longleftrightarrow> k < n \<and> (\<forall>(m, v) \<in> set ms. Suc k + json_depth v \<le> n)"
proof -
  have le: "k + Suc x \<le> n \<longleftrightarrow> k < n \<and> x \<le> n - Suc k" for x by arith
  show "k + json_depth (JArr vs) \<le> n \<longleftrightarrow> k < n \<and> (\<forall>v \<in> set vs. Suc k + json_depth v \<le> n)"
    "k + json_depth (JObj ms) \<le> n \<longleftrightarrow> k < n \<and> (\<forall>(m, v) \<in> set ms. Suc k + json_depth v \<le> n)"
    unfolding json_depth.simps le fold_max_le by (auto simp: le_diff_conv2 Suc_le_eq)
qed

lemma json_run_tokens:
  "length st + json_depth j \<le> max_nesting \<Longrightarrow>
     json_run (json_tokens j @ ts) (WantValue st b) = json_run ts (GotValue j st)"
  "\<forall>(k, v) \<in> set ms. Suc (length st) + json_depth v \<le> max_nesting \<Longrightarrow> ms = [] \<longrightarrow> c \<and> acc = [] \<Longrightarrow>
     json_run (member_tokens ms @ RBrace # ts) (WantKey acc st c) = json_run ts (GotValue (JObj (acc @ ms)) st)"
  "\<forall>v \<in> set vs. Suc (length st) + json_depth v \<le> max_nesting \<Longrightarrow> vs = [] \<longrightarrow> c \<and> elems = [] \<Longrightarrow>
     json_run (element_tokens vs @ RBracket # ts) (WantValue (FArr elems # st) c) =
       json_run ts (GotValue (JArr (elems @ vs)) st)"
proof (induction j and ms and vs arbitrary: st ts b and st ts c acc and st ts c elems
    rule: json_tokens_member_tokens_element_tokens.induct)
qed (auto simp: depth_bound simp del: json_depth.simps(1,2))

lemma json_document_text:
  assumes "json_ok j" "json_depth j \<le> max_nesting"
  shows "json_document (json_text j) = Some j"
proof -
  have "separated (json_tokens j)" using separated_json(1) [of "[]" j] by (simp add: closed_def)
  then have "lex (json_text j) = Some (json_tokens j)"
    using tokens_ok(1) [OF assms(1)] by (simp add: json_text_def lex_tokens)
  moreover have "json_run (json_tokens j) (WantValue [] False) = Some (GotValue j [])"
    using json_run_tokens(1) [of "[]" j "[]" False] assms(2) by simp
  ultimately show ?thesis by (simp add: json_document_def)
qed

end
