(* ===== verification/Duration_Text.thy ===== *)
theory Duration_Text
  imports Tunnel_Prelude
begin

text \<open>
  The text form of a duration, which is what \<open>protocol.Duration\<close> puts on the wire and what the
  configuration file holds: \<open>time.Duration.String\<close> and \<open>time.ParseDuration\<close> of the Go standard
  library. The buffer that \<open>String\<close> fills from its end is a list that grows at its head. Magnitudes
  are unsigned 64-bit values, written as naturals with the wrap-around where it can occur.

  \<open>ParseDuration\<close> scales a fraction in floating point; the parameter \<open>fl f unit k\<close> is
  \<open>uint64(float64(f) * (float64(unit) / 10^k))\<close>. The only fact used of it is \<open>float_exact\<close>: IEEE
  arithmetic is exact as long as the quotient is a whole number and the product stays below
  \<open>2^53\<close>.
\<close>

type_synonym float_scale = "nat \<Rightarrow> nat \<Rightarrow> nat \<Rightarrow> nat"

definition float_exact :: "float_scale \<Rightarrow> bool" where
  "float_exact fl \<longleftrightarrow>
     (\<forall>f unit k. 10 ^ k dvd unit \<longrightarrow> f * (unit div 10 ^ k) < 2 ^ 53 \<longrightarrow> fl f unit k = f * (unit div 10 ^ k))"

definition rational_scale :: float_scale where
  "rational_scale f unit k = f * unit div 10 ^ k"

lemma rational_scale_exact: "float_exact rational_scale"
  by (auto simp: float_exact_def rational_scale_def div_mult_swap)

section \<open>Printing\<close>

lemma digit_chars [simp]:
  "digit_char 0 = CHR ''0''" "digit_char (Suc 0) = CHR ''1''" "digit_char 2 = CHR ''2''"
  "digit_char 3 = CHR ''3''" "digit_char 4 = CHR ''4''" "digit_char 5 = CHR ''5''"
  "digit_char 6 = CHR ''6''" "digit_char 7 = CHR ''7''" "digit_char 8 = CHR ''8''"
  "digit_char 9 = CHR ''9''"
  by (simp_all add: digit_char_def char_of_eqI)

definition micro_sign :: string where
  "micro_sign = [CHR 0xC2, CHR 0xB5]"

text \<open>\<open>fmtFrac\<close>: the last \<open>prec\<close> digits of \<open>v\<close> after a point, without trailing zeros.\<close>

fun fmtFrac :: "nat \<Rightarrow> nat \<Rightarrow> bool \<Rightarrow> string \<Rightarrow> string \<times> nat" where
  "fmtFrac 0 v printing buf = (if printing then CHR ''.'' # buf else buf, v)"
| "fmtFrac (Suc prec) v printing buf =
     (let digit = v mod 10; printing' = (printing \<or> digit \<noteq> 0)
      in fmtFrac prec (v div 10) printing' (if printing' then digit_char digit # buf else buf))"

definition fmt_small :: "nat \<Rightarrow> string" where
  "fmt_small u =
     (if u = 0 then ''0s''
      else (case (if u < 1000 then fmtFrac 0 u False ''ns''
                  else if u < 1000000 then fmtFrac 3 u False (micro_sign @ ''s'')
                  else fmtFrac 6 u False ''ms'') of
              (buf, v) \<Rightarrow> digits_of v @ buf))"

definition fmt_large :: "nat \<Rightarrow> string" where
  "fmt_large u =
     (case fmtFrac 9 u False ''s'' of
        (buf, secs) \<Rightarrow>
          (let buf1 = digits_of (secs mod 60) @ buf; mins = secs div 60
           in if mins = 0 then buf1
              else (let buf2 = digits_of (mins mod 60) @ ''m'' @ buf1; hours = mins div 60
                    in if hours = 0 then buf2 else digits_of hours @ ''h'' @ buf2)))"

definition Duration_String :: "duration \<Rightarrow> string" where
  "Duration_String d =
     (let u = nat \<bar>d\<bar>; buf = (if u < 1000000000 then fmt_small u else fmt_large u)
      in if d < 0 then CHR ''-'' # buf else buf)"

section \<open>Parsing\<close>

fun leadingInt :: "nat \<Rightarrow> string \<Rightarrow> (nat \<times> string) option" where
  "leadingInt x [] = Some (x, [])"
| "leadingInt x (c # cs) =
     (case char_digit c of
        None \<Rightarrow> Some (x, c # cs)
      | Some d \<Rightarrow>
          if 2 ^ 63 div 10 < x then None
          else if 2 ^ 63 < 10 * x + d then None
          else leadingInt (10 * x + d) cs)"

text \<open>\<open>leadingFraction\<close>: the digits it keeps and their number; once a digit does not fit, the rest
  is skipped.\<close>

fun leadingFraction :: "bool \<Rightarrow> nat \<Rightarrow> nat \<Rightarrow> string \<Rightarrow> nat \<times> nat \<times> string" where
  "leadingFraction overflow x k [] = (x, k, [])"
| "leadingFraction overflow x k (c # cs) =
     (case char_digit c of
        None \<Rightarrow> (x, k, c # cs)
      | Some d \<Rightarrow>
          if overflow \<or> (2 ^ 63 - 1) div 10 < x \<or> 2 ^ 63 < 10 * x + d
          then leadingFraction True x k cs
          else leadingFraction False (10 * x + d) (Suc k) cs)"

definition unitMap :: "string \<Rightarrow> nat option" where
  "unitMap u =
     (if u = ''ns'' then Some 1
      else if u = ''us'' then Some 1000
      else if u = micro_sign @ ''s'' then Some 1000
      else if u = [CHR 0xCE, CHR 0xBC] @ ''s'' then Some 1000
      else if u = ''ms'' then Some 1000000
      else if u = ''s'' then Some 1000000000
      else if u = ''m'' then Some 60000000000
      else if u = ''h'' then Some 3600000000000
      else None)"

definition unit_char :: "char \<Rightarrow> bool" where
  "unit_char c \<longleftrightarrow> c \<noteq> CHR ''.'' \<and> char_digit c = None"

text \<open>The body of the loop of \<open>ParseDuration\<close>: one number with its unit.\<close>

definition parse_term :: "float_scale \<Rightarrow> string \<Rightarrow> (nat \<times> string) option" where
  "parse_term fl s =
     (if s = [] \<or> unit_char (hd s) then None
      else case leadingInt 0 s of
             None \<Rightarrow> None
           | Some (v, s1) \<Rightarrow>
               (let point = (s1 \<noteq> [] \<and> hd s1 = CHR ''.'');
                    (f, k, s2) = (if point then leadingFraction False 0 0 (tl s1) else (0, 0, s1));
                    pre = (length s1 \<noteq> length s);
                    post = (point \<and> length s2 \<noteq> length (tl s1));
                    u = takeWhile unit_char s2;
                    s3 = dropWhile unit_char s2
                in if \<not> pre \<and> \<not> post then None
                   else case unitMap u of
                          None \<Rightarrow> None
                        | Some unit \<Rightarrow>
                            if 2 ^ 63 div unit < v then None
                            else (let w = (if 0 < f then v * unit + fl f unit k else v * unit)
                                  in if 0 < f \<and> 2 ^ 63 < w then None else Some (w, s3))))"

lemma leadingInt_length: "leadingInt x s = Some (v, r) \<Longrightarrow> length r \<le> length s"
  by (induction x s rule: leadingInt.induct) (auto split: option.splits if_splits)

lemma leadingFraction_length: "leadingFraction ov x k s = (f, j, r) \<Longrightarrow> length r \<le> length s"
  by (induction ov x k s arbitrary: f j r rule: leadingFraction.induct)
    (auto split: option.splits if_splits intro: le_SucI)

lemma unitMap_Nil [simp]: "unitMap [] = None"
  by (simp add: unitMap_def micro_sign_def)

lemma drop_unit_less: "unitMap (takeWhile unit_char s) \<noteq> None \<Longrightarrow> length (dropWhile unit_char s) < length s"
  by (cases s) (auto simp: le_imp_less_Suc length_dropWhile_le split: if_splits)

lemma parse_term_shrinks: "parse_term fl s = Some (v, r) \<Longrightarrow> length r < length s"
  unfolding parse_term_def Let_def
  by (auto split: if_splits option.splits prod.splits
      dest!: leadingInt_length leadingFraction_length dest: drop_unit_less
      intro: less_le_trans [OF drop_unit_less] order_trans)

function parse_terms :: "float_scale \<Rightarrow> nat \<Rightarrow> string \<Rightarrow> nat option" where
  "parse_terms fl d s =
     (if s = [] then Some d
      else case parse_term fl s of
             None \<Rightarrow> None
           | Some (v, rest) \<Rightarrow>
               (let d' = (d + v) mod 2 ^ 64 in if 2 ^ 63 < d' then None else parse_terms fl d' rest))"
  by pat_completeness auto
termination
  by (relation "measure (\<lambda>(fl, d, s). length s)") (auto intro: parse_term_shrinks)

declare parse_terms.simps [simp del]

definition parse_magnitude :: "float_scale \<Rightarrow> bool \<Rightarrow> string \<Rightarrow> duration option" where
  "parse_magnitude fl neg s =
     (if s = ''0'' then Some 0
      else if s = [] then None
      else case parse_terms fl 0 s of
             None \<Rightarrow> None
           | Some d \<Rightarrow>
               if neg then Some (- int d) else if 2 ^ 63 - 1 < d then None else Some (int d))"

definition ParseDuration :: "float_scale \<Rightarrow> string \<Rightarrow> duration option" where
  "ParseDuration fl s =
     (case s of
        [] \<Rightarrow> None
      | c # cs \<Rightarrow>
          if c = CHR ''-'' \<or> c = CHR ''+'' then parse_magnitude fl (c = CHR ''-'') cs
          else parse_magnitude fl False s)"

section \<open>A printed duration parses back\<close>

text \<open>\<open>starts_unit r\<close>: what follows a number starts with a letter, so the digits end there.\<close>

definition starts_unit :: "string \<Rightarrow> bool" where
  "starts_unit r \<longleftrightarrow> (case r of [] \<Rightarrow> True | c # cs \<Rightarrow> unit_char c)"

lemma leadingInt_unit: "starts_unit r \<Longrightarrow> leadingInt x r = Some (x, r)"
  by (cases r) (auto simp: starts_unit_def unit_char_def)

lemma leadingInt_digits: "n \<le> 2 ^ 63 \<Longrightarrow> leadingInt 0 (digits_of n @ r) = leadingInt n r"
proof (induction n arbitrary: r rule: digits_of.induct)
  case (1 n)
  have step: "leadingInt m (digit_char (n mod 10) # r) = leadingInt n r" if "m = n div 10" for m
    using that 1(2) by auto
  show ?case
  proof (cases "n < 10")
    case True
    with step [of 0] show ?thesis by (subst digits_of.simps) simp
  next
    case False
    with "1.IH" [of "digit_char (n mod 10) # r"] 1(2) step show ?thesis
      by (subst digits_of.simps) simp
  qed
qed

text \<open>\<open>fixed k x\<close>: exactly \<open>k\<close> digits.\<close>

fun fixed :: "nat \<Rightarrow> nat \<Rightarrow> string" where
  "fixed 0 x = []"
| "fixed (Suc k) x = fixed k (x div 10) @ [digit_char (x mod 10)]"

lemma length_fixed [simp]: "length (fixed k x) = k"
  by (induction k arbitrary: x) auto

lemma fixed_mod: "fixed k (x mod 10 ^ k) = fixed k x"
proof (induction k arbitrary: x)
  case (Suc k)
  have "x mod (10 * 10 ^ k) div 10 = x div 10 mod 10 ^ k"
    by (simp add: mod_mult2_eq)
  moreover have "x mod (10 * 10 ^ k) mod 10 = x mod 10"
    by (simp add: mod_mod_cancel)
  ultimately show ?case using Suc [of "x div 10"] by simp
qed simp

lemma leadingFraction_fixed:
  "x < 10 ^ k \<Longrightarrow> k \<le> 18 \<Longrightarrow> leadingFraction False 0 0 (fixed k x @ r) = leadingFraction False x k r"
proof (induction k arbitrary: x r)
  case (Suc k)
  have "(10 :: nat) ^ Suc k \<le> 10 ^ 18" using Suc.prems(2) by (rule power_increasing) simp
  then have "x div 10 \<le> 922337203685477580" "x \<le> 2 ^ 63" using Suc.prems(1) by simp_all
  with Suc show ?case by simp
qed simp

lemma leadingFraction_unit: "starts_unit r \<Longrightarrow> leadingFraction False x k r = (x, k, r)"
  by (cases r) (auto simp: starts_unit_def unit_char_def)

lemma fmtFrac_printing: "fmtFrac p v True buf = (CHR ''.'' # fixed p v @ buf, v div 10 ^ p)"
  by (induction p arbitrary: v buf) (simp_all add: div_mult2_eq)

text \<open>A printed fraction denotes what was cut off.\<close>

lemma fmtFrac_False:
  "\<exists>k x. k \<le> p \<and> x < 10 ^ k \<and> x * 10 ^ (p - k) = v mod 10 ^ p \<and>
     fmtFrac p v False buf = (if x = 0 then buf else CHR ''.'' # fixed k x @ buf, v div 10 ^ p)"
proof (induction p arbitrary: v)
  case (Suc p)
  show ?case
  proof (cases "v mod 10 = 0")
    case True
    from Suc [of "v div 10"] obtain k x where k: "k \<le> p" "x < 10 ^ k"
      "x * 10 ^ (p - k) = v div 10 mod 10 ^ p"
      "fmtFrac p (v div 10) False buf =
         (if x = 0 then buf else CHR ''.'' # fixed k x @ buf, v div 10 div 10 ^ p)" by blast
    have "v mod 10 ^ Suc p = v div 10 mod 10 ^ p * 10"
      using True by (simp add: mod_mult2_eq)
    with k True have "x * 10 ^ (Suc p - k) = v mod 10 ^ Suc p" "k \<le> Suc p" "x < 10 ^ k"
      "fmtFrac (Suc p) v False buf =
         (if x = 0 then buf else CHR ''.'' # fixed k x @ buf, v div 10 ^ Suc p)"
      by (simp_all add: Suc_diff_le div_mult2_eq)
    then show ?thesis by blast
  next
    case False
    then have "v mod 10 ^ Suc p \<noteq> 0"
      by (metis dvd_power gr0I mod_0_imp_dvd mod_mod_cancel zero_less_Suc mod_0)
    moreover have "fmtFrac (Suc p) v False buf =
        (CHR ''.'' # fixed (Suc p) (v mod 10 ^ Suc p) @ buf, v div 10 ^ Suc p)"
      unfolding fixed_mod using False by (simp add: fmtFrac_printing div_mult2_eq)
    ultimately show ?thesis
      by - (rule exI [where x = "Suc p"], rule exI [where x = "v mod 10 ^ Suc p"],
          simp del: fmtFrac.simps fixed.simps power_Suc)
  qed
qed simp

lemma digits_of_hd: "hd (digits_of n @ r) \<noteq> CHR ''-'' \<and> hd (digits_of n @ r) \<noteq> CHR ''+'' \<and>
    hd (digits_of n @ r) \<noteq> CHR ''.'' \<and> \<not> unit_char (hd (digits_of n @ r))"
proof -
  obtain d cs where d: "d < 10" "digits_of n = digit_char d # cs" using digits_of_Cons by blast
  moreover have "digit_char d \<noteq> CHR ''.''"
    using d(1) by (auto simp: digit_char_def dest!: arg_cong [of _ _ "of_char :: char \<Rightarrow> nat"])
  ultimately show ?thesis using digit_char_not_sign [OF d(1)] by (simp add: unit_char_def)
qed

text \<open>\<open>ends_unit r\<close>: after a unit comes the end or the next number.\<close>

definition ends_unit :: "string \<Rightarrow> bool" where
  "ends_unit r \<longleftrightarrow> r = [] \<or> \<not> unit_char (hd r)"

lemma unit_split:
  assumes "list_all unit_char u" "ends_unit r"
  shows "takeWhile unit_char (u @ r) = u" "dropWhile unit_char (u @ r) = r"
  using assms by (cases r; auto simp: list_all_iff ends_unit_def takeWhile_append2)+

lemma starts_unit_append: "list_all unit_char u \<Longrightarrow> u \<noteq> [] \<Longrightarrow> starts_unit (u @ r)"
  by (cases u) (auto simp: starts_unit_def)

text \<open>A term without and with a fraction.\<close>

lemma parse_term_whole:
  assumes "unitMap u = Some unit" "list_all unit_char u" "ends_unit r" "0 < unit" "n * unit \<le> 2 ^ 63"
  shows "parse_term fl (digits_of n @ u @ r) = Some (n * unit, r)"
proof -
  have u: "u \<noteq> []" using assms(1) by auto
  then obtain c cs where c: "u = c # cs" "c \<noteq> CHR ''.''" using assms(2) by (cases u) (auto simp: unit_char_def)
  have n: "n \<le> 2 ^ 63" using assms(4,5) by (metis le_trans less_eq_Suc_le mult_le_mono2 nat_mult_1_right One_nat_def)
  have lead: "leadingInt 0 (digits_of n @ u @ r) = Some (n, u @ r)"
    using leadingInt_digits [OF n] leadingInt_unit starts_unit_append [OF assms(2) u] by simp
  have "\<not> 2 ^ 63 div unit < n" using assms(4,5) by (simp add: not_less less_eq_div_iff_mult_less_eq)
  then show ?thesis
    using lead digits_of_hd [of n "u @ r"] unit_split [OF assms(2,3)] assms(1) c
    by (simp add: parse_term_def)
qed

lemma parse_term_fraction:
  assumes "unitMap u = Some unit" "list_all unit_char u" "ends_unit r" "0 < unit"
    and "float_exact fl" "10 ^ k dvd unit" "k \<le> 18" "x < 10 ^ k" "0 < x" "unit < 2 ^ 53"
    and "n * unit + x * (unit div 10 ^ k) \<le> 2 ^ 63"
  shows "parse_term fl (digits_of n @ CHR ''.'' # fixed k x @ u @ r) = Some (n * unit + x * (unit div 10 ^ k), r)"
proof -
  let ?s = "CHR ''.'' # fixed k x @ u @ r"
  have u: "u \<noteq> []" using assms(1) by auto
  have nu: "n * unit \<le> 2 ^ 63" using assms(11) by linarith
  then have n: "n \<le> 2 ^ 63" using assms(4) by (metis le_trans less_eq_Suc_le mult_le_mono2 nat_mult_1_right One_nat_def)
  have "starts_unit ?s \<or> leadingInt n ?s = Some (n, ?s)" by (simp add: char_digit_def)
  then have lead: "leadingInt 0 (digits_of n @ ?s) = Some (n, ?s)"
    using leadingInt_digits [OF n, of ?s] leadingInt_unit by metis
  have frac: "leadingFraction False 0 0 (fixed k x @ u @ r) = (x, k, u @ r)"
    using leadingFraction_fixed [OF assms(8,7)] leadingFraction_unit starts_unit_append [OF assms(2) u] by simp
  have "x * (unit div 10 ^ k) \<le> 10 ^ k * (unit div 10 ^ k)" using assms(8) by (intro mult_le_mono1) simp
  also have "\<dots> \<le> unit" by simp
  finally have fl: "fl x unit k = x * (unit div 10 ^ k)"
    using assms(5,6,10) by (simp add: float_exact_def)
  have "\<not> 2 ^ 63 div unit < n" using assms(4) nu by (simp add: not_less less_eq_div_iff_mult_less_eq)
  then show ?thesis
    using lead frac fl digits_of_hd [of n ?s] unit_split [OF assms(2,3)] assms(1,9,11)
    by (simp add: parse_term_def)
qed

lemma parse_term_fmtFrac:
  assumes "unitMap u = Some (10 ^ p)" "list_all unit_char u" "p \<le> 9" "float_exact fl"
    and "n * 10 ^ p + v mod 10 ^ p \<le> 2 ^ 63"
  shows "parse_term fl (digits_of n @ fst (fmtFrac p v False u)) = Some (n * 10 ^ p + v mod 10 ^ p, [])"
proof -
  obtain k x where k: "k \<le> p" "x < 10 ^ k" "x * 10 ^ (p - k) = v mod 10 ^ p"
    and printed: "fmtFrac p v False u = (if x = 0 then u else CHR ''.'' # fixed k x @ u, v div 10 ^ p)"
    using fmtFrac_False [of p v u] by blast
  then have fst: "fst (fmtFrac p v False u) = (if x = 0 then u else CHR ''.'' # fixed k x @ u)" by simp
  show ?thesis
  proof (cases "x = 0")
    case True
    then show ?thesis
      using k fst assms parse_term_whole [of u "10 ^ p" "[]" n fl] by (simp add: ends_unit_def)
  next
    case False
    have div: "10 ^ p div 10 ^ k = (10 :: nat) ^ (p - k)" using k(1) by (simp add: power_diff)
    have "(10 :: nat) ^ p \<le> 10 ^ 9" using assms(3) by (rule power_increasing) simp
    then have "(10 :: nat) ^ p < 2 ^ 53" by simp
    moreover have "(10 :: nat) ^ k dvd 10 ^ p" using k(1) by (rule le_imp_power_dvd)
    ultimately show ?thesis
      using False k fst assms parse_term_fraction [of u "10 ^ p" "[]" fl k x n]
      by (simp add: ends_unit_def div)
  qed
qed

lemma parse_terms_step:
  assumes "parse_term fl s = Some (v, r)" "s \<noteq> []" "d + v \<le> 2 ^ 63"
  shows "parse_terms fl d s = parse_terms fl (d + v) r"
  using assms by (subst parse_terms.simps) simp

lemma parse_terms_Nil [simp]: "parse_terms fl d [] = Some d"
  by (subst parse_terms.simps) simp

lemma snd_fmtFrac [simp]: "snd (fmtFrac p v pr buf) = v div 10 ^ p"
  by (induction p v pr buf rule: fmtFrac.induct) (simp_all add: Let_def div_mult2_eq)

lemma unit_facts:
  "unitMap ''ns'' = Some (10 ^ 0)" "unitMap (micro_sign @ ''s'') = Some (10 ^ 3)"
  "unitMap ''ms'' = Some (10 ^ 6)" "unitMap ''s'' = Some (10 ^ 9)"
  "unitMap ''m'' = Some 60000000000" "unitMap ''h'' = Some 3600000000000"
  "list_all unit_char ''ns''" "list_all unit_char (micro_sign @ ''s'')" "list_all unit_char ''ms''"
  "list_all unit_char ''s''" "list_all unit_char ''m''" "list_all unit_char ''h''"
  by (simp_all add: unitMap_def micro_sign_def unit_char_def char_digit_def)

text \<open>The last term of the text, with the digits that stand before it.\<close>

lemma parse_last:
  assumes "unitMap u = Some (10 ^ p)" "list_all unit_char u" "p \<le> 9" "float_exact fl"
    and "d + (n * 10 ^ p + v mod 10 ^ p) \<le> 2 ^ 63"
  shows "parse_terms fl d (digits_of n @ fst (fmtFrac p v False u)) = Some (d + (n * 10 ^ p + v mod 10 ^ p))"
  using parse_terms_step [OF parse_term_fmtFrac [OF assms(1-4)]] assms(5) by simp

lemma parse_fmt_small:
  assumes "float_exact fl" "0 < u" "u < 1000000000"
  shows "parse_terms fl 0 (fmt_small u) = Some u"
proof -
  have "parse_terms fl 0 (digits_of (u div 10 ^ p) @ fst (fmtFrac p u False t)) = Some u"
    if "unitMap t = Some (10 ^ p)" "list_all unit_char t" "p \<le> 9" for p t
    using parse_last [OF that assms(1), of 0 "u div 10 ^ p" u] assms(3) by (simp add: div_mult_mod_eq)
  from this [OF unit_facts(1,7)] this [OF unit_facts(2,8)] this [OF unit_facts(3,9)]
  show ?thesis using assms(2) by (simp add: fmt_small_def split_beta)
qed

lemma parse_fmt_large:
  assumes fl: "float_exact fl" and u: "u \<le> 2 ^ 63"
  shows "parse_terms fl 0 (fmt_large u) = Some u"
proof -
  define secs where "secs = u div 10 ^ 9"
  define t where "t = digits_of (secs mod 60) @ fst (fmtFrac 9 u False ''s'')"
  define mins where "mins = secs div 60"
  have total: "u = mins * 60000000000 + (secs mod 60 * 1000000000 + u mod 1000000000)"
  proof -
    have "u = secs * 1000000000 + u mod 1000000000" "secs = mins * 60 + secs mod 60"
      by (simp_all add: secs_def mins_def)
    then show ?thesis by linarith
  qed
  have last: "parse_terms fl (mins * 60000000000) t = Some u"
    using parse_last [OF unit_facts(4,10) _ fl, of "mins * 60000000000" "secs mod 60" u] total u
    by (simp add: t_def)
  have t: "ends_unit t" using digits_of_hd [of "secs mod 60"] by (simp add: t_def ends_unit_def)
  define m where "m = digits_of (mins mod 60) @ ''m'' @ t"
  have m: "ends_unit m" using digits_of_hd [of "mins mod 60"] by (simp add: m_def ends_unit_def)
  have hours: "mins = mins div 60 * 60 + mins mod 60" by simp
  then have hu: "mins div 60 * 3600000000000 + mins mod 60 * 60000000000 = mins * 60000000000" by linarith
  have "parse_terms fl (mins div 60 * 3600000000000) m =
      parse_terms fl (mins div 60 * 3600000000000 + mins mod 60 * 60000000000) t"
    using parse_terms_step [OF parse_term_whole [OF unit_facts(5,11) t, of "mins mod 60" fl]] hu total u
    by (simp add: m_def)
  then have mid: "parse_terms fl (mins div 60 * 3600000000000) m = Some u"
    using hu last by simp
  have hour: "parse_terms fl 0 (digits_of (mins div 60) @ ''h'' @ m) = parse_terms fl (mins div 60 * 3600000000000) m"
    using parse_terms_step [OF parse_term_whole [OF unit_facts(6,12) m, of "mins div 60" fl]] hu total u
    by simp
  have "fmt_large u = (if mins = 0 then t else if mins div 60 = 0 then m
      else digits_of (mins div 60) @ ''h'' @ m)"
    by (simp add: fmt_large_def split_beta Let_def t_def m_def mins_def secs_def)
  then show ?thesis using last mid hour by auto
qed

lemma fst_fmtFrac_not_Nil: "buf \<noteq> [] \<Longrightarrow> fst (fmtFrac p v pr buf) \<noteq> []"
  by (induction p v pr buf rule: fmtFrac.induct) (auto simp: Let_def)

text \<open>What is printed starts with a digit and does not end there.\<close>

definition number_first :: "string \<Rightarrow> bool" where
  "number_first s \<longleftrightarrow> (\<exists>n r. r \<noteq> [] \<and> s = digits_of n @ r)"

lemma number_firstI: "r \<noteq> [] \<Longrightarrow> number_first (digits_of n @ r)"
  unfolding number_first_def by blast

lemma fmt_small_shape: "number_first (fmt_small u)"
proof (cases "u = 0")
  case True
  then have "fmt_small u = digits_of 0 @ ''s''" by (simp add: fmt_small_def digits_of.simps)
  then show ?thesis using number_firstI [of "''s''" 0] by simp
next
  case False
  then show ?thesis
    by (simp add: fmt_small_def split_beta number_firstI fst_fmtFrac_not_Nil micro_sign_def del: fmtFrac.simps)
qed

lemma fmt_large_shape: "number_first (fmt_large u)"
proof -
  have "fst (fmtFrac 9 u False ''s'') \<noteq> []" by (rule fst_fmtFrac_not_Nil) simp
  then show ?thesis
    unfolding fmt_large_def split_beta Let_def by (simp add: number_firstI)
qed

text \<open>A printed duration parses back to itself, over the whole range of a 64-bit duration, the most
  negative value and the units below a second included.\<close>

lemma ParseDuration_String:
  assumes "float_exact fl" and "int64_range d"
  shows "ParseDuration fl (Duration_String d) = Some d"
proof -
  define u where "u = nat \<bar>d\<bar>"
  define s where "s = (if u < 1000000000 then fmt_small u else fmt_large u)"
  have u: "u \<le> 2 ^ 63" "0 \<le> d \<Longrightarrow> u \<le> 2 ^ 63 - 1"
    using assms(2) by (simp_all add: u_def int64_range_def nat_le_iff abs_le_iff)
  have "parse_terms fl 0 s = Some u"
  proof (cases "u = 0")
    case True
    then have "s = digits_of 0 @ ''s'' @ []" by (simp add: s_def fmt_small_def digits_of.simps)
    then show ?thesis
      using True parse_terms_step [OF parse_term_whole [OF unit_facts(4,10), of "[]" 0 fl]]
      by (simp add: ends_unit_def)
  next
    case False
    then show ?thesis
      using parse_fmt_small [OF assms(1), of u] parse_fmt_large [OF assms(1) u(1)] by (simp add: s_def)
  qed
  moreover have "d \<ge> 0 \<Longrightarrow> nat d \<le> 2 ^ 63 - 1" using u(2) by (simp add: u_def)
  moreover have "s \<noteq> []" "s \<noteq> ''0''" "hd s \<noteq> CHR ''-'' \<and> hd s \<noteq> CHR ''+''"
  proof -
    obtain n r where "r \<noteq> []" "s = digits_of n @ r" using fmt_small_shape [of u] fmt_large_shape [of u]
      unfolding s_def number_first_def by (cases "u < 1000000000") auto
    then show "s \<noteq> []" "s \<noteq> ''0''" "hd s \<noteq> CHR ''-'' \<and> hd s \<noteq> CHR ''+''"
      using digits_of_hd [of n r] by (auto simp: append_eq_Cons_conv)
  qed
  moreover have "Duration_String d = (if d < 0 then CHR ''-'' # s else s)"
    by (simp add: Duration_String_def Let_def s_def u_def)
  ultimately show ?thesis
    by (cases "0 \<le> d"; cases s) (auto simp: ParseDuration_def parse_magnitude_def u_def)
qed

end
