(* ===== verification/Message_Codec.thy ===== *)
theory Message_Codec
  imports Json_Parse Duration_Text Control_Messages "HOL-Library.List_Lexorder" "HOL-Library.Char_ord"
begin

text \<open>
  The JSON form of the control messages (internal/protocol/message.go): the struct tags of
  \<open>Message\<close>, \<open>NodeConfig\<close> and \<open>Stats\<close>, and the methods of \<open>Duration\<close>, under the rules of
  encoding/json. Encoding drops an \<open>omitempty\<close> field that is zero and sorts the keys of a map. Decoding
  starts from the zero message, takes the members in their order, matches names up to case, ignores
  unknown ones, leaves a field alone on \<open>null\<close> (a pointer becomes nil, and \<open>Duration\<close> decides for
  itself), lets a later member override an earlier one, and fails if any value has the wrong type.

  The text of a time depends on the zone of the process, so \<open>time.Time\<close>'s methods are a parameter,
  \<open>time_marshal\<close> and \<open>time_unmarshal\<close>, next to the floating-point step of \<open>time.ParseDuration\<close>.
\<close>

record wire_lib =
  time_marshal :: "time \<Rightarrow> string option"
  time_unmarshal :: "string \<Rightarrow> time option"
  scale :: float_scale

definition time_text_exact :: "wire_lib \<Rightarrow> bool" where
  "time_text_exact lib \<longleftrightarrow>
     (\<forall>t s. time_marshal lib t = Some s \<longrightarrow> valid_utf8 s \<and> time_unmarshal lib s = Some t)"

section \<open>Encoding\<close>

definition Duration_MarshalJSON :: "duration \<Rightarrow> json" where
  "Duration_MarshalJSON d = JStr (Duration_String d)"

definition int_json :: "int \<Rightarrow> json" where
  "int_json n = JNum (itoa n)"

definition omit_if :: "bool \<Rightarrow> string \<Rightarrow> json \<Rightarrow> (string \<times> json) list" where
  "omit_if is_zero name v = (if is_zero then [] else [(name, v)])"

definition NodeConfig_json :: "node_config \<Rightarrow> json" where
  "NodeConfig_json c =
     JObj [(''ports'', JObj (map (\<lambda>(k, v). (k, JStr v)) (sort_key fst (Ports c)))),
           (''channels'', int_json (Channels c)),
           (''heartbeat'', Duration_MarshalJSON (Heartbeat c)),
           (''dial_timeout'', Duration_MarshalJSON (DialTimeout c)),
           (''max_streams_per_conn'', int_json (MaxStreamsPerConn c))]"

definition Stats_json :: "client_stats \<Rightarrow> json" where
  "Stats_json s =
     JObj [(''channels'', int_json (cs_channels s)), (''streams'', int_json (cs_streams s)),
           (''bytes_in'', int_json (cs_bytes_in s)), (''bytes_out'', int_json (cs_bytes_out s)),
           (''local_dial_errors'', int_json (cs_local_dial_errors s))]"

definition str_member :: "string \<Rightarrow> string \<Rightarrow> (string \<times> json) list" where
  "str_member name s = omit_if (s = '''') name (JStr s)"

definition int_member :: "string \<Rightarrow> int \<Rightarrow> (string \<times> json) list" where
  "int_member name n = omit_if (n = 0) name (int_json n)"

definition ptr_member :: "string \<Rightarrow> ('a \<Rightarrow> json) \<Rightarrow> 'a option \<Rightarrow> (string \<times> json) list" where
  "ptr_member name enc p = (case p of None \<Rightarrow> [] | Some x \<Rightarrow> [(name, enc x)])"

text \<open>The members of \<open>Message\<close>; \<open>deadline\<close> is the text of the deadline, if there is one.\<close>

definition Message_members :: "message \<Rightarrow> string option \<Rightarrow> (string \<times> json) list" where
  "Message_members m deadline =
     (''type'', JStr (m_type m)) #
     str_member ''role'' (m_role m) @ str_member ''node'' (m_node m) @ str_member ''key'' (m_key m) @
     str_member ''session'' (m_session m) @
     omit_if (m_heartbeat m = 0) ''heartbeat'' (Duration_MarshalJSON (m_heartbeat m)) @
     int_member ''channels'' (m_channels m) @ int_member ''channel_id'' (m_channel_id m) @
     ptr_member ''config'' NodeConfig_json (m_config m) @
     str_member ''nonce'' (m_nonce m) @ int_member ''ts'' (m_ts m) @
     ptr_member ''stats'' Stats_json (m_stats m) @ ptr_member ''deadline'' JStr deadline @
     str_member ''reason'' (m_reason m) @ str_member ''code'' (m_code m) @
     str_member ''msg'' (m_msg m) @ str_member ''ref'' (m_ref m)"

text \<open>\<open>json.Marshal(msg)\<close>; it fails only on a deadline whose year has no four digits.\<close>

definition Message_Marshal :: "wire_lib \<Rightarrow> message \<Rightarrow> string option" where
  "Message_Marshal lib m =
     (case m_deadline m of
        None \<Rightarrow> Some (json_text (JObj (Message_members m None)))
      | Some t \<Rightarrow>
          (case time_marshal lib t of
             None \<Rightarrow> None
           | Some s \<Rightarrow> Some (json_text (JObj (Message_members m (Some s))))))"

section \<open>Decoding\<close>

text \<open>\<open>foldName\<close>: letters are compared without case; the Kelvin sign folds to K and the long s to S.\<close>

definition upper :: "char \<Rightarrow> char" where
  "upper c = (if 97 \<le> byte_of c \<and> byte_of c \<le> 122 then char_of (byte_of c - 32) else c)"

fun fold_name :: "string \<Rightarrow> string" where
  "fold_name (a # b # c # s) =
     (if a = CHR 0xC5 \<and> b = CHR 0xBF then CHR ''S'' # fold_name (c # s)
      else if a = CHR 0xE2 \<and> b = CHR 0x84 \<and> c = CHR 0xAA then CHR ''K'' # fold_name s
      else upper a # fold_name (b # c # s))"
| "fold_name [a, b] = (if a = CHR 0xC5 \<and> b = CHR 0xBF then ''S'' else [upper a, upper b])"
| "fold_name [a] = [upper a]"
| "fold_name [] = []"

definition Duration_UnmarshalJSON :: "wire_lib \<Rightarrow> json \<Rightarrow> duration option" where
  "Duration_UnmarshalJSON lib v =
     (case v of
        JStr s \<Rightarrow> ParseDuration (scale lib) s
      | JNull \<Rightarrow> ParseDuration (scale lib) ''''
      | JNum l \<Rightarrow> atoi l
      | _ \<Rightarrow> None)"

definition string_field :: "json \<Rightarrow> string \<Rightarrow> string option" where
  "string_field v old = (case v of JStr s \<Rightarrow> Some s | JNull \<Rightarrow> Some old | _ \<Rightarrow> None)"

definition int_field :: "json \<Rightarrow> int \<Rightarrow> int option" where
  "int_field v old = (case v of JNum l \<Rightarrow> atoi l | JNull \<Rightarrow> Some old | _ \<Rightarrow> None)"

text \<open>A target is filled by \<open>put key value\<close>, member after member.\<close>

fun decode_members :: "(string \<Rightarrow> json \<Rightarrow> 'a \<Rightarrow> 'a option) \<Rightarrow> (string \<times> json) list \<Rightarrow> 'a \<Rightarrow> 'a option" where
  "decode_members put [] x = Some x"
| "decode_members put ((k, v) # ms) x =
     (case put k v x of None \<Rightarrow> None | Some y \<Rightarrow> decode_members put ms y)"

definition struct_field :: "(string \<Rightarrow> json \<Rightarrow> 'a \<Rightarrow> 'a option) \<Rightarrow> json \<Rightarrow> 'a \<Rightarrow> 'a option" where
  "struct_field put v x =
     (case v of JObj ms \<Rightarrow> decode_members put ms x | JNull \<Rightarrow> Some x | _ \<Rightarrow> None)"

text \<open>A pointer is allocated at the first object and filled further by a later one.\<close>

definition ptr_field ::
  "(string \<Rightarrow> json \<Rightarrow> 'a \<Rightarrow> 'a option) \<Rightarrow> 'a \<Rightarrow> json \<Rightarrow> 'a option \<Rightarrow> 'a option option" where
  "ptr_field put zero v old =
     (case v of
        JNull \<Rightarrow> Some None
      | JObj ms \<Rightarrow> map_option Some (decode_members put ms (case old of None \<Rightarrow> zero | Some x \<Rightarrow> x))
      | _ \<Rightarrow> None)"

definition set_port :: "string \<Rightarrow> json \<Rightarrow> (string \<times> string) list \<Rightarrow> (string \<times> string) list option" where
  "set_port k v ports = map_option (\<lambda>s. AList.update k s ports) (string_field v '''')"

definition ports_field :: "json \<Rightarrow> (string \<times> string) list \<Rightarrow> (string \<times> string) list option" where
  "ports_field v ports =
     (case v of JNull \<Rightarrow> Some [] | JObj ms \<Rightarrow> decode_members set_port ms ports | _ \<Rightarrow> None)"

definition zero_node_config :: node_config where
  "zero_node_config = \<lparr>Ports = [], Channels = 0, Heartbeat = 0, DialTimeout = 0, MaxStreamsPerConn = 0\<rparr>"

definition set_NodeConfig :: "wire_lib \<Rightarrow> string \<Rightarrow> json \<Rightarrow> node_config \<Rightarrow> node_config option" where
  "set_NodeConfig lib key v c =
     (let k = fold_name key
      in if k = ''PORTS'' then map_option (\<lambda>x. c\<lparr>Ports := x\<rparr>) (ports_field v (Ports c))
         else if k = ''CHANNELS'' then map_option (\<lambda>x. c\<lparr>Channels := x\<rparr>) (int_field v (Channels c))
         else if k = ''HEARTBEAT'' then map_option (\<lambda>x. c\<lparr>Heartbeat := x\<rparr>) (Duration_UnmarshalJSON lib v)
         else if k = ''DIAL_TIMEOUT'' then map_option (\<lambda>x. c\<lparr>DialTimeout := x\<rparr>) (Duration_UnmarshalJSON lib v)
         else if k = ''MAX_STREAMS_PER_CONN''
         then map_option (\<lambda>x. c\<lparr>MaxStreamsPerConn := x\<rparr>) (int_field v (MaxStreamsPerConn c))
         else Some c)"

definition zero_client_stats :: client_stats where
  "zero_client_stats =
     \<lparr>cs_channels = 0, cs_streams = 0, cs_bytes_in = 0, cs_bytes_out = 0, cs_local_dial_errors = 0\<rparr>"

definition set_Stats :: "string \<Rightarrow> json \<Rightarrow> client_stats \<Rightarrow> client_stats option" where
  "set_Stats key v s =
     (let k = fold_name key
      in if k = ''CHANNELS'' then map_option (\<lambda>x. s\<lparr>cs_channels := x\<rparr>) (int_field v (cs_channels s))
         else if k = ''STREAMS'' then map_option (\<lambda>x. s\<lparr>cs_streams := x\<rparr>) (int_field v (cs_streams s))
         else if k = ''BYTES_IN'' then map_option (\<lambda>x. s\<lparr>cs_bytes_in := x\<rparr>) (int_field v (cs_bytes_in s))
         else if k = ''BYTES_OUT'' then map_option (\<lambda>x. s\<lparr>cs_bytes_out := x\<rparr>) (int_field v (cs_bytes_out s))
         else if k = ''LOCAL_DIAL_ERRORS''
         then map_option (\<lambda>x. s\<lparr>cs_local_dial_errors := x\<rparr>) (int_field v (cs_local_dial_errors s))
         else Some s)"

text \<open>Go hands the method the bytes between the quotes as they stand; here it gets the text they spell, so a
  deadline with an escape in it, which no writer produces, is judged by what it spells.\<close>

definition deadline_field :: "wire_lib \<Rightarrow> json \<Rightarrow> time option option" where
  "deadline_field lib v =
     (case v of JNull \<Rightarrow> Some None | JStr s \<Rightarrow> map_option Some (time_unmarshal lib s) | _ \<Rightarrow> None)"

definition set_Message :: "wire_lib \<Rightarrow> string \<Rightarrow> json \<Rightarrow> message \<Rightarrow> message option" where
  "set_Message lib key v m =
     (let k = fold_name key
      in if k = ''TYPE'' then map_option (\<lambda>x. m\<lparr>m_type := x\<rparr>) (string_field v (m_type m))
         else if k = ''ROLE'' then map_option (\<lambda>x. m\<lparr>m_role := x\<rparr>) (string_field v (m_role m))
         else if k = ''NODE'' then map_option (\<lambda>x. m\<lparr>m_node := x\<rparr>) (string_field v (m_node m))
         else if k = ''KEY'' then map_option (\<lambda>x. m\<lparr>m_key := x\<rparr>) (string_field v (m_key m))
         else if k = ''SESSION'' then map_option (\<lambda>x. m\<lparr>m_session := x\<rparr>) (string_field v (m_session m))
         else if k = ''HEARTBEAT'' then map_option (\<lambda>x. m\<lparr>m_heartbeat := x\<rparr>) (Duration_UnmarshalJSON lib v)
         else if k = ''CHANNELS'' then map_option (\<lambda>x. m\<lparr>m_channels := x\<rparr>) (int_field v (m_channels m))
         else if k = ''CHANNEL_ID'' then map_option (\<lambda>x. m\<lparr>m_channel_id := x\<rparr>) (int_field v (m_channel_id m))
         else if k = ''CONFIG''
         then map_option (\<lambda>x. m\<lparr>m_config := x\<rparr>) (ptr_field (set_NodeConfig lib) zero_node_config v (m_config m))
         else if k = ''NONCE'' then map_option (\<lambda>x. m\<lparr>m_nonce := x\<rparr>) (string_field v (m_nonce m))
         else if k = ''TS'' then map_option (\<lambda>x. m\<lparr>m_ts := x\<rparr>) (int_field v (m_ts m))
         else if k = ''STATS''
         then map_option (\<lambda>x. m\<lparr>m_stats := x\<rparr>) (ptr_field set_Stats zero_client_stats v (m_stats m))
         else if k = ''DEADLINE'' then map_option (\<lambda>x. m\<lparr>m_deadline := x\<rparr>) (deadline_field lib v)
         else if k = ''REASON'' then map_option (\<lambda>x. m\<lparr>m_reason := x\<rparr>) (string_field v (m_reason m))
         else if k = ''CODE'' then map_option (\<lambda>x. m\<lparr>m_code := x\<rparr>) (string_field v (m_code m))
         else if k = ''MSG'' then map_option (\<lambda>x. m\<lparr>m_msg := x\<rparr>) (string_field v (m_msg m))
         else if k = ''REF'' then map_option (\<lambda>x. m\<lparr>m_ref := x\<rparr>) (string_field v (m_ref m))
         else Some m)"

text \<open>\<open>json.Unmarshal(b, &msg)\<close>.\<close>

definition Message_Unmarshal :: "wire_lib \<Rightarrow> string \<Rightarrow> message option" where
  "Message_Unmarshal lib b =
     (case json_document b of
        None \<Rightarrow> None
      | Some v \<Rightarrow> struct_field (set_Message lib) v zero_message)"

section \<open>Texts are UTF-8\<close>

lemma ascii_valid: "list_all (\<lambda>c. byte_of c < 0x80) s \<Longrightarrow> valid_utf8 s"
  by (induction s) (simp_all add: valid_utf8_ascii)

lemma digit_char_ascii: "d < 10 \<Longrightarrow> byte_of (digit_char d) < 0x80"
  by (simp add: digit_char_def)

lemma digits_of_ascii: "list_all (\<lambda>c. byte_of c < 0x80) (digits_of n)"
  by (induction n rule: digits_of.induct) (subst digits_of.simps, auto simp: digit_char_ascii)

lemma digits_of_valid: "valid_utf8 (digits_of n @ s) = valid_utf8 s"
  by (intro valid_utf8_append ascii_valid digits_of_ascii)

lemma fmtFrac_valid: "valid_utf8 buf \<Longrightarrow> valid_utf8 (fst (fmtFrac p v pr buf))"
  by (induction p v pr buf rule: fmtFrac.induct) (auto simp: Let_def valid_utf8_ascii digit_char_ascii)

lemma micro_valid: "valid_utf8 (micro_sign @ s) = valid_utf8 s"
  by (rule valid_utf8_step [where u = micro_sign]) (simp add: utf8_rune.simps micro_sign_def in_range_def)

lemma Duration_String_valid: "valid_utf8 (Duration_String d)"
proof -
  have "valid_utf8 (fmt_small u)" for u
    by (simp add: fmt_small_def split_beta digits_of_valid fmtFrac_valid micro_valid valid_utf8_ascii
        del: fmtFrac.simps)
  moreover have "valid_utf8 (fmt_large u)" for u
    by (simp add: fmt_large_def split_beta Let_def digits_of_valid fmtFrac_valid valid_utf8_ascii)
  ultimately show ?thesis by (simp add: Duration_String_def Let_def valid_utf8_ascii)
qed

section \<open>Messages that can be put on the wire\<close>

definition node_config_text :: "node_config \<Rightarrow> bool" where
  "node_config_text c \<longleftrightarrow>
     distinct (keys (Ports c)) \<and> (\<forall>(k, v) \<in> set (Ports c). valid_utf8 k \<and> valid_utf8 v) \<and>
     int64_range (Channels c) \<and> int64_range (Heartbeat c) \<and> int64_range (DialTimeout c) \<and>
     int64_range (MaxStreamsPerConn c)"

definition client_stats_text :: "client_stats \<Rightarrow> bool" where
  "client_stats_text s \<longleftrightarrow>
     int64_range (cs_channels s) \<and> int64_range (cs_streams s) \<and> int64_range (cs_bytes_in s) \<and>
     int64_range (cs_bytes_out s) \<and> int64_range (cs_local_dial_errors s)"

definition message_text :: "message \<Rightarrow> bool" where
  "message_text m \<longleftrightarrow>
     list_all valid_utf8 [m_type m, m_role m, m_node m, m_key m, m_session m, m_nonce m, m_reason m,
       m_code m, m_msg m, m_ref m] \<and>
     list_all int64_range [m_heartbeat m, m_channels m, m_channel_id m, m_ts m] \<and>
     pred_option node_config_text (m_config m) \<and> pred_option client_stats_text (m_stats m)"

text \<open>A map comes back in the order of its keys.\<close>

definition sort_ports :: "node_config \<Rightarrow> node_config" where
  "sort_ports c = c\<lparr>Ports := sort_key fst (Ports c)\<rparr>"

definition canonical :: "message \<Rightarrow> message" where
  "canonical m = m\<lparr>m_config := map_option sort_ports (m_config m)\<rparr>"

lemma same_node_config_sort:
  assumes "distinct (keys (Ports c))"
  shows "same_node_config (sort_ports c) c"
proof -
  have "distinct (keys (sort_key fst (Ports c)))"
    using assms by (metis distinct_map distinct_sort mset_eq_setD mset_sort set_sort)
  then have "map_of (sort_key fst (Ports c)) = map_of (Ports c)"
    using assms by (intro map_of_eqI) (auto simp: map_of_Some_iff_mem)
  then show ?thesis by (simp add: same_node_config_def sort_ports_def)
qed

section \<open>Decoding what was encoded\<close>

lemma Duration_json: "int64_range d \<Longrightarrow> float_exact (scale lib) \<Longrightarrow>
    Duration_UnmarshalJSON lib (Duration_MarshalJSON d) = Some d"
  by (simp add: Duration_UnmarshalJSON_def Duration_MarshalJSON_def ParseDuration_String)

lemma int_json: "int64_range n \<Longrightarrow> int_field (int_json n) old = Some n"
  by (simp add: int_field_def int_json_def atoi_itoa)

lemma update_new: "k \<notin> set (keys m) \<Longrightarrow> AList.update k v m = m @ [(k, v)]"
  by (induction m) auto

lemma decode_ports:
  "distinct (keys (acc @ ps)) \<Longrightarrow>
     decode_members set_port (map (\<lambda>(k, v). (k, JStr v)) ps) acc = Some (acc @ ps)"
proof (induction ps arbitrary: acc)
  case (Cons p ps)
  obtain k v where p: "p = (k, v)" by (cases p)
  with Cons.prems have "k \<notin> set (keys acc)" by auto
  then have "set_port k (JStr v) acc = Some (acc @ [(k, v)])"
    by (simp add: set_port_def string_field_def update_new)
  with Cons.IH [of "acc @ [(k, v)]"] Cons.prems p show ?case by simp
qed simp

lemma fold_names:
  "fold_name ''type'' = ''TYPE''" "fold_name ''role'' = ''ROLE''"
  "fold_name ''node'' = ''NODE''" "fold_name ''key'' = ''KEY''"
  "fold_name ''session'' = ''SESSION''" "fold_name ''heartbeat'' = ''HEARTBEAT''"
  "fold_name ''channels'' = ''CHANNELS''" "fold_name ''channel_id'' = ''CHANNEL_ID''"
  "fold_name ''config'' = ''CONFIG''" "fold_name ''nonce'' = ''NONCE''"
  "fold_name ''ts'' = ''TS''" "fold_name ''stats'' = ''STATS''"
  "fold_name ''deadline'' = ''DEADLINE''" "fold_name ''reason'' = ''REASON''"
  "fold_name ''code'' = ''CODE''" "fold_name ''msg'' = ''MSG''"
  "fold_name ''ref'' = ''REF''" "fold_name ''ports'' = ''PORTS''"
  "fold_name ''dial_timeout'' = ''DIAL_TIMEOUT''" "fold_name ''max_streams_per_conn'' = ''MAX_STREAMS_PER_CONN''"
  "fold_name ''streams'' = ''STREAMS''" "fold_name ''bytes_in'' = ''BYTES_IN''"
  "fold_name ''bytes_out'' = ''BYTES_OUT''" "fold_name ''local_dial_errors'' = ''LOCAL_DIAL_ERRORS''"
  by code_simp+

lemma set_Stats_fields [wire_simps]:
  "set_Stats ''channels'' v s = map_option (\<lambda>x. s\<lparr>cs_channels := x\<rparr>) (int_field v (cs_channels s))"
  "set_Stats ''streams'' v s = map_option (\<lambda>x. s\<lparr>cs_streams := x\<rparr>) (int_field v (cs_streams s))"
  "set_Stats ''bytes_in'' v s = map_option (\<lambda>x. s\<lparr>cs_bytes_in := x\<rparr>) (int_field v (cs_bytes_in s))"
  "set_Stats ''bytes_out'' v s = map_option (\<lambda>x. s\<lparr>cs_bytes_out := x\<rparr>) (int_field v (cs_bytes_out s))"
  "set_Stats ''local_dial_errors'' v s = map_option (\<lambda>x. s\<lparr>cs_local_dial_errors := x\<rparr>) (int_field v (cs_local_dial_errors s))"
  unfolding set_Stats_def fold_names Let_def by simp_all

lemma set_NodeConfig_fields [wire_simps]:
  "set_NodeConfig lib ''ports'' v c = map_option (\<lambda>x. c\<lparr>Ports := x\<rparr>) (ports_field v (Ports c))"
  "set_NodeConfig lib ''channels'' v c = map_option (\<lambda>x. c\<lparr>Channels := x\<rparr>) (int_field v (Channels c))"
  "set_NodeConfig lib ''heartbeat'' v c = map_option (\<lambda>x. c\<lparr>Heartbeat := x\<rparr>) (Duration_UnmarshalJSON lib v)"
  "set_NodeConfig lib ''dial_timeout'' v c = map_option (\<lambda>x. c\<lparr>DialTimeout := x\<rparr>) (Duration_UnmarshalJSON lib v)"
  "set_NodeConfig lib ''max_streams_per_conn'' v c = map_option (\<lambda>x. c\<lparr>MaxStreamsPerConn := x\<rparr>) (int_field v (MaxStreamsPerConn c))"
  unfolding set_NodeConfig_def fold_names Let_def by simp_all

lemma set_Message_fields [wire_simps]:
  "set_Message lib ''type'' v m = map_option (\<lambda>x. m\<lparr>m_type := x\<rparr>) (string_field v (m_type m))"
  "set_Message lib ''role'' v m = map_option (\<lambda>x. m\<lparr>m_role := x\<rparr>) (string_field v (m_role m))"
  "set_Message lib ''node'' v m = map_option (\<lambda>x. m\<lparr>m_node := x\<rparr>) (string_field v (m_node m))"
  "set_Message lib ''key'' v m = map_option (\<lambda>x. m\<lparr>m_key := x\<rparr>) (string_field v (m_key m))"
  "set_Message lib ''session'' v m = map_option (\<lambda>x. m\<lparr>m_session := x\<rparr>) (string_field v (m_session m))"
  "set_Message lib ''heartbeat'' v m = map_option (\<lambda>x. m\<lparr>m_heartbeat := x\<rparr>) (Duration_UnmarshalJSON lib v)"
  "set_Message lib ''channels'' v m = map_option (\<lambda>x. m\<lparr>m_channels := x\<rparr>) (int_field v (m_channels m))"
  "set_Message lib ''channel_id'' v m = map_option (\<lambda>x. m\<lparr>m_channel_id := x\<rparr>) (int_field v (m_channel_id m))"
  "set_Message lib ''config'' v m = map_option (\<lambda>x. m\<lparr>m_config := x\<rparr>) (ptr_field (set_NodeConfig lib) zero_node_config v (m_config m))"
  "set_Message lib ''nonce'' v m = map_option (\<lambda>x. m\<lparr>m_nonce := x\<rparr>) (string_field v (m_nonce m))"
  "set_Message lib ''ts'' v m = map_option (\<lambda>x. m\<lparr>m_ts := x\<rparr>) (int_field v (m_ts m))"
  "set_Message lib ''stats'' v m = map_option (\<lambda>x. m\<lparr>m_stats := x\<rparr>) (ptr_field set_Stats zero_client_stats v (m_stats m))"
  "set_Message lib ''deadline'' v m = map_option (\<lambda>x. m\<lparr>m_deadline := x\<rparr>) (deadline_field lib v)"
  "set_Message lib ''reason'' v m = map_option (\<lambda>x. m\<lparr>m_reason := x\<rparr>) (string_field v (m_reason m))"
  "set_Message lib ''code'' v m = map_option (\<lambda>x. m\<lparr>m_code := x\<rparr>) (string_field v (m_code m))"
  "set_Message lib ''msg'' v m = map_option (\<lambda>x. m\<lparr>m_msg := x\<rparr>) (string_field v (m_msg m))"
  "set_Message lib ''ref'' v m = map_option (\<lambda>x. m\<lparr>m_ref := x\<rparr>) (string_field v (m_ref m))"
  unfolding set_Message_def fold_names Let_def by simp_all

lemma NodeConfig_decodes:
  assumes "node_config_text c" "float_exact (scale lib)"
  shows "ptr_field (set_NodeConfig lib) zero_node_config (NodeConfig_json c) None = Some (Some (sort_ports c))"
proof -
  have "distinct (keys (sort_key fst (Ports c)))"
    using assms(1) by (metis node_config_text_def distinct_map distinct_sort set_sort)
  then show ?thesis
    using assms decode_ports [of "[]" "sort_key fst (Ports c)"]
    by (simp add: ptr_field_def NodeConfig_json_def wire_simps ports_field_def int_json
        node_config_text_def Duration_json zero_node_config_def sort_ports_def)
qed

lemma Stats_decodes:
  "client_stats_text s \<Longrightarrow> ptr_field set_Stats zero_client_stats (Stats_json s) None = Some (Some s)"
  by (simp add: ptr_field_def Stats_json_def wire_simps int_json client_stats_text_def
      zero_client_stats_def)

lemma decode_members_append:
  "decode_members put (xs @ ys) x = Option.bind (decode_members put xs x) (decode_members put ys)"
  by (induction put xs x rule: decode_members.induct) (auto split: option.split)

text \<open>Each member sets its field, and an omitted one leaves the zero it stands for.\<close>

lemma decode_Message_members:
  "m_role M = '''' \<Longrightarrow>
     decode_members (set_Message lib) (str_member ''role'' s) M = Some (M\<lparr>m_role := s\<rparr>)"
  "m_node M = '''' \<Longrightarrow>
     decode_members (set_Message lib) (str_member ''node'' s) M = Some (M\<lparr>m_node := s\<rparr>)"
  "m_key M = '''' \<Longrightarrow>
     decode_members (set_Message lib) (str_member ''key'' s) M = Some (M\<lparr>m_key := s\<rparr>)"
  "m_session M = '''' \<Longrightarrow>
     decode_members (set_Message lib) (str_member ''session'' s) M = Some (M\<lparr>m_session := s\<rparr>)"
  "m_nonce M = '''' \<Longrightarrow>
     decode_members (set_Message lib) (str_member ''nonce'' s) M = Some (M\<lparr>m_nonce := s\<rparr>)"
  "m_reason M = '''' \<Longrightarrow>
     decode_members (set_Message lib) (str_member ''reason'' s) M = Some (M\<lparr>m_reason := s\<rparr>)"
  "m_code M = '''' \<Longrightarrow>
     decode_members (set_Message lib) (str_member ''code'' s) M = Some (M\<lparr>m_code := s\<rparr>)"
  "m_msg M = '''' \<Longrightarrow>
     decode_members (set_Message lib) (str_member ''msg'' s) M = Some (M\<lparr>m_msg := s\<rparr>)"
  "m_ref M = '''' \<Longrightarrow>
     decode_members (set_Message lib) (str_member ''ref'' s) M = Some (M\<lparr>m_ref := s\<rparr>)"
  "m_channels M = 0 \<Longrightarrow> int64_range n \<Longrightarrow>
     decode_members (set_Message lib) (int_member ''channels'' n) M = Some (M\<lparr>m_channels := n\<rparr>)"
  "m_channel_id M = 0 \<Longrightarrow> int64_range n \<Longrightarrow>
     decode_members (set_Message lib) (int_member ''channel_id'' n) M = Some (M\<lparr>m_channel_id := n\<rparr>)"
  "m_ts M = 0 \<Longrightarrow> int64_range n \<Longrightarrow>
     decode_members (set_Message lib) (int_member ''ts'' n) M = Some (M\<lparr>m_ts := n\<rparr>)"
  by (cases M; simp add: str_member_def int_member_def omit_if_def wire_simps string_field_def int_json)+

lemma decode_Message_pointers:
  assumes "float_exact (scale lib)"
  shows "m_heartbeat M = 0 \<Longrightarrow> int64_range d \<Longrightarrow>
      decode_members (set_Message lib) (omit_if (d = 0) ''heartbeat'' (Duration_MarshalJSON d)) M =
        Some (M\<lparr>m_heartbeat := d\<rparr>)"
    and "m_config M = None \<Longrightarrow> pred_option node_config_text c \<Longrightarrow>
      decode_members (set_Message lib) (ptr_member ''config'' NodeConfig_json c) M =
        Some (M\<lparr>m_config := map_option sort_ports c\<rparr>)"
    and "m_stats M = None \<Longrightarrow> pred_option client_stats_text s \<Longrightarrow>
      decode_members (set_Message lib) (ptr_member ''stats'' Stats_json s) M = Some (M\<lparr>m_stats := s\<rparr>)"
    and "m_deadline M = None \<Longrightarrow> rel_option (\<lambda>x t. time_unmarshal lib x = Some t) x t \<Longrightarrow>
      decode_members (set_Message lib) (ptr_member ''deadline'' JStr x) M = Some (M\<lparr>m_deadline := t\<rparr>)"
proof -
  show "m_heartbeat M = 0 \<Longrightarrow> int64_range d \<Longrightarrow>
      decode_members (set_Message lib) (omit_if (d = 0) ''heartbeat'' (Duration_MarshalJSON d)) M =
        Some (M\<lparr>m_heartbeat := d\<rparr>)"
    using assms by (cases M) (simp add: omit_if_def wire_simps Duration_json)
  show "m_config M = None \<Longrightarrow> pred_option node_config_text c \<Longrightarrow>
      decode_members (set_Message lib) (ptr_member ''config'' NodeConfig_json c) M =
        Some (M\<lparr>m_config := map_option sort_ports c\<rparr>)"
    using assms by (cases M; cases c) (simp_all add: ptr_member_def wire_simps NodeConfig_decodes)
  show "m_stats M = None \<Longrightarrow> pred_option client_stats_text s \<Longrightarrow>
      decode_members (set_Message lib) (ptr_member ''stats'' Stats_json s) M = Some (M\<lparr>m_stats := s\<rparr>)"
    by (cases M; cases s) (simp_all add: ptr_member_def wire_simps Stats_decodes)
  show "m_deadline M = None \<Longrightarrow> rel_option (\<lambda>x t. time_unmarshal lib x = Some t) x t \<Longrightarrow>
      decode_members (set_Message lib) (ptr_member ''deadline'' JStr x) M = Some (M\<lparr>m_deadline := t\<rparr>)"
    by (cases M; cases x; cases t) (simp_all add: ptr_member_def wire_simps deadline_field_def)
qed

lemma Message_decodes:
  assumes "message_text m" "float_exact (scale lib)"
    and "rel_option (\<lambda>x t. time_unmarshal lib x = Some t) x (m_deadline m)"
  shows "decode_members (set_Message lib) (Message_members m x) zero_message = Some (canonical m)"
proof -
  have "decode_members (set_Message lib) [(''type'', JStr (m_type m))] zero_message =
      Some (zero_message\<lparr>m_type := m_type m\<rparr>)"
    by (simp add: wire_simps string_field_def)
  moreover have "Message_members m x = [(''type'', JStr (m_type m))] @ tl (Message_members m x)"
    by (simp add: Message_members_def)
  ultimately have "decode_members (set_Message lib) (Message_members m x) zero_message =
      decode_members (set_Message lib) (tl (Message_members m x)) (zero_message\<lparr>m_type := m_type m\<rparr>)"
    by (metis decode_members_append bind.bind_lunit)
  also have "\<dots> = Some (canonical m)"
    using assms unfolding Message_members_def list.sel message_text_def
    by (simp add: decode_members_append decode_Message_members decode_Message_pointers zero_message_def
        canonical_def)
  finally show ?thesis .
qed

lemma int_json_ok [simp]: "int64_range n \<Longrightarrow> json_ok (int_json n)"
  by (simp add: int_json_def int_literal_def atoi_itoa)

lemma Duration_json_ok [simp]: "json_ok (Duration_MarshalJSON d)"
  by (simp add: Duration_MarshalJSON_def Duration_String_valid)

lemma int_json_depth [simp]: "json_depth (int_json n) = 0" "json_depth (Duration_MarshalJSON d) = 0"
  by (simp_all add: int_json_def Duration_MarshalJSON_def)

lemma NodeConfig_json_ok: "node_config_text c \<Longrightarrow> json_ok (NodeConfig_json c)"
  by (auto simp: NodeConfig_json_def node_config_text_def ascii_valid)

lemma Stats_json_ok: "client_stats_text s \<Longrightarrow> json_ok (Stats_json s)"
  by (auto simp: Stats_json_def client_stats_text_def ascii_valid)

lemma NodeConfig_json_depth: "json_depth (NodeConfig_json c) \<le> 2"
proof -
  have "json_depth (JObj (map (\<lambda>(k, v). (k, JStr v)) ps)) \<le> 1" for ps
    using depth_bound(2) [of 0 "map (\<lambda>(k, v). (k, JStr v)) ps" 1]
    by (auto simp del: json_depth.simps(2))
  then show ?thesis
    using depth_bound(2) [of 0 _ 2] by (simp add: NodeConfig_json_def del: json_depth.simps(2))
qed

lemma Stats_json_depth: "json_depth (Stats_json s) \<le> 2"
  by (simp add: Stats_json_def)

definition member_ok :: "string \<times> json \<Rightarrow> bool" where
  "member_ok p \<longleftrightarrow> valid_utf8 (fst p) \<and> json_ok (snd p) \<and> json_depth (snd p) \<le> 2"

lemma members_ok:
  "valid_utf8 n \<Longrightarrow> valid_utf8 s \<Longrightarrow> list_all member_ok (str_member n s)"
  "valid_utf8 n \<Longrightarrow> int64_range k \<Longrightarrow> list_all member_ok (int_member n k)"
  "valid_utf8 n \<Longrightarrow> list_all member_ok (omit_if b n (Duration_MarshalJSON d))"
  "valid_utf8 n \<Longrightarrow> pred_option valid_utf8 x \<Longrightarrow> list_all member_ok (ptr_member n JStr x)"
  "valid_utf8 n \<Longrightarrow> pred_option node_config_text c \<Longrightarrow> list_all member_ok (ptr_member n NodeConfig_json c)"
  "valid_utf8 n \<Longrightarrow> pred_option client_stats_text t \<Longrightarrow> list_all member_ok (ptr_member n Stats_json t)"
  by (auto simp: str_member_def int_member_def omit_if_def ptr_member_def member_ok_def NodeConfig_json_ok
      Stats_json_ok NodeConfig_json_depth Stats_json_depth split: option.split)

lemma Message_json_ok:
  assumes "message_text m" "pred_option valid_utf8 x"
  shows "json_document (json_text (JObj (Message_members m x))) = Some (JObj (Message_members m x))"
proof -
  have "list_all member_ok (Message_members m x)"
    using assms by (simp add: Message_members_def message_text_def members_ok ascii_valid)
      (simp add: member_ok_def ascii_valid)
  then have "json_ok (JObj (Message_members m x))" "json_depth (JObj (Message_members m x)) \<le> 3"
    by (auto simp: list_all_iff member_ok_def fold_max_le)
  then show ?thesis by (intro json_document_text) (simp_all add: max_nesting_def del: json_depth.simps)
qed

text \<open>What is marshalled is read back, with the maps in the order of their keys.\<close>

lemma Message_roundtrip:
  assumes "message_text m" "float_exact (scale lib)" "time_text_exact lib" "Message_Marshal lib m = Some b"
  shows "Message_Unmarshal lib b = Some (canonical m)"
proof -
  obtain x where b: "b = json_text (JObj (Message_members m x))"
    and x: "rel_option (\<lambda>s t. time_marshal lib t = Some s) x (m_deadline m)"
    using assms(4) by (auto simp: Message_Marshal_def split: option.splits)
  have "pred_option valid_utf8 x" "rel_option (\<lambda>s t. time_unmarshal lib s = Some t) x (m_deadline m)"
    using x assms(3) by (auto simp: time_text_exact_def option_rel_Some1 elim!: option.rel_cases)
  then show ?thesis
    using Message_json_ok [OF assms(1)] Message_decodes [OF assms(1,2)]
    by (simp add: Message_Unmarshal_def struct_field_def b)
qed

end
