(* ===== verification/Ws_Wire.thy ===== *)
theory Ws_Wire
  imports Message_Codec
begin

text \<open>
  internal/wsutil/wsutil.go: control messages as WebSocket text frames, and the settings of the
  connections and of smux. A frame is its type and its bytes. What the WebSocket library does is a
  parameter: \<open>recv limit f\<close> is what \<open>Read\<close> returns for the frame \<open>f\<close> on a connection with that read
  limit; \<open>transport_ok\<close> is its documented contract. The zero configuration of smux is an argument too.
\<close>

datatype ws_type = MessageText | MessageBinary

type_synonym ws_frame = "ws_type \<times> string"
type_synonym transport = "nat \<Rightarrow> ws_frame \<Rightarrow> string + ws_frame"

definition ReadLimit :: nat where
  "ReadLimit = 2 ^ 20"

text \<open>A connection as far as wsutil sets it up: \<open>Prepare\<close>, and \<open>Close\<close>, which takes nil.\<close>

record ws_conn =
  ws_limit :: nat
  ws_closed :: "(int \<times> string) option"

definition Prepare :: "ws_conn \<Rightarrow> ws_conn" where
  "Prepare c = c\<lparr>ws_limit := ReadLimit\<rparr>"

definition Ws_Close :: "int \<Rightarrow> string \<Rightarrow> ws_conn option \<Rightarrow> ws_conn option" where
  "Ws_Close code reason c =
     (case c of
        None \<Rightarrow> None
      | Some conn \<Rightarrow> Some (if ws_closed conn = None then conn\<lparr>ws_closed := Some (code, reason)\<rparr> else conn))"

datatype write_error = MarshalFailed | WriteFailed string

definition WriteJSON :: "wire_lib \<Rightarrow> string option \<Rightarrow> message \<Rightarrow> write_error + ws_frame" where
  "WriteJSON lib write_error msg =
     (case Message_Marshal lib msg of
        None \<Rightarrow> Inl MarshalFailed
      | Some b \<Rightarrow>
          (case write_error of Some e \<Rightarrow> Inl (WriteFailed e) | None \<Rightarrow> Inr (MessageText, b)))"

datatype read_error = ReadFailed string | NotText ws_type | Malformed

definition ReadJSON :: "wire_lib \<Rightarrow> string + ws_frame \<Rightarrow> read_error + message" where
  "ReadJSON lib r =
     (case r of
        Inl e \<Rightarrow> Inl (ReadFailed e)
      | Inr (typ, b) \<Rightarrow>
          if typ \<noteq> MessageText then Inl (NotText typ)
          else (case Message_Unmarshal lib b of
                  None \<Rightarrow> Inl Malformed
                | Some msg \<Rightarrow> Inr msg))"

record smux_config =
  KeepAliveInterval :: duration
  KeepAliveTimeout :: duration
  MaxFrameSize :: int

definition SmuxConfig :: "smux_config \<Rightarrow> duration \<Rightarrow> smux_config" where
  "SmuxConfig DefaultConfig keepalive =
     (let cfg = (if 0 < keepalive
                 then DefaultConfig\<lparr>KeepAliveInterval := keepalive, KeepAliveTimeout := 3 * keepalive\<rparr>
                 else DefaultConfig)
      in cfg\<lparr>MaxFrameSize := 32768\<rparr>)"

text \<open>The contract of the transport: a frame within the limit arrives as it was sent, a longer one
  fails the read.\<close>

definition transport_ok :: "transport \<Rightarrow> bool" where
  "transport_ok recv \<longleftrightarrow>
     (\<forall>limit f. (length (snd f) \<le> limit \<longrightarrow> recv limit f = Inr f) \<and>
        (limit < length (snd f) \<longrightarrow> (\<exists>e. recv limit f = Inl e)))"

definition sample_transport :: transport where
  "sample_transport limit f = (if length (snd f) \<le> limit then Inr f else Inl ''read limited'')"

lemma sample_transport_ok: "transport_ok sample_transport"
  by (simp add: transport_ok_def sample_transport_def)

definition sample_wire_lib :: wire_lib where
  "sample_wire_lib = \<lparr>time_marshal = (\<lambda>t. if int64_range t then Some (itoa t) else None),
     time_unmarshal = atoi, scale = rational_scale\<rparr>"

section \<open>Delivery\<close>

text \<open>What one end writes, read at the other end of a connection with the limit of \<open>Prepare\<close>.\<close>

definition deliver :: "wire_lib \<Rightarrow> transport \<Rightarrow> message \<Rightarrow> read_error + message" where
  "deliver lib recv m =
     (case WriteJSON lib None m of
        Inl e \<Rightarrow> Inl (ReadFailed ''nothing was written'')
      | Inr f \<Rightarrow> ReadJSON lib (recv ReadLimit f))"

definition wire_size :: "wire_lib \<Rightarrow> message \<Rightarrow> nat" where
  "wire_size lib m = (case Message_Marshal lib m of None \<Rightarrow> 0 | Some b \<Rightarrow> length b)"

definition writable :: "wire_lib \<Rightarrow> message \<Rightarrow> bool" where
  "writable lib m \<longleftrightarrow> message_text m \<and> Message_Marshal lib m \<noteq> None"

lemma deliver_small:
  assumes "transport_ok recv" "float_exact (scale lib)" "time_text_exact lib" "writable lib m"
    and "wire_size lib m \<le> ReadLimit"
  shows "deliver lib recv m = Inr (canonical m)"
proof -
  obtain b where b: "Message_Marshal lib m = Some b" using assms(4) by (auto simp: writable_def)
  then have "Message_Unmarshal lib b = Some (canonical m)"
    using assms by (auto simp: writable_def intro: Message_roundtrip)
  moreover have "recv ReadLimit (MessageText, b) = Inr (MessageText, b)"
    using assms(1,5) b by (simp add: transport_ok_def wire_size_def)
  ultimately show ?thesis by (simp add: deliver_def WriteJSON_def ReadJSON_def b)
qed

lemma deliver_large:
  assumes "transport_ok recv" "writable lib m" "ReadLimit < wire_size lib m"
  shows "\<exists>e. deliver lib recv m = Inl (ReadFailed e)"
proof -
  obtain b where b: "Message_Marshal lib m = Some b" using assms(2) by (auto simp: writable_def)
  then obtain e where "recv ReadLimit (MessageText, b) = Inl e"
    using assms(1,3) unfolding transport_ok_def wire_size_def by (metis option.simps(5) snd_conv)
  then show ?thesis by (simp add: deliver_def WriteJSON_def ReadJSON_def b)
qed

section \<open>How long a message is\<close>

lemma json_escape_length: "length s \<le> length (json_escape s)"
proof (induction s rule: json_escape.induct)
  case (1 s)
  show ?case
  proof (cases s)
    case (Cons c cs)
    show ?thesis
    proof (cases "utf8_rune s")
      case None
      then show ?thesis using 1(1) [OF Cons None] Cons by (subst json_escape.simps) simp
    next
      case (Some ur)
      obtain u r where ur: "ur = (u, r)" by (cases ur)
      have "length u \<le> length (escape_rune u)"
        by (auto simp: escape_rune_def escape_ascii_def split: list.split)
      moreover have "length r \<le> length (json_escape r)" using 1(2) [OF Cons Some, of u r] ur by simp
      moreover have "json_escape s = escape_rune u @ json_escape r"
        using Some ur Cons by (subst json_escape.simps) simp
      moreover have "length s = length u + length r" using utf8_rune_split [of s u r] Some ur by simp
      ultimately show ?thesis by simp
    qed
  qed simp
qed

text \<open>Plain characters stand for themselves.\<close>

definition plain_char :: "char \<Rightarrow> bool" where
  "plain_char c \<longleftrightarrow> byte_of c < 0x80 \<and> \<not> html_unsafe c \<and> c \<noteq> backslash \<and> c \<noteq> quote_char"

lemma json_escape_plain: "list_all plain_char s \<Longrightarrow> json_escape s = s"
proof (induction s)
  case (Cons c s)
  then have c: "byte_of c < 0x80" "\<not> html_unsafe c" "c \<noteq> backslash" "c \<noteq> quote_char"
    by (simp_all add: plain_char_def)
  have "escape_rune [c] = [c]" using escape_ascii_safe [OF c(2-4)] by (simp add: escape_rune_def)
  moreover have "utf8_rune (c # s) = Some ([c], s)" using c(1) by (simp add: utf8_rune.simps)
  ultimately show ?case using Cons by (subst json_escape.simps) simp
qed (simp add: json_escape.simps)

lemma json_string_length: "length s + 2 \<le> length (json_string s)"
  using json_escape_length [of s] by (simp add: json_string_def)

lemma member_tokens_length:
  "(\<Sum>(k, v) \<leftarrow> ms. length k + 3 + length (tokens_text (json_tokens v))) \<le> length (tokens_text (member_tokens ms))"
proof (induction ms)
  case (Cons p ms)
  then show ?case using json_string_length [of "fst p"] by (cases p) auto
qed simp

definition ports_size :: "node_config \<Rightarrow> nat" where
  "ports_size c = (\<Sum>(k, v) \<leftarrow> Ports c. length k + length v + 5)"

lemma ports_size_sort: "ports_size (sort_ports c) = ports_size c"
proof -
  have "mset (map (\<lambda>(k, v). length k + length v + 5) (sort_key fst (Ports c))) =
      mset (map (\<lambda>(k, v). length k + length v + 5) (Ports c))" by simp
  then show ?thesis by (simp add: ports_size_def sort_ports_def flip: sum_mset_sum_list)
qed

lemma member_length:
  "(k, v) \<in> set ms \<Longrightarrow> length (json_text v) \<le> length (tokens_text (member_tokens ms))"
  by (induction ms) (auto simp: json_text_def)

lemma NodeConfig_length: "ports_size c \<le> length (json_text (NodeConfig_json c))"
proof -
  let ?ps = "map (\<lambda>(k, v). (k, JStr v)) (sort_key fst (Ports c))"
  have step: "(\<Sum>(k, v) \<leftarrow> xs. length k + length v + 5) \<le>
      (\<Sum>(k, v) \<leftarrow> map (\<lambda>(k, v). (k, JStr v)) xs. length k + 3 + length (tokens_text (json_tokens v)))"
    for xs :: "(string \<times> string) list"
  proof (induction xs)
    case (Cons x xs)
    then show ?case using json_string_length [of "snd x"] by (cases x) simp
  qed simp
  have "ports_size (sort_ports c) = (\<Sum>(k, v) \<leftarrow> sort_key fst (Ports c). length k + length v + 5)"
    by (simp add: ports_size_def sort_ports_def)
  also have "\<dots> \<le> length (tokens_text (member_tokens ?ps))"
    by (rule order_trans [OF step member_tokens_length])
  finally have "ports_size (sort_ports c) \<le> length (tokens_text (member_tokens ?ps))" .
  also have "length (tokens_text (member_tokens ?ps)) \<le> length (json_text (JObj ?ps))" by (simp add: json_text_def)
  also have "\<dots> \<le> length (json_text (NodeConfig_json c))"
  proof -
    have "length (json_text (JObj ms)) = length (tokens_text (member_tokens ms)) + 2" for ms
      by (simp add: json_text_def)
    then show ?thesis unfolding NodeConfig_json_def
      using member_length [of "''ports''" "JObj ?ps"] by (simp add: le_SucI)
  qed
  finally show ?thesis by (simp add: ports_size_sort)
qed

lemma wire_size_config:
  assumes "m_config m = Some c" "Message_Marshal lib m \<noteq> None"
  shows "ports_size c \<le> wire_size lib m"
proof -
  obtain x where x: "Message_Marshal lib m = Some (json_text (JObj (Message_members m x)))"
    using assms(2) by (auto simp: Message_Marshal_def split: option.splits)
  have "(''config'', NodeConfig_json c) \<in> set (Message_members m x)"
    using assms(1) by (simp add: Message_members_def ptr_member_def)
  then have "length (json_text (NodeConfig_json c)) \<le> length (tokens_text (member_tokens (Message_members m x)))"
    by (rule member_length)
  with NodeConfig_length [of c] show ?thesis by (simp add: wire_size_def x json_text_def)
qed

section \<open>Which documents are messages\<close>

text \<open>The type of a member, by its name: the reference for the decoder. A member of an unknown name
  has no type to violate.\<close>

definition string_typed :: "json \<Rightarrow> bool" where
  "string_typed v = (case v of JStr s \<Rightarrow> True | JNull \<Rightarrow> True | _ \<Rightarrow> False)"

definition int_typed :: "json \<Rightarrow> bool" where
  "int_typed v = (case v of JNum l \<Rightarrow> atoi l \<noteq> None | JNull \<Rightarrow> True | _ \<Rightarrow> False)"

definition duration_typed :: "wire_lib \<Rightarrow> json \<Rightarrow> bool" where
  "duration_typed lib v =
     (case v of JStr s \<Rightarrow> ParseDuration (scale lib) s \<noteq> None | JNum l \<Rightarrow> atoi l \<noteq> None | _ \<Rightarrow> False)"

definition object_typed :: "(string \<Rightarrow> json \<Rightarrow> bool) \<Rightarrow> json \<Rightarrow> bool" where
  "object_typed P v = (case v of JNull \<Rightarrow> True | JObj ms \<Rightarrow> list_all (\<lambda>(k, w). P k w) ms | _ \<Rightarrow> False)"

definition time_typed :: "wire_lib \<Rightarrow> json \<Rightarrow> bool" where
  "time_typed lib v = (case v of JStr s \<Rightarrow> time_unmarshal lib s \<noteq> None | JNull \<Rightarrow> True | _ \<Rightarrow> False)"

definition config_member :: "wire_lib \<Rightarrow> string \<Rightarrow> json \<Rightarrow> bool" where
  "config_member lib key v =
     (let k = fold_name key
      in if k = ''PORTS'' then object_typed (\<lambda>_. string_typed) v
         else if k \<in> set [''HEARTBEAT'', ''DIAL_TIMEOUT''] then duration_typed lib v
         else if k \<in> set [''CHANNELS'', ''MAX_STREAMS_PER_CONN''] then int_typed v
         else True)"

definition stats_member :: "string \<Rightarrow> json \<Rightarrow> bool" where
  "stats_member key v =
     (if fold_name key \<in> set [''CHANNELS'', ''STREAMS'', ''BYTES_IN'', ''BYTES_OUT'', ''LOCAL_DIAL_ERRORS'']
      then int_typed v else True)"

definition message_member :: "wire_lib \<Rightarrow> string \<Rightarrow> json \<Rightarrow> bool" where
  "message_member lib key v =
     (let k = fold_name key
      in if k \<in> set [''TYPE'', ''ROLE'', ''NODE'', ''KEY'', ''SESSION'', ''NONCE'', ''REASON'', ''CODE'', ''MSG'', ''REF'']
         then string_typed v
         else if k \<in> set [''CHANNELS'', ''CHANNEL_ID'', ''TS''] then int_typed v
         else if k = ''HEARTBEAT'' then duration_typed lib v
         else if k = ''CONFIG'' then object_typed (config_member lib) v
         else if k = ''STATS'' then object_typed stats_member v
         else if k = ''DEADLINE'' then time_typed lib v
         else True)"

lemma field_typed [simp]:
  "(string_field v s \<noteq> None) = string_typed v" "(int_field v n \<noteq> None) = int_typed v"
  "(Duration_UnmarshalJSON lib v \<noteq> None) = duration_typed lib v" "(deadline_field lib v \<noteq> None) = time_typed lib v"
  by (simp_all add: string_field_def string_typed_def int_field_def int_typed_def Duration_UnmarshalJSON_def
      duration_typed_def deadline_field_def time_typed_def ParseDuration_def split: json.split)

lemma decode_members_typed:
  assumes "\<And>k v x. put k v x \<noteq> None \<longleftrightarrow> P k v"
  shows "decode_members put ms x \<noteq> None \<longleftrightarrow> list_all (\<lambda>(k, v). P k v) ms"
proof (induction ms arbitrary: x)
  case (Cons p ms)
  obtain k v where "p = (k, v)" by (cases p)
  with Cons assms [of k v x] show ?case by (cases "put k v x") auto
qed simp

lemma object_fields_typed:
  assumes "\<And>k v x. put k v x \<noteq> None \<longleftrightarrow> P k v"
  shows "(struct_field put v x \<noteq> None) = object_typed P v" "(ptr_field put zero v y \<noteq> None) = object_typed P v"
  using decode_members_typed [of put P, OF assms]
  by (simp_all add: struct_field_def ptr_field_def object_typed_def split: json.split)

lemma set_port_typed: "set_port k v x \<noteq> None \<longleftrightarrow> string_typed v"
  using field_typed(1) [of v] by (simp add: set_port_def del: field_typed)

lemma ports_field_typed: "(ports_field v ps \<noteq> None) = object_typed (\<lambda>_. string_typed) v"
  using decode_members_typed [of set_port "\<lambda>_. string_typed", OF set_port_typed]
  by (simp add: ports_field_def object_typed_def split: json.split)

lemma config_typed: "set_NodeConfig lib k v c \<noteq> None \<longleftrightarrow> config_member lib k v"
  using ports_field_typed [of v "Ports c"] field_typed
  by (simp add: set_NodeConfig_def config_member_def Let_def)

lemma stats_typed: "set_Stats k v s \<noteq> None \<longleftrightarrow> stats_member k v"
  using field_typed(2) by (simp add: set_Stats_def stats_member_def Let_def)

lemma message_typed: "set_Message lib k v m \<noteq> None \<longleftrightarrow> message_member lib k v"
  using field_typed object_fields_typed(2) [of "set_NodeConfig lib" "config_member lib", OF config_typed]
    object_fields_typed(2) [of set_Stats stats_member, OF stats_typed]
  by (simp add: set_Message_def message_member_def Let_def)

section \<open>Properties\<close>

text \<open>C22: A frame is taken for a control message exactly when it is a text frame that holds a JSON
  document which is null or an object all of whose members have the type of their field, down to
  the nested configuration, its durations and its ports; one member of the wrong type refuses the
  whole message, and a member of an unknown name never does. A deadline has the type of its field if
  the time parser takes the text that the string spells.\<close>

theorem message_accepted_iff_typed:
  "(\<exists>m. ReadJSON lib r = Inr m) \<longleftrightarrow>
     (\<exists>b v. r = Inr (MessageText, b) \<and> json_document b = Some v \<and> object_typed (message_member lib) v)"
proof -
  have "(\<exists>m. ReadJSON lib r = Inr m) \<longleftrightarrow>
      (\<exists>b v. r = Inr (MessageText, b) \<and> json_document b = Some v \<and> struct_field (set_Message lib) v zero_message \<noteq> None)"
    by (auto simp: ReadJSON_def Message_Unmarshal_def split: sum.splits option.splits)
  then show ?thesis
    using object_fields_typed(1) [of "set_Message lib" "message_member lib", OF message_typed] by simp
qed

text \<open>C4: A control message that one end writes is read at the other end as the same message, the ports
  of its configuration in the order of their keys; a message longer than the read limit of the
  connection is never read.\<close>

theorem control_message_delivered:
  assumes "transport_ok recv" and "float_exact (scale lib)" and "time_text_exact lib" and "writable lib m"
  shows "(wire_size lib m \<le> ReadLimit \<longrightarrow>
      (\<exists>m'. deliver lib recv m = Inr m' \<and> m'\<lparr>m_config := None\<rparr> = m\<lparr>m_config := None\<rparr> \<and>
        rel_option same_node_config (m_config m') (m_config m))) \<and>
    (ReadLimit < wire_size lib m \<longrightarrow> (\<exists>e. deliver lib recv m = Inl (ReadFailed e)))"
proof -
  have "rel_option same_node_config (m_config (canonical m)) (m_config m)"
    using assms(4) by (cases "m_config m")
      (auto simp: canonical_def writable_def message_text_def node_config_text_def same_node_config_sort)
  then show ?thesis
    using deliver_small [OF assms] deliver_large [OF assms(1,4)] by (auto simp: canonical_def)
qed

lemma itoa_valid: "valid_utf8 (itoa n)"
  using digits_of_valid [of _ "[]"] by (auto simp: itoa_def valid_utf8_ascii)

lemma sample_wire_lib_ok: "float_exact (scale sample_wire_lib)" "time_text_exact sample_wire_lib"
  by (simp_all add: sample_wire_lib_def rational_scale_exact time_text_exact_def atoi_itoa itoa_valid)

definition sample_drain :: message where
  "sample_drain = zero_message\<lparr>m_type := TypeDrain, m_deadline := Some 5\<rparr>"

lemma sample_drain_writable: "writable sample_wire_lib sample_drain"
  by (simp add: writable_def sample_drain_def zero_message_def message_text_def ascii_valid int64_range_def
      Message_Marshal_def sample_wire_lib_def)

lemma sample_drain_size: "wire_size sample_wire_lib sample_drain = 31"
proof -
  have "itoa 5 = ''5''" by (simp add: itoa_def digits_of.simps)
  then show ?thesis
    by (simp add: wire_size_def Message_Marshal_def sample_wire_lib_def sample_drain_def zero_message_def
        int64_range_def Message_members_def str_member_def int_member_def omit_if_def ptr_member_def
        json_text_def json_string_def json_escape_plain plain_char_def html_unsafe_def)
qed

theorem control_message_delivered_witness:
  "\<exists>m'. deliver sample_wire_lib sample_transport sample_drain = Inr m' \<and>
     m'\<lparr>m_config := None\<rparr> = sample_drain\<lparr>m_config := None\<rparr>"
  using control_message_delivered [OF sample_transport_ok sample_wire_lib_ok sample_drain_writable]
  by (auto simp: sample_drain_size ReadLimit_def)

end
