(* ===== verification/Wire_Sessions.thy ===== *)
theory Wire_Sessions
  imports Config_Agreement Ws_Wire
begin

text \<open>
  Server and client across the wire: the handshakes and the pushes of the two ends with every message
  written by \<open>WriteJSON\<close> at one end and read by \<open>ReadJSON\<close> at the other. \<open>wire_read\<close> is the result of
  such a read, its error as the text that the callers pass on.
\<close>

definition ws_type_text :: "ws_type \<Rightarrow> string" where
  "ws_type_text t = (case t of MessageText \<Rightarrow> ''MessageText'' | MessageBinary \<Rightarrow> ''MessageBinary'')"

definition read_error_text :: "read_error \<Rightarrow> string" where
  "read_error_text e =
     (case e of
        ReadFailed t \<Rightarrow> t
      | NotText t \<Rightarrow> ''expected a text control frame, got '' @ ws_type_text t
      | Malformed \<Rightarrow> ''malformed control message'')"

definition wire_read :: "wire_lib \<Rightarrow> transport \<Rightarrow> message \<Rightarrow> string + message" where
  "wire_read lib recv m = map_sum read_error_text id (deliver lib recv m)"

abbreviation reply_env :: "string + message \<Rightarrow> handshake_env" where
  "reply_env r \<equiv> \<lparr>he_dial = None, he_write = None, he_reply = r\<rparr>"

lemma wire_read_plain:
  assumes "transport_ok recv" "float_exact (scale lib)" "time_text_exact lib" "writable lib m"
    and "wire_size lib m \<le> ReadLimit" "m_config m = None"
  shows "wire_read lib recv m = Inr m"
proof -
  have "canonical m = m" using assms(6) by (cases m) (simp add: canonical_def)
  then show ?thesis using deliver_small [OF assms(1-5)] by (simp add: wire_read_def)
qed

lemma remoteFor_sorted:
  assumes "distinct (keys (Ports cfg))"
  shows "remoteFor p (c\<lparr>cl_cfg := Some (sort_ports cfg)\<rparr>) = remoteFor p (c\<lparr>cl_cfg := Some cfg\<rparr>)"
  using same_node_config_sort [OF assms] by (simp add: remoteFor_def map_index_def same_node_config_def)

text \<open>Two clients that dial the same and differ at most in the order of the allow-list.\<close>

definition same_client :: "client \<Rightarrow> client \<Rightarrow> bool" where
  "same_client a b \<longleftrightarrow>
     a\<lparr>cl_cfg := None\<rparr> = b\<lparr>cl_cfg := None\<rparr> \<and> rel_option same_node_config (cl_cfg a) (cl_cfg b) \<and>
     (\<forall>p. remoteFor p a = remoteFor p b)"

lemma same_client_refl: "same_client c c"
  by (cases "cl_cfg c") (simp_all add: same_client_def same_node_config_def)

lemma same_client_remote: "same_client a b \<Longrightarrow> remoteFor p a = remoteFor p b"
  by (simp add: same_client_def)

lemma same_client_cfg:
  assumes "same_node_config x y" "a = c\<lparr>cl_cfg := Some x\<rparr>" "b = c\<lparr>cl_cfg := Some y\<rparr>"
  shows "same_client a b"
  using assms by (cases c) (simp add: same_client_def remoteFor_def map_index_def same_node_config_def)

lemma handshake_canonical:
  assumes "message_text w"
  shows "fst (session_handshake (reply_env (Inr (canonical w))) conn c) =
      fst (session_handshake (reply_env (Inr w)) conn c) \<and>
    same_client (snd (session_handshake (reply_env (Inr (canonical w))) conn c))
      (snd (session_handshake (reply_env (Inr w)) conn c))"
proof (cases "m_type w = TypeWelcome \<and> m_config w \<noteq> None")
  case True
  then obtain cfg where cfg: "m_config w = Some cfg" by auto
  then have "same_node_config (sort_ports cfg) cfg"
    using assms by (auto simp: message_text_def node_config_text_def same_node_config_sort)
  moreover have "snd (session_handshake (reply_env (Inr w)) conn c) =
      (c\<lparr>cl_session := m_session w, cl_ctrl := Some conn, cl_draining := False\<rparr>)\<lparr>cl_cfg := Some cfg\<rparr>"
    "snd (session_handshake (reply_env (Inr (canonical w))) conn c) =
      (c\<lparr>cl_session := m_session w, cl_ctrl := Some conn, cl_draining := False\<rparr>)\<lparr>cl_cfg := Some (sort_ports cfg)\<rparr>"
    using True cfg by (simp_all add: session_handshake_def handshake_reply_def canonical_def setCtrl_def
        setSession_def setConfig_def)
  moreover have "fst (session_handshake (reply_env (Inr (canonical w))) conn c) =
      fst (session_handshake (reply_env (Inr w)) conn c)"
    using True cfg by (simp add: session_handshake_def handshake_reply_def canonical_def)
  ultimately show ?thesis using same_client_cfg by metis
next
  case False
  then have "session_handshake (reply_env (Inr (canonical w))) conn c =
      session_handshake (reply_env (Inr w)) conn c"
    by (auto simp: session_handshake_def handshake_reply_def canonical_def split: option.split)
  then show ?thesis by (simp add: same_client_refl)
qed

section \<open>Properties\<close>

text \<open>C7: The wire changes nothing of what the two ends decide. The server answers a hello that it reads
  from the wire as it answers the hello itself; the client that reads the welcome ends the
  handshake with the same result, the same session and the same target for every port.\<close>

theorem handshake_on_the_wire:
  assumes "transport_ok recv" and "float_exact (scale lib)" and "time_text_exact lib"
    and "hello \<in> {control_hello c, data_hello c}" and "writable lib hello" and "wire_size lib hello \<le> ReadLimit"
    and "writable lib welcome" and "wire_size lib welcome \<le> ReadLimit"
  shows "handleWS cfg (wire_read lib recv hello) = handleWS cfg (Inr hello) \<and>
    fst (session_handshake (reply_env (wire_read lib recv welcome)) conn c) =
      fst (session_handshake (reply_env (Inr welcome)) conn c) \<and>
    same_client (snd (session_handshake (reply_env (wire_read lib recv welcome)) conn c))
      (snd (session_handshake (reply_env (Inr welcome)) conn c))"
proof -
  have "m_config hello = None"
    using assms(4) by (auto simp: control_hello_def data_hello_def zero_message_def)
  then have "wire_read lib recv hello = Inr hello"
    by (rule wire_read_plain [OF assms(1-3,5,6)])
  moreover have "wire_read lib recv welcome = Inr (canonical welcome)"
    using deliver_small [OF assms(1-3,7,8)] by (simp add: wire_read_def)
  moreover have "message_text welcome" using assms(7) by (simp add: writable_def)
  ultimately show ?thesis using handshake_canonical by (simp add: writable_def)
qed

definition small_config :: node_config where
  "small_config = \<lparr>Ports = [(''80'', ''h:1'')], Channels = 1, Heartbeat = 1, DialTimeout = 1, MaxStreamsPerConn = 1\<rparr>"

definition small_welcome :: message where
  "small_welcome = zero_message\<lparr>m_type := TypeWelcome, m_session := ''s'', m_config := Some small_config\<rparr>"

lemma tiny_texts: "itoa 1 = ''1''" "Duration_String 1 = ''1ns''"
  by (simp_all add: itoa_def digits_of.simps Duration_String_def fmt_small_def)

lemmas size_simps = wire_size_def Message_Marshal_def zero_message_def Message_members_def str_member_def
  int_member_def omit_if_def ptr_member_def json_text_def json_string_def json_escape_plain plain_char_def
  html_unsafe_def NodeConfig_json_def Duration_MarshalJSON_def int_json_def tiny_texts

lemma small_welcome_ok: "writable lib small_welcome" "wire_size lib small_welcome \<le> ReadLimit"
  by (simp_all add: writable_def message_text_def node_config_text_def small_welcome_def small_config_def
      ascii_valid int64_range_def size_simps ReadLimit_def)

lemma sample_hello_ok: "writable lib (control_hello sample_client)" "wire_size lib (control_hello sample_client) \<le> ReadLimit"
  by (simp_all add: writable_def message_text_def control_hello_def sample_client_def new_client_def
      ascii_valid int64_range_def size_simps ReadLimit_def)

theorem handshake_on_the_wire_witness:
  "remoteFor 80 (snd (session_handshake
      (reply_env (wire_read sample_wire_lib sample_transport small_welcome)) 7 sample_client)) = ''h:1''"
proof -
  have "itoa 80 = ''80''" by (simp add: itoa_def digits_of.simps)
  then have "remoteFor 80 (snd (session_handshake (reply_env (Inr small_welcome)) 7 sample_client)) = ''h:1''"
    by (simp add: session_handshake_def handshake_reply_def small_welcome_def small_config_def setCtrl_def
        setSession_def setConfig_def remoteFor_def map_index_def)
  then show ?thesis
    using handshake_on_the_wire [OF sample_transport_ok sample_wire_lib_ok _ sample_hello_ok small_welcome_ok,
        of sample_client sample_config 7] same_client_remote by fastforce
qed

text \<open>C35: A configuration that is larger than the read limit never arrives. The server registers the
  session, starts its listeners and takes the node for online, but every client fails to read the
  welcome and keeps neither configuration nor session; a push of such a configuration ends the
  control loop of a client that is up.\<close>

theorem oversized_config_never_arrives:
  fixes sv spec sid now r lib recv
  defines "sv' \<equiv> snd (serveControl_start spec sid None now sv)"
  defines "nc \<equiv> ns_cfg (sv_sess sv' r)"
  defines "push \<equiv> zero_message\<lparr>m_type := TypeReloadConfig, m_config := Some nc\<rparr>"
  assumes "server_ok_but X sv" and "fst (serveControl_start spec sid None now sv) = Inr r"
    and "transport_ok recv" and "ReadLimit < ports_size nc"
    and "writable lib (welcome_message (sv_sess sv' r))" and "writable lib push"
  shows "current (ns_spec_name spec) sv' = Some r \<and>
    (r, welcome_message (sv_sess sv' r)) \<in> set (sv_sent sv') \<and>
    (\<exists>e. session_handshake (reply_env (wire_read lib recv (welcome_message (sv_sess sv' r)))) conn c = (Some e, c)) \<and>
    (\<exists>e. controlLoop pick [(False, wire_read lib recv push)] cs = (Some (Some e), cs, []))"
proof -
  obtain nc0 where nc0: "Config_NodeConfig (sv_cfg sv) (ns_spec_name spec) = Some nc0"
    using assms(5) by (auto simp: serveControl_start_def control_prepare_def reject_def split: option.splits)
  have free: "current (ns_spec_name spec) sv = None" and r: "r = sv_next sv"
    using assms(5) nc0 by (auto simp: serveControl_start_def control_prepare_def control_register_cases
        control_welcome_def split: if_splits)
  note up = serveControl_start_up [OF assms(4) nc0 free, of sid now, folded sv'_def]
  let ?w = "welcome_message (sv_sess sv' r)"
  have config: "m_config ?w = Some nc" "m_config push = Some nc"
    by (simp_all add: welcome_message_def nc_def push_def zero_message_def)
  have size: "ReadLimit < wire_size lib ?w" "ReadLimit < wire_size lib push"
    using wire_size_config [OF config(1), of lib] wire_size_config [OF config(2), of lib] assms(7-9)
    by (simp_all add: writable_def)
  obtain e f where e: "wire_read lib recv ?w = Inl e" "wire_read lib recv push = Inl f"
    using deliver_large [OF assms(6,8) size(1)] deliver_large [OF assms(6,9) size(2)]
    by (auto simp: wire_read_def)
  have "(r, ?w) \<in> set (sv_sent sv')" using up by (simp add: welcome_message_def r)
  moreover have "session_handshake (reply_env (wire_read lib recv ?w)) conn c = (Some e, c)"
    by (simp add: e session_handshake_def handshake_reply_def)
  ultimately show ?thesis using up e(2) by (simp add: r)
qed

text \<open>The witness has one port, whose remote is a host name of a mebibyte.\<close>

definition long_remote :: string where
  "long_remote = replicate (2 ^ 20) (CHR ''h'') @ '':1''"

definition big_config :: config where
  "big_config = sample_config\<lparr>
     cfg_nodes := [(''a'', \<lparr>ns_spec_name = ''a'', ns_spec_key = ''k'', ns_spec_channels = 2\<rparr>)],
     cfg_node_order := [''a''],
     cfg_ports := [(80, \<lparr>ps_port = 80, ps_node = ''a'', ps_remote = long_remote\<rparr>)],
     cfg_port_order := [80]\<rparr>"

lemma long_remote_valid: "validateHostPort long_remote = None"
proof -
  let ?h = "replicate (2 ^ 20) (CHR ''h'')"
  have "SplitHostPort (?h @ colon # ''1'') = Inr (?h, ''1'')"
    by (rule Split_plain) (simp_all add: plain_def)
  moreover have "?h \<noteq> []" "?h @ colon # ''1'' \<noteq> []" by simp_all
  moreover have "atoi ''1'' = Some 1" by code_simp
  ultimately show ?thesis by (simp add: validateHostPort_def long_remote_def)
qed

lemma big_config_wf: "config_wf big_config"
proof -
  have "map_of (reserved_ports '':81'' '''') 80 = None" by code_simp
  then show ?thesis
    by (simp add: config_wf_defs spec_ok_def port_ok_def big_config_def sample_config_def long_remote_valid)
qed

definition big_node_config :: node_config where
  "big_node_config = \<lparr>Ports = [(''80'', long_remote)], Channels = 2, Heartbeat = 15000000000,
     DialTimeout = 10000000000, MaxStreamsPerConn = 256\<rparr>"

lemma big_NodeConfig: "Config_NodeConfig big_config ''a'' = Some big_node_config"
proof -
  have "itoa 80 = ''80''" by (simp add: itoa_def digits_of.simps)
  then show ?thesis
    by (simp add: Config_NodeConfig_def big_config_def sample_config_def allow_list_def owned_by_def big_node_config_def)
qed

lemma big_node_config_text: "node_config_text big_node_config"
proof -
  have "valid_utf8 long_remote" unfolding long_remote_def
    by (rule ascii_valid) (simp add: list_all_iff)
  then show ?thesis by (simp add: node_config_text_def big_node_config_def int64_range_def ascii_valid)
qed

theorem oversized_config_never_arrives_witness:
  "current ''a'' (snd (serveControl_start \<lparr>ns_spec_name = ''a'', ns_spec_key = ''k'', ns_spec_channels = 2\<rparr> ''s'' None 5
      (newServer big_config))) = Some 0 \<and>
   (\<exists>e. session_handshake (reply_env (wire_read sample_wire_lib sample_transport
      (zero_message\<lparr>m_type := TypeWelcome, m_session := ''s'', m_heartbeat := 15000000000, m_channels := 2,
         m_config := Some big_node_config\<rparr>))) 7 sample_client = (Some e, sample_client))"
proof -
  let ?spec = "\<lparr>ns_spec_name = ''a'', ns_spec_key = ''k'', ns_spec_channels = 2\<rparr> :: NodeSpec"
  let ?sv = "newServer big_config"
  have cfg: "Config_NodeConfig (sv_cfg ?sv) (ns_spec_name ?spec) = Some big_node_config"
    by (simp add: newServer_def big_NodeConfig)
  have free: "current (ns_spec_name ?spec) ?sv = None" by (simp add: newServer_def newRegistry_def Get_def)
  have n0: "sv_next ?sv = 0" by (simp add: newServer_def)
  note up = serveControl_start_up [OF server_ok_new [OF big_config_wf] cfg free, of "''s''" 5]
  have s: "sv_sess (snd (serveControl_start ?spec ''s'' None 5 ?sv)) 0 =
      newNodeSession ''a'' ''s'' big_node_config (st_queue_timeout (cfg_settings (sv_cfg ?sv))) 5"
    using up n0 by simp
  have size: "ReadLimit < ports_size big_node_config"
    by (simp add: ReadLimit_def ports_size_def big_node_config_def long_remote_def)
  have w: "writable sample_wire_lib (welcome_message (newNodeSession ''a'' ''s'' big_node_config qt 5))"
    "writable sample_wire_lib (zero_message\<lparr>m_type := TypeReloadConfig, m_config := Some big_node_config\<rparr>)" for qt
    using big_node_config_text
    by (simp_all add: writable_def message_text_def welcome_message_def zero_message_def ascii_valid
        int64_range_def Message_Marshal_def big_node_config_def)
  show ?thesis
    using oversized_config_never_arrives [OF server_ok_new [OF big_config_wf], of ?spec "''s''" 5 0 sample_transport
        sample_wire_lib 7 sample_client] up n0 s size w sample_transport_ok
    by (simp add: welcome_message_def big_node_config_def)
qed

end
