(* ===== verification/Text_Runes.thy ===== *)
theory Text_Runes
  imports Json_Text
begin

text \<open>
  Strings as sequences of runes, for the functions of the Go package strings that the commands use:
  \<open>TrimSpace\<close> and \<open>ToUpper\<close>. A byte that starts no rune stands for itself.
\<close>

function runes :: "string \<Rightarrow> string list" where
  "runes s =
     (case s of
        [] \<Rightarrow> []
      | c # cs \<Rightarrow> (case utf8_rune s of None \<Rightarrow> [c] # runes cs | Some (u, r) \<Rightarrow> u # runes r))"
  by pat_completeness auto
termination by (relation "measure length") (auto dest: utf8_rune_shorter)

declare runes.simps [simp del]

text \<open>\<open>unicode.IsSpace\<close>: the ASCII blanks, U+0085, U+00A0, U+1680, U+2000 to U+200A, U+2028, U+2029,
  U+202F, U+205F and U+3000.\<close>

definition space_rune :: "string \<Rightarrow> bool" where
  "space_rune u =
     (case u of
        [a] \<Rightarrow> in_range 0x09 0x0D a \<or> a = CHR 0x20
      | [a, b] \<Rightarrow> a = CHR 0xC2 \<and> (b = CHR 0x85 \<or> b = CHR 0xA0)
      | [a, b, c] \<Rightarrow>
          u = [CHR 0xE1, CHR 0x9A, CHR 0x80] \<or> u = [CHR 0xE2, CHR 0x81, CHR 0x9F] \<or>
          u = [CHR 0xE3, CHR 0x80, CHR 0x80] \<or>
          a = CHR 0xE2 \<and> b = CHR 0x80 \<and>
            (in_range 0x80 0x8A c \<or> c = CHR 0xA8 \<or> c = CHR 0xA9 \<or> c = CHR 0xAF)
      | _ \<Rightarrow> False)"

definition TrimSpace :: "string \<Rightarrow> string" where
  "TrimSpace s = concat (rev (dropWhile space_rune (rev (dropWhile space_rune (runes s)))))"

text \<open>\<open>ToUpper\<close>, as far as it yields ASCII letters: the dotless i and the long s have ASCII capitals.\<close>

definition upper_rune :: "string \<Rightarrow> string" where
  "upper_rune u =
     (case u of
        [a] \<Rightarrow> if 97 \<le> byte_of a \<and> byte_of a \<le> 122 then [char_of (byte_of a - 32)] else u
      | _ \<Rightarrow> if u = [CHR 0xC4, CHR 0xB1] then ''I'' else if u = [CHR 0xC5, CHR 0xBF] then ''S'' else u)"

definition upper_ascii :: "string \<Rightarrow> string" where
  "upper_ascii s = concat (map upper_rune (runes s))"

lemma runes_concat: "concat (runes s) = s"
proof (induction s rule: runes.induct)
  case (1 s)
  show ?case
  proof (cases s)
    case (Cons c cs)
    show ?thesis
    proof (cases "utf8_rune s")
      case None
      with 1(1) [OF Cons None] Cons show ?thesis by (subst runes.simps) simp
    next
      case (Some ur)
      obtain u r where ur: "ur = (u, r)" by (cases ur)
      have "concat (runes s) = u @ concat (runes r)" using Some ur Cons by (subst runes.simps) simp
      with 1(2) [OF Cons Some, of u r] ur utf8_rune_split [of s u r] Some show ?thesis by simp
    qed
  qed (simp add: runes.simps)
qed

lemma runes_not_Nil: "[] \<notin> set (runes s)"
proof (induction s rule: runes.induct)
  case (1 s)
  show ?case
  proof (cases s)
    case (Cons c cs)
    show ?thesis
    proof (cases "utf8_rune s")
      case None
      with 1(1) [OF Cons None] Cons show ?thesis by (subst runes.simps) simp
    next
      case (Some ur)
      obtain u r where ur: "ur = (u, r)" by (cases ur)
      then have "runes s = u # runes r" using Some Cons by (subst runes.simps) simp
      with 1(2) [OF Cons Some, of u r] ur utf8_rune_split [of s u r] Some show ?thesis by auto
    qed
  qed (simp add: runes.simps)
qed

lemma set_dropWhile_subset: "set (dropWhile P xs) \<subseteq> set xs"
  by (induction xs) auto

lemma concat_all_Nil: "[] \<notin> set xs \<Longrightarrow> concat xs = [] \<longleftrightarrow> xs = []"
  by (cases xs) auto

text \<open>A string is blank exactly if all its runes are.\<close>

lemma TrimSpace_blank: "TrimSpace s = [] \<longleftrightarrow> list_all space_rune (runes s)"
proof -
  let ?d = "dropWhile space_rune (runes s)"
  have "[] \<notin> set (rev (dropWhile space_rune (rev ?d)))"
    using runes_not_Nil [of s] set_dropWhile_subset [of space_rune "rev ?d"]
      set_dropWhile_subset [of space_rune "runes s"] by auto
  from concat_all_Nil [OF this]
  have "TrimSpace s = [] \<longleftrightarrow> dropWhile space_rune (rev ?d) = []"
    unfolding TrimSpace_def by (simp only: rev_is_Nil_conv)
  also have "\<dots> \<longleftrightarrow> (\<forall>u \<in> set ?d. space_rune u)" by simp
  also have "\<dots> \<longleftrightarrow> ?d = []"
  proof
    assume "\<forall>u \<in> set ?d. space_rune u"
    with hd_dropWhile [of space_rune "runes s"] list.set_sel(1) [of ?d] show "?d = []" by blast
  next
    assume "?d = []"
    then show "\<forall>u \<in> set ?d. space_rune u" by (simp only: list.set) blast
  qed
  also have "\<dots> \<longleftrightarrow> list_all space_rune (runes s)" by (simp add: list_all_iff)
  finally show ?thesis .
qed

text \<open>Visible ASCII text is its own trimmed form.\<close>

lemma runes_ascii: "list_all (\<lambda>c. byte_of c < 0x80) s \<Longrightarrow> runes s = map (\<lambda>c. [c]) s"
proof (induction s)
  case (Cons c s)
  then show ?case by (subst runes.simps) (simp add: utf8_rune.simps)
qed (simp add: runes.simps)

lemma TrimSpace_visible:
  assumes "list_all (in_range 0x21 0x7E) s"
  shows "TrimSpace s = s"
proof -
  have "\<not> space_rune u" if "u \<in> set (map (\<lambda>c. [c]) s)" for u
    using that assms by (auto simp: space_rune_def list_all_iff in_range_def)
  then have keep: "dropWhile space_rune xs = xs" if "set xs \<subseteq> set (map (\<lambda>c. [c]) s)" for xs
    using that by (cases xs) auto
  have "runes s = map (\<lambda>c. [c]) s"
    using assms by (intro runes_ascii) (auto simp: list_all_iff in_range_def)
  then show ?thesis by (simp add: TrimSpace_def keep)
qed

end
