(* ===== verification/Command_Line.thy ===== *)
theory Command_Line
  imports Text_Runes
begin

text \<open>
  What the commands use of the Go standard library: \<open>flag.Parse\<close> on a set of string and boolean
  flags, \<open>os.Getenv\<close>, and the text of a \<open>slog.Level\<close>. A flag set is an association list from names to
  current values; the constructor of the value is the type of the flag.
\<close>

section \<open>Flags\<close>

datatype flag_value = FString string | FBool bool

type_synonym flag_set = "(string \<times> flag_value) list"

datatype flag_error =
    ErrHelp
  | BadFlagSyntax string
  | UndefinedFlag string
  | InvalidBoolean string string
  | MissingArgument string

definition ParseBool :: "string \<Rightarrow> bool option" where
  "ParseBool s =
     (if s \<in> {''1'', ''t'', ''T'', ''TRUE'', ''true'', ''True''} then Some True
      else if s \<in> {''0'', ''f'', ''F'', ''FALSE'', ''false'', ''False''} then Some False
      else None)"

abbreviation "minus_sign \<equiv> CHR ''-''"
abbreviation "equals_sign \<equiv> CHR ''=''"

text \<open>The name of a flag and the value behind the first equals sign; the sign cannot stand first.\<close>

definition split_flag :: "string \<Rightarrow> string \<times> string option" where
  "split_flag name =
     (let n = takeWhile (\<lambda>c. c \<noteq> equals_sign) name
      in if length n < length name then (n, Some (drop (length n + 1) name)) else (name, None))"

datatype flag_step = Stop "string list" | Fail flag_error | Next flag_set "string list"

definition set_flag :: "flag_set \<Rightarrow> string \<Rightarrow> string option \<Rightarrow> string list \<Rightarrow> flag_step" where
  "set_flag fs name given args =
     (case map_of fs name of
        None \<Rightarrow> Fail (if name = ''help'' \<or> name = ''h'' then ErrHelp else UndefinedFlag name)
      | Some (FBool _) \<Rightarrow>
          (case given of
             None \<Rightarrow> Next (AList.update name (FBool True) fs) args
           | Some v \<Rightarrow>
               (case ParseBool v of
                  None \<Rightarrow> Fail (InvalidBoolean v name)
                | Some b \<Rightarrow> Next (AList.update name (FBool b) fs) args))
      | Some (FString _) \<Rightarrow>
          (case given of
             Some v \<Rightarrow> Next (AList.update name (FString v) fs) args
           | None \<Rightarrow>
               (case args of
                  [] \<Rightarrow> Fail (MissingArgument name)
                | v # args' \<Rightarrow> Next (AList.update name (FString v) fs) args')))"

definition flag_name :: "string \<Rightarrow> string" where
  "flag_name s = (if s ! 1 = minus_sign then drop 2 s else drop 1 s)"

definition parseOne :: "flag_set \<Rightarrow> string list \<Rightarrow> flag_step" where
  "parseOne fs args =
     (case args of
        [] \<Rightarrow> Stop []
      | s # args' \<Rightarrow>
          if length s < 2 \<or> s ! 0 \<noteq> minus_sign then Stop args
          else if s = ''--'' then Stop args'
          else (let name = flag_name s
                in if name = [] \<or> hd name = minus_sign \<or> hd name = equals_sign then Fail (BadFlagSyntax s)
                   else (case split_flag name of (n, given) \<Rightarrow> set_flag fs n given args')))"

lemma parseOne_shorter: "parseOne fs args = Next fs' args' \<Longrightarrow> length args' < length args"
  by (auto simp: parseOne_def set_flag_def Let_def split: list.splits if_splits prod.splits option.splits
      flag_value.splits)

function flag_parse :: "flag_set \<Rightarrow> string list \<Rightarrow> flag_error + flag_set \<times> string list" where
  "flag_parse fs args =
     (case parseOne fs args of
        Stop rest \<Rightarrow> Inr (fs, rest)
      | Fail e \<Rightarrow> Inl e
      | Next fs' args' \<Rightarrow> flag_parse fs' args')"
  by pat_completeness auto
termination by (relation "measure (\<lambda>(fs, args). length args)") (auto intro: parseOne_shorter)

declare flag_parse.simps [simp del]

text \<open>\<open>flag.Parse\<close> ends the process when the arguments are wrong: with 0 for help, else with 2.\<close>

definition flag_exit :: "flag_error \<Rightarrow> nat" where
  "flag_exit e = (if e = ErrHelp then 0 else 2)"

definition flag_string :: "flag_set \<Rightarrow> string \<Rightarrow> string" where
  "flag_string fs name = (case map_of fs name of Some (FString v) \<Rightarrow> v | _ \<Rightarrow> '''')"

definition flag_bool :: "flag_set \<Rightarrow> string \<Rightarrow> bool" where
  "flag_bool fs name = (map_of fs name = Some (FBool True))"

section \<open>The environment and the log level\<close>

definition Getenv :: "(string \<Rightarrow> string option) \<Rightarrow> string \<Rightarrow> string" where
  "Getenv env name = (case env name of None \<Rightarrow> '''' | Some v \<Rightarrow> v)"

definition wrap_int :: "int \<Rightarrow> int" where
  "wrap_int i = (i + 2 ^ 63) mod 2 ^ 64 - 2 ^ 63"

definition level_name :: "string \<Rightarrow> int option" where
  "level_name s =
     (let u = upper_ascii s
      in if u = ''DEBUG'' then Some (- 4) else if u = ''INFO'' then Some 0
         else if u = ''WARN'' then Some 4 else if u = ''ERROR'' then Some 8 else None)"

definition UnmarshalLevel :: "string \<Rightarrow> int option" where
  "UnmarshalLevel s =
     (let name = takeWhile (\<lambda>c. c \<noteq> CHR ''+'' \<and> c \<noteq> minus_sign) s; offset = drop (length name) s
      in case (if offset = [] then Some 0 else atoi offset) of
           None \<Rightarrow> None
         | Some off \<Rightarrow> map_option (\<lambda>l. wrap_int (l + off)) (level_name name))"

section \<open>Arguments in the usual form are read back\<close>

text \<open>The four ways to write a flag: one or two dashes, the value after an equals sign or as the next
  argument.\<close>

record flag_style =
  two_dashes :: bool
  with_equals :: bool

definition flag_args :: "flag_style \<Rightarrow> string \<Rightarrow> string \<Rightarrow> string list" where
  "flag_args st name v =
     (let dashed = (if two_dashes st then ''--'' else ''-'') @ name
      in if with_equals st then [dashed @ equals_sign # v] else [dashed, v])"

definition plain_name :: "string \<Rightarrow> bool" where
  "plain_name n \<longleftrightarrow> n \<noteq> [] \<and> hd n \<noteq> minus_sign \<and> equals_sign \<notin> set n"

definition flag_like :: "string \<Rightarrow> bool" where
  "flag_like s \<longleftrightarrow> 2 \<le> length s \<and> hd s = minus_sign"

lemma takeWhile_all: "c \<notin> set n \<Longrightarrow> takeWhile (\<lambda>x. x \<noteq> c) (n @ t) = n @ takeWhile (\<lambda>x. x \<noteq> c) t"
  by (induction n) auto

lemma split_flag_plain: "plain_name n \<Longrightarrow> split_flag n = (n, None)"
  using takeWhile_all [of equals_sign n "[]"]
  by (simp add: plain_name_def split_flag_def Let_def del: takeWhile_eq_all_conv)

lemma split_flag_equals: "plain_name n \<Longrightarrow> split_flag (n @ equals_sign # v) = (n, Some v)"
  by (simp add: plain_name_def split_flag_def Let_def takeWhile_all)

lemma flag_name_dashed:
  assumes "plain_name n"
  shows "flag_name (''-'' @ n @ t) = n @ t" "flag_name (''--'' @ n @ t) = n @ t"
  using assms by (auto simp: flag_name_def plain_name_def nth_append hd_conv_nth)

lemma parseOne_plain:
  assumes n: "plain_name n" and f: "map_of fs n = Some (FString u)"
  shows "parseOne fs (flag_args st n v @ rest) = Next (AList.update n (FString v) fs) rest"
proof -
  have h: "n \<noteq> []" "hd n \<noteq> minus_sign" "hd n \<noteq> equals_sign"
    using n by (cases n; auto simp: plain_name_def)+
  define d where "d = (if two_dashes st then ''--'' else ''-'')"
  have fn: "flag_name (d @ n @ t) = n @ t" for t
    using flag_name_dashed [OF n] by (simp add: d_def)
  have d: "2 \<le> length (d @ n @ t)" "(d @ n @ t) ! 0 = minus_sign" "d @ n @ t \<noteq> ''--''" for t
    using h by (auto simp: d_def Suc_le_eq neq_Nil_conv)
  have one: "parseOne fs ((d @ n @ t) # args) =
      (case split_flag (n @ t) of (m, given) \<Rightarrow> set_flag fs m given args)" for t args
    using d [of t] h by (simp add: parseOne_def fn del: append_assoc)
  show ?thesis
    using one [of "equals_sign # v" rest] one [of "[]" "v # rest"] n f
    by (simp add: flag_args_def Let_def d_def [symmetric] split_flag_plain split_flag_equals set_flag_def)
qed

lemma flag_parse_stop: "rest = [] \<or> \<not> flag_like (hd rest) \<Longrightarrow> flag_parse fs rest = Inr (fs, rest)"
  by (cases rest; cases "hd rest") (auto simp: flag_parse.simps parseOne_def flag_like_def Suc_le_eq)

definition set_strings :: "(string \<times> string) list \<Rightarrow> flag_set \<Rightarrow> flag_set" where
  "set_strings nvs fs = fold (\<lambda>(n, v). AList.update n (FString v)) nvs fs"

lemma flag_parse_plain:
  assumes "\<And>st n v. (st, n, v) \<in> set opts \<Longrightarrow> plain_name n \<and> (\<exists>u. map_of fs n = Some (FString u))"
    and "rest = [] \<or> \<not> flag_like (hd rest)"
  shows "flag_parse fs (concat (map (\<lambda>(st, n, v). flag_args st n v) opts) @ rest) =
    Inr (set_strings (map snd opts) fs, rest)"
  using assms
proof (induction opts arbitrary: fs)
  case Nil
  then show ?case by (simp add: flag_parse_stop set_strings_def)
next
  case (Cons o' opts)
  obtain st n v where o': "o' = (st, n, v)" by (cases o')
  obtain u where u: "plain_name n" "map_of fs n = Some (FString u)" 
    using Cons.prems(1) [of st n v] o' by auto
  let ?fs = "AList.update n (FString v) fs"
  have "flag_parse fs (concat (map (\<lambda>(st, n, v). flag_args st n v) (o' # opts)) @ rest) =
      flag_parse ?fs (concat (map (\<lambda>(st, n, v). flag_args st n v) opts) @ rest)"
    using parseOne_plain [OF u] by (subst flag_parse.simps) (simp add: o')
  also have "\<dots> = Inr (set_strings (map snd opts) ?fs, rest)"
    using Cons.prems by (intro Cons.IH) (force simp: update_conv')+
  finally show ?case by (simp add: set_strings_def o')
qed

lemma map_of_set_strings:
  "map_of (set_strings nvs fs) n =
    (case map_of (rev nvs) n of Some v \<Rightarrow> Some (FString v) | None \<Rightarrow> map_of fs n)"
  by (induction nvs arbitrary: fs)
    (auto simp: set_strings_def update_conv' map_add_def split: option.splits)

end
