(* ===== verification/Net_Address.thy ===== *)
theory Net_Address
  imports Host_Port
begin

text \<open>
  IP addresses as package net of the Go standard library reads them: \<open>ParseIP\<close> (dotted quads without
  leading zeros, IPv6 with an ellipsis and an embedded quad, no zone) and \<open>IP.IsLoopback\<close>. An
  address is the list of its bytes as numbers; \<open>ParseIP\<close> returns the 16-byte form.
\<close>

type_synonym ip = "nat list"

text \<open>\<open>parseIPv4Fields\<close>: the octets so far, the value of the current one and how many digits it has.\<close>

fun parse_ipv4 :: "nat list \<Rightarrow> nat \<Rightarrow> nat \<Rightarrow> string \<Rightarrow> nat list option" where
  "parse_ipv4 fields val digs [] = (if length fields < 3 then None else Some (fields @ [val]))"
| "parse_ipv4 fields val digs (c # cs) =
     (case char_digit c of
        Some d \<Rightarrow>
          if digs = 1 \<and> val = 0 then None
          else if 255 < 10 * val + d then None
          else parse_ipv4 fields (10 * val + d) (digs + 1) cs
      | None \<Rightarrow>
          if c \<noteq> CHR ''.'' then None
          else if digs = 0 \<or> cs = [] then None
          else if length fields = 3 then None
          else parse_ipv4 (fields @ [val]) 0 0 cs)"

definition hex_digit :: "char \<Rightarrow> nat option" where
  "hex_digit c =
     (let v = of_char c
      in if 48 \<le> v \<and> v \<le> 57 then Some (v - 48)
         else if 97 \<le> v \<and> v \<le> 102 then Some (v - 87)
         else if 65 \<le> v \<and> v \<le> 70 then Some (v - 55)
         else None)"

fun hex_group :: "nat \<Rightarrow> nat \<Rightarrow> string \<Rightarrow> (nat \<times> nat \<times> string) option" where
  "hex_group off acc [] = Some (off, acc, [])"
| "hex_group off acc (c # cs) =
     (case hex_digit c of
        None \<Rightarrow> Some (off, acc, c # cs)
      | Some d \<Rightarrow> if 3 < off \<or> 65535 < 16 * acc + d then None else hex_group (off + 1) (16 * acc + d) cs)"

text \<open>The loop over the groups: the bytes so far, where the ellipsis stands, and the rest.\<close>

function ipv6_groups :: "nat list \<Rightarrow> nat option \<Rightarrow> string \<Rightarrow> (nat list \<times> nat option \<times> string) option" where
  "ipv6_groups bytes gap s =
     (if 16 \<le> length bytes then Some (bytes, gap, s)
      else case hex_group 0 0 s of
        None \<Rightarrow> None
      | Some (off, acc, t) \<Rightarrow>
          if off = 0 then None
          else if t \<noteq> [] \<and> hd t = CHR ''.''
          then (if gap = None \<and> length bytes \<noteq> 12 \<or> 16 < length bytes + 4 then None
                else map_option (\<lambda>q. (bytes @ q, gap, [])) (parse_ipv4 [] 0 0 s))
          else (let bytes' = bytes @ [acc div 256, acc mod 256]
                in case t of
                     [] \<Rightarrow> Some (bytes', gap, [])
                   | c # u \<Rightarrow>
                       if c \<noteq> CHR '':'' \<or> u = [] then None
                       else if hd u = CHR '':''
                       then (if gap \<noteq> None then None
                             else if tl u = [] then Some (bytes', Some (length bytes'), [])
                             else ipv6_groups bytes' (Some (length bytes')) (tl u))
                       else ipv6_groups bytes' gap u))"
  by pat_completeness auto
termination by (relation "measure (\<lambda>(bytes, gap, s). 16 - length bytes)") auto

declare ipv6_groups.simps [simp del]

definition fill_gap :: "nat list \<Rightarrow> nat option \<Rightarrow> ip option" where
  "fill_gap bytes gap =
     (case gap of
        None \<Rightarrow> if length bytes < 16 then None else Some bytes
      | Some e \<Rightarrow>
          if length bytes < 16 then Some (take e bytes @ replicate (16 - length bytes) 0 @ drop e bytes)
          else None)"

definition parse_ipv6 :: "string \<Rightarrow> ip option" where
  "parse_ipv6 s =
     (if CHR ''%'' \<in> set s then None
      else if s = ''::'' then Some (replicate 16 0)
      else (let led = (take 2 s = ''::'')
            in case ipv6_groups [] (if led then Some 0 else None) (if led then drop 2 s else s) of
                 None \<Rightarrow> None
               | Some (bytes, gap, rest) \<Rightarrow> if rest \<noteq> [] then None else fill_gap bytes gap))"

definition v4_in_v6 :: "nat list \<Rightarrow> ip" where
  "v4_in_v6 q = replicate 10 0 @ [255, 255] @ q"

definition ParseIP :: "string \<Rightarrow> ip option" where
  "ParseIP s =
     (case dropWhile (\<lambda>c. c \<noteq> CHR ''.'' \<and> c \<noteq> CHR '':'' \<and> c \<noteq> CHR ''%'') s of
        [] \<Rightarrow> None
      | c # _ \<Rightarrow>
          if c = CHR ''.'' then map_option v4_in_v6 (parse_ipv4 [] 0 0 s)
          else if c = CHR '':'' then parse_ipv6 s
          else None)"

definition IsLoopback :: "ip \<Rightarrow> bool" where
  "IsLoopback a =
     (if length a = 4 then a ! 0 = 127
      else if length a = 16 \<and> take 12 a = replicate 10 0 @ [255, 255] then a ! 12 = 127
      else a = replicate 15 0 @ [1])"

section \<open>Dotted quads\<close>

definition quad_text :: "nat \<Rightarrow> nat \<Rightarrow> nat \<Rightarrow> nat \<Rightarrow> string" where
  "quad_text a b c d = digits_of a @ ''.'' @ digits_of b @ ''.'' @ digits_of c @ ''.'' @ digits_of d"

lemma char_digit_dot [simp]: "char_digit (CHR ''.'') = None"
  by (simp add: char_digit_def)

lemma parse_ipv4_octet:
  "n < 256 \<Longrightarrow> parse_ipv4 fs 0 0 (digits_of n @ t) = parse_ipv4 fs n (length (digits_of n)) t"
proof (induction n arbitrary: t rule: digits_of.induct)
  case (1 n)
  show ?case
  proof (cases "n < 10")
    case True
    then show ?thesis by (simp add: digits_of.simps [of n])
  next
    case False
    then have n: "digits_of n = digits_of (n div 10) @ [digit_char (n mod 10)]"
      by (simp add: digits_of.simps [of n])
    have "parse_ipv4 fs 0 0 (digits_of n @ t) =
        parse_ipv4 fs (n div 10) (length (digits_of (n div 10))) (digit_char (n mod 10) # t)"
      using "1.IH" [OF False] "1.prems" by (simp add: n)
    also have "\<dots> = parse_ipv4 fs (10 * (n div 10) + n mod 10) (length (digits_of (n div 10)) + 1) t"
      using "1.prems" False div_greater_zero_iff [of n 10] by simp
    finally show ?thesis by (simp add: n)
  qed
qed

lemma parse_ipv4_dot:
  "length fs < 3 \<Longrightarrow> parse_ipv4 fs v (length (digits_of m)) (CHR ''.'' # digits_of n @ t) =
    parse_ipv4 (fs @ [v]) 0 0 (digits_of n @ t)"
  by simp

lemma parse_ipv4_quad:
  assumes "a < 256" "b < 256" "c < 256" "d < 256"
  shows "parse_ipv4 [] 0 0 (quad_text a b c d) = Some [a, b, c, d]"
  using assms parse_ipv4_octet [OF assms(4), of "[a, b, c]" "[]"]
  by (simp add: quad_text_def parse_ipv4_octet parse_ipv4_dot [where t = "[]", simplified]
      parse_ipv4_dot del: parse_ipv4.simps(2)) (simp add: parse_ipv4_octet)

lemma digits_of_char_digit: "x \<in> set (digits_of n) \<Longrightarrow> char_digit x \<noteq> None"
  using digits_plain [of n] by auto

lemma ParseIP_quad:
  assumes "a < 256" "b < 256" "c < 256" "d < 256"
  shows "ParseIP (quad_text a b c d) = Some (v4_in_v6 [a, b, c, d])"
proof -
  have "dropWhile (\<lambda>c. c \<noteq> CHR ''.'' \<and> c \<noteq> CHR '':'' \<and> c \<noteq> CHR ''%'') (digits_of a @ CHR ''.'' # t) =
      CHR ''.'' # t" for t
    by (subst dropWhile_append2)
      (auto dest: digits_of_char_digit simp: char_digit_def)
  with parse_ipv4_quad [OF assms] show ?thesis by (simp add: ParseIP_def quad_text_def)
qed

lemma IsLoopback_quad: "IsLoopback (v4_in_v6 [a, b, c, d]) \<longleftrightarrow> a = 127"
  by (simp add: IsLoopback_def v4_in_v6_def nth_append)

end
