(* ===== verification/Exposure.thy ===== *)
theory Exposure
  imports Net_Address Client_Status
begin

text \<open>
  The two unauthenticated status pages and the warning each side gives when one can be reached from
  the network: \<open>warnIfExposed\<close> of internal/server/server.go, which looks at the configured text, and
  \<open>ServeStatus\<close> and \<open>isLoopback\<close> of internal/client/status.go, which look at the bound address. What a
  name resolves to is an argument.
\<close>

definition all_interfaces_warning :: string where
  "all_interfaces_warning = ''status endpoint is unauthenticated and bound to all interfaces; '' @
     ''anyone who can reach it can read node names, port topology and traffic counters''"

definition off_loopback_warning :: string where
  "off_loopback_warning = ''status endpoint is unauthenticated and not on loopback; '' @
     ''anyone who can reach it can read node names, port topology and traffic counters''"

definition warnIfExposed :: "string \<Rightarrow> string option" where
  "warnIfExposed addr =
     (case SplitHostPort addr of
        Inl e \<Rightarrow> None
      | Inr (host, port) \<Rightarrow>
          if host = '''' then Some all_interfaces_warning
          else (case ParseIP host of
                  None \<Rightarrow> None
                | Some a \<Rightarrow> if IsLoopback a then None else Some off_loopback_warning))"

text \<open>A listener's address: a TCP address has an IP, which may be absent; another kind has none.\<close>

datatype net_addr = TCPAddr "ip option" | OtherAddr

definition isLoopback :: "net_addr \<Rightarrow> bool" where
  "isLoopback addr = (case addr of TCPAddr (Some a) \<Rightarrow> IsLoopback a | _ \<Rightarrow> False)"

definition client_exposed_warning :: string where
  "client_exposed_warning = ''client status endpoint is unauthenticated and not on loopback; '' @
     ''anyone who can reach it can read this node'' @ [CHR 0x27] @ ''s telemetry''"

datatype http_end = ServedNil | ErrServerClosed | ServeError string

text \<open>\<open>ServeStatus\<close>: the bind, the warning it logs, and what it returns once \<open>Serve\<close> has.\<close>

definition ServeStatus_bound :: "net_addr \<Rightarrow> string list" where
  "ServeStatus_bound addr = (if isLoopback addr then [] else [client_exposed_warning])"

definition ServeStatus :: "string + net_addr \<Rightarrow> http_end \<Rightarrow> string list \<times> string option" where
  "ServeStatus bound served =
     (case bound of
        Inl e \<Rightarrow> ([], Some (''status listener: '' @ e))
      | Inr addr \<Rightarrow>
          (ServeStatus_bound addr,
           case served of ServeError e \<Rightarrow> Some e | ServedNil \<Rightarrow> None | ErrServerClosed \<Rightarrow> None))"

section \<open>When the server warns\<close>

text \<open>The address a socket gets: all interfaces for the empty host, the address of a literal, or what
  the name resolves to.\<close>

definition bound_to :: "(string \<Rightarrow> ip) \<Rightarrow> string \<Rightarrow> ip" where
  "bound_to resolve host =
     (if host = '''' then replicate 16 0
      else case ParseIP host of Some a \<Rightarrow> a | None \<Rightarrow> resolve host)"

lemma unspecified_not_loopback: "\<not> IsLoopback (replicate 16 0)"
  by code_simp

text \<open>The server logs its exposure warning exactly when the address its status page is bound to is off
  loopback and the configuration gives it as an IP literal or leaves the host out; for a host name it stays
  silent whatever the name resolves to, where the client's own page warns whenever the bound address is off
  loopback.\<close>

theorem exposure_warning:
  assumes "SplitHostPort addr = Inr (host, port)"
  shows "(warnIfExposed addr \<noteq> None \<longleftrightarrow>
      \<not> isLoopback (TCPAddr (Some (bound_to resolve host))) \<and> (host = '''' \<or> ParseIP host \<noteq> None)) \<and>
    (fst (ServeStatus (Inr (TCPAddr (Some (bound_to resolve host)))) served) \<noteq> [] \<longleftrightarrow>
      \<not> isLoopback (TCPAddr (Some (bound_to resolve host))))"
  using assms unspecified_not_loopback
  by (auto simp: warnIfExposed_def bound_to_def isLoopback_def ServeStatus_def ServeStatus_bound_def
      split: option.splits)

lemma exposure_examples:
  "SplitHostPort ''10.0.0.7:8090'' = Inr (''10.0.0.7'', ''8090'')"
  "SplitHostPort ''gateway.lan:8090'' = Inr (''gateway.lan'', ''8090'')"
  by (simp_all add: SplitHostPort_def last_index_of_def index_of_def split_tail_def)

lemma exposure_hosts:
  "ParseIP ''10.0.0.7'' = Some (v4_in_v6 [10, 0, 0, 7])"
  "ParseIP ''gateway.lan'' = None"
  by (simp_all add: ParseIP_def char_digit_def)

lemma ParseIP_v6_loopback: "ParseIP ''::1'' = Some (replicate 15 0 @ [1])"
proof -
  have "ipv6_groups [] (Some 0) ''1'' = Some ([0, 1], Some 0, [])"
    by (subst ipv6_groups.simps) (simp add: hex_digit_def)
  moreover have "fill_gap [0, 1] (Some 0) = Some (replicate 15 0 @ [1])" by code_simp
  ultimately show ?thesis by (simp add: ParseIP_def parse_ipv6_def)
qed

theorem exposure_warning_witness:
  "warnIfExposed ''10.0.0.7:8090'' \<noteq> None \<and> warnIfExposed ''gateway.lan:8090'' = None \<and>
   fst (ServeStatus (Inr (TCPAddr (Some (v4_in_v6 [10, 0, 0, 7])))) ErrServerClosed) \<noteq> []"
  using exposure_warning [OF exposure_examples(1), of "\<lambda>_. []" ErrServerClosed]
    exposure_warning [OF exposure_examples(2), of "\<lambda>_. v4_in_v6 [10, 0, 0, 7]" ErrServerClosed]
  by (simp add: exposure_hosts bound_to_def isLoopback_def IsLoopback_quad)

text \<open>A literal is exposed unless it starts with 127; the IPv6 loopback is not.\<close>

lemma plain_quad: "plain (quad_text a b c d)"
proof -
  have "x \<noteq> lbracket \<and> x \<noteq> rbracket" if "x \<in> set (digits_of n)" for x n
    using digits_of_char_digit [OF that] by (auto simp: char_digit_def)
  then show ?thesis by (fastforce simp: quad_text_def plain_def)
qed

lemma quad_exposed:
  assumes "a < 256" "b < 256" "c < 256" "d < 256"
  shows "warnIfExposed (JoinHostPort (quad_text a b c d) (itoa p)) \<noteq> None \<longleftrightarrow> a \<noteq> 127"
  using ParseIP_quad [OF assms]
  by (simp add: warnIfExposed_def Split_Join plain_quad itoa_chars IsLoopback_quad)
    (simp add: quad_text_def)

lemma v6_loopback_not_exposed: "warnIfExposed (JoinHostPort ''::1'' (itoa p)) = None"
proof -
  have "SplitHostPort (JoinHostPort ''::1'' (itoa p)) = Inr (''::1'', itoa p)"
    by (rule Split_Join) (simp_all add: plain_def itoa_chars [unfolded plain_def])
  moreover have "IsLoopback (replicate 15 0 @ [1])" by code_simp
  ultimately show ?thesis by (simp add: warnIfExposed_def ParseIP_v6_loopback)
qed

end
