(* ===== verification/Endpoints.thy ===== *)
theory Endpoints
  imports Server_Control
begin

text \<open>
  The HTTP endpoints of internal/server/server.go: \<open>serve\<close>, \<open>retireServer\<close>, the swaps of
  \<open>rebindEndpoints\<close>, the binds and the last select of \<open>Run\<close>, and the end of \<open>shutdown\<close>, at the
  points where the goroutines involved can meet: the one that runs \<open>Run\<close> and \<open>shutdown\<close>, and every
  member of the wait group \<open>wg\<close>: the watcher, which rebinds, \<open>sampleRates\<close>, one that serves each endpoint,
  one for each retirement and one for each drain that a reload has started. An \<open>*http.Server\<close> is its
  number in \<open>es_servers\<close>. \<open>net/http\<close> is taken as documented: after \<open>Shutdown\<close> or \<open>Close\<close> a server accepts
  nothing and its \<open>Serve\<close> returns \<open>ErrServerClosed\<close>; otherwise \<open>Serve\<close> returns only with an error.
\<close>

record http_server =
  hs_what :: string
  hs_addr :: string
  hs_in_shutdown :: bool
  hs_serving :: bool
  hs_retiring :: bool

datatype endpoint_kind = WsEntry | StatusPage

text \<open>Where the watcher stands in \<open>rebindEndpoints\<close>: it has claimed the new address (or needs none),
  or it has swapped the endpoints and holds the old one.\<close>

datatype rebind_stage = Claimed endpoint_kind "nat option" | Swapped "nat option"

record endpoints =
  es_servers :: "http_server list"
  es_ws :: "nat option"
  es_status :: "nat option"
  es_errs :: "string list"
  es_watching :: bool
  es_sampling :: bool
  es_drains :: nat
  es_rebind :: "rebind_stage option"
  es_stopping :: "(nat option \<times> nat option) option"
  es_cancelled :: bool

definition no_endpoints :: endpoints where
  "no_endpoints = \<lparr>es_servers = [], es_ws = None, es_status = None, es_errs = [], es_watching = False,
     es_sampling = False, es_drains = 0, es_rebind = None, es_stopping = None, es_cancelled = False\<rparr>"

definition endpoint_name :: "endpoint_kind \<Rightarrow> string" where
  "endpoint_name k = (case k of WsEntry \<Rightarrow> ''ws entry point'' | StatusPage \<Rightarrow> ''status endpoint'')"

definition es_current :: "endpoint_kind \<Rightarrow> endpoints \<Rightarrow> nat option" where
  "es_current k st = (case k of WsEntry \<Rightarrow> es_ws st | StatusPage \<Rightarrow> es_status st)"

definition set_current :: "endpoint_kind \<Rightarrow> nat option \<Rightarrow> endpoints \<Rightarrow> endpoints" where
  "set_current k i st = (case k of WsEntry \<Rightarrow> st\<lparr>es_ws := i\<rparr> | StatusPage \<Rightarrow> st\<lparr>es_status := i\<rparr>)"

definition upd_server :: "nat \<Rightarrow> (http_server \<Rightarrow> http_server) \<Rightarrow> endpoints \<Rightarrow> endpoints" where
  "upd_server i f st = st\<lparr>es_servers := (es_servers st)[i := f (es_servers st ! i)]\<rparr>"

section \<open>The operations\<close>

text \<open>\<open>serve\<close>: the bind, whose outcome is an argument, and the new server with its goroutine.\<close>

definition serve :: "string \<Rightarrow> string \<Rightarrow> string option \<Rightarrow> endpoints \<Rightarrow> (string + nat) \<times> endpoints" where
  "serve what addr bind_error st =
     (case bind_error of
        Some e \<Rightarrow> (Inl e, st)
      | None \<Rightarrow>
          (Inr (length (es_servers st)),
           st\<lparr>es_servers := es_servers st @
             [\<lparr>hs_what = what, hs_addr = addr, hs_in_shutdown = False, hs_serving = True, hs_retiring = False\<rparr>]\<rparr>))"

text \<open>The goroutine of a server when \<open>Serve\<close> returns: silently after a shutdown, else with an error that
  goes to \<open>errCh\<close>, which holds two, or is dropped.\<close>

definition serve_returns :: "nat \<Rightarrow> string \<Rightarrow> endpoints \<Rightarrow> endpoints" where
  "serve_returns i e st =
     (let sv = es_servers st ! i; st' = upd_server i (\<lambda>s. s\<lparr>hs_serving := False\<rparr>) st
      in if hs_in_shutdown sv then st'
         else if length (es_errs st) < 2 then st'\<lparr>es_errs := es_errs st @ [hs_what sv @ '': '' @ e]\<rparr>
         else st')"

text \<open>\<open>retireServer\<close>, which starts a goroutine unless the server is nil; the two steps of that goroutine:
  \<open>Shutdown\<close> stops the accepting, and the in-flight requests end or are cut by \<open>Close\<close>.\<close>

definition retireServer :: "nat option \<Rightarrow> endpoints \<Rightarrow> endpoints" where
  "retireServer prev st =
     (case prev of None \<Rightarrow> st | Some i \<Rightarrow> upd_server i (\<lambda>s. s\<lparr>hs_retiring := True\<rparr>) st)"

definition http_Shutdown :: "nat option \<Rightarrow> endpoints \<Rightarrow> endpoints" where
  "http_Shutdown srv st =
     (case srv of None \<Rightarrow> st | Some i \<Rightarrow> upd_server i (\<lambda>s. s\<lparr>hs_in_shutdown := True\<rparr>) st)"

definition retire_done :: "nat \<Rightarrow> endpoints \<Rightarrow> endpoints" where
  "retire_done i = upd_server i (\<lambda>s. s\<lparr>hs_retiring := False\<rparr>)"

text \<open>The binds at the start of \<open>Run\<close>; then the watcher and \<open>sampleRates\<close> start.\<close>

definition Run_start :: "(string \<Rightarrow> string option) \<Rightarrow> config \<Rightarrow> endpoints \<Rightarrow> string option \<times> endpoints" where
  "Run_start bind cfg st =
     (case serve (endpoint_name WsEntry) (cfg_listen cfg) (bind (cfg_listen cfg)) st of
        (Inl e, st1) \<Rightarrow> (Some (''ws listener: '' @ e), st1)
      | (Inr ws, st1) \<Rightarrow>
          (let st2 = set_current WsEntry (Some ws) st1
           in if cfg_status_listen cfg = '''' then (None, st2\<lparr>es_watching := True, es_sampling := True\<rparr>)
              else (case serve (endpoint_name StatusPage) (cfg_status_listen cfg) (bind (cfg_status_listen cfg)) st2 of
                      (Inl e, st3) \<Rightarrow> (Some (''status listener: '' @ e), st3)
                    | (Inr sp, st3) \<Rightarrow>
                        (None, (set_current StatusPage (Some sp) st3)\<lparr>es_watching := True, es_sampling := True\<rparr>))))"

text \<open>What ends \<open>Run\<close>: its context, or the first error of an endpoint, which becomes its result.\<close>

definition Run_woken :: "bool \<Rightarrow> endpoints \<Rightarrow> (string option \<times> endpoints) option" where
  "Run_woken ctx_done st =
     (if ctx_done then Some (None, st)
      else case es_errs st of
             [] \<Rightarrow> None
           | e # es \<Rightarrow> Some (Some e, st\<lparr>es_errs := es\<rparr>))"

text \<open>The parts of \<open>rebindEndpoints\<close> for one endpoint: claim the new address (none for a status page
  that is switched off), swap under the lock, retire the old server.\<close>

definition rebind_claim :: "endpoint_kind \<Rightarrow> string \<Rightarrow> string option \<Rightarrow> endpoints \<Rightarrow> endpoints" where
  "rebind_claim k addr bind_error st =
     (if k = StatusPage \<and> addr = '''' then st\<lparr>es_rebind := Some (Claimed k None)\<rparr>
      else (case serve (endpoint_name k) addr bind_error st of
              (Inl e, st') \<Rightarrow> st'
            | (Inr i, st') \<Rightarrow> st'\<lparr>es_rebind := Some (Claimed k (Some i))\<rparr>))"

definition rebind_swap :: "endpoint_kind \<Rightarrow> nat option \<Rightarrow> endpoints \<Rightarrow> endpoints" where
  "rebind_swap k fresh st = (set_current k fresh st)\<lparr>es_rebind := Some (Swapped (es_current k st))\<rparr>"

definition rebind_retire :: "nat option \<Rightarrow> endpoints \<Rightarrow> endpoints" where
  "rebind_retire prev st = (retireServer prev st)\<lparr>es_rebind := None\<rparr>"

text \<open>The end of \<open>shutdown\<close>: it reads the two servers under the lock, shuts them down, cancels the base
  context, and waits for all goroutines.\<close>

definition shutdown_read :: "endpoints \<Rightarrow> endpoints" where
  "shutdown_read st = st\<lparr>es_stopping := Some (es_ws st, es_status st)\<rparr>"

definition shutdown_stop :: "nat option \<times> nat option \<Rightarrow> endpoints \<Rightarrow> endpoints" where
  "shutdown_stop srvs st =
     (http_Shutdown (snd srvs) (http_Shutdown (fst srvs) st))\<lparr>es_cancelled := True\<rparr>"

definition all_done :: "endpoints \<Rightarrow> bool" where
  "all_done st \<longleftrightarrow>
     \<not> es_watching st \<and> \<not> es_sampling st \<and> es_drains st = 0 \<and>
     list_all (\<lambda>s. \<not> hs_serving s \<and> \<not> hs_retiring s) (es_servers st)"

section \<open>How they interleave\<close>

text \<open>The action of one goroutine. The watcher rebinds only while it runs, one endpoint at a time, and
  ends between two reloads once the base context is cancelled, as \<open>sampleRates\<close> does; a reload may start
  drains, whose goroutines end on their own.\<close>

inductive endpoint_step :: "endpoints \<Rightarrow> endpoints \<Rightarrow> bool" where
  claim: "endpoint_step st (rebind_claim k addr e st)" if "es_watching st" "es_rebind st = None"
| swap: "endpoint_step st (rebind_swap k fresh st)" if "es_rebind st = Some (Claimed k fresh)"
| retire: "endpoint_step st (rebind_retire prev st)" if "es_rebind st = Some (Swapped prev)"
| shut: "endpoint_step st (http_Shutdown (Some i) st)" if "i < length (es_servers st)" "hs_retiring (es_servers st ! i)"
| retired: "endpoint_step st (retire_done i st)"
    if "i < length (es_servers st)" "hs_retiring (es_servers st ! i)" "hs_in_shutdown (es_servers st ! i)"
| returns: "endpoint_step st (serve_returns i e st)" if "i < length (es_servers st)" "hs_serving (es_servers st ! i)"
| read: "endpoint_step st (shutdown_read st)" if "es_stopping st = None"
| stop: "endpoint_step st (shutdown_stop srvs st)" if "es_stopping st = Some srvs"
| watch_end: "endpoint_step st (st\<lparr>es_watching := False\<rparr>)" if "es_cancelled st" "es_rebind st = None"
| sample_end: "endpoint_step st (st\<lparr>es_sampling := False\<rparr>)" if "es_cancelled st"
| drain: "endpoint_step st (st\<lparr>es_drains := Suc (es_drains st)\<rparr>)" if "es_watching st" "es_rebind st = None"
| drained: "endpoint_step st (st\<lparr>es_drains := es_drains st - 1\<rparr>)" if "0 < es_drains st"

inductive endpoint_steps :: "endpoints \<Rightarrow> endpoints \<Rightarrow> bool" where
  here: "endpoint_steps st st"
| more: "endpoint_steps st u" if "endpoint_steps st t" "endpoint_step t u"

text \<open>The runs in which the watcher takes no new address: no rebind is under way between two steps.\<close>

inductive calm_steps :: "endpoints \<Rightarrow> endpoints \<Rightarrow> bool" where
  calm_here: "calm_steps st st"
| calm_more: "calm_steps st u" if "calm_steps st t" "endpoint_step t u" "es_rebind u = None"

inductive_cases endpoint_stepE: "endpoint_step st u"

section \<open>Who holds an endpoint\<close>

definition opt_list :: "'a option \<Rightarrow> 'a list" where
  "opt_list x = (case x of None \<Rightarrow> [] | Some a \<Rightarrow> [a])"

definition in_hand :: "endpoints \<Rightarrow> nat option" where
  "in_hand st = (case es_rebind st of None \<Rightarrow> None | Some (Claimed k x) \<Rightarrow> x | Some (Swapped x) \<Rightarrow> x)"

definition holders :: "endpoints \<Rightarrow> nat list" where
  "holders st = opt_list (es_ws st) @ opt_list (es_status st) @ opt_list (in_hand st)"

definition accepting :: "endpoints \<Rightarrow> nat \<Rightarrow> bool" where
  "accepting st i \<longleftrightarrow> hs_serving (es_servers st ! i) \<and> \<not> hs_in_shutdown (es_servers st ! i)"

text \<open>The account: the servers held as current endpoint or in the hand of the watcher are distinct and
  exist, none of them is being retired, none is shut down before the process stops, and every
  server that accepts is held or being retired.\<close>

definition endpoints_ok :: "endpoints \<Rightarrow> bool" where
  "endpoints_ok st \<longleftrightarrow>
     distinct (holders st) \<and>
     (\<forall>i \<in> set (holders st). i < length (es_servers st) \<and> \<not> hs_retiring (es_servers st ! i) \<and>
        (es_stopping st = None \<longrightarrow> \<not> hs_in_shutdown (es_servers st ! i))) \<and>
     (\<forall>i < length (es_servers st). accepting st i \<longrightarrow> i \<in> set (holders st) \<or> hs_retiring (es_servers st ! i)) \<and>
     (\<forall>ws sp. es_stopping st = Some (ws, sp) \<longrightarrow>
        set (opt_list ws) \<union> set (opt_list sp) \<subseteq> {..<length (es_servers st)})"

lemma opt_list_simps [simp]: "opt_list None = []" "opt_list (Some a) = [a]"
  by (simp_all add: opt_list_def)

lemma set_opt_list: "i \<in> set (opt_list x) \<longleftrightarrow> x = Some i"
  by (cases x) auto

lemma set_current_simps [simp]:
  "es_servers (set_current k x st) = es_servers st" "es_rebind (set_current k x st) = es_rebind st"
  "es_stopping (set_current k x st) = es_stopping st" "es_watching (set_current k x st) = es_watching st"
  "es_sampling (set_current k x st) = es_sampling st" "es_drains (set_current k x st) = es_drains st"
  "es_errs (set_current k x st) = es_errs st" "es_cancelled (set_current k x st) = es_cancelled st"
  "es_current k (set_current k x st) = x"
  by (cases k; simp add: set_current_def es_current_def)+

lemma upd_server_simps [simp]:
  "length (es_servers (upd_server i f st)) = length (es_servers st)"
  "es_ws (upd_server i f st) = es_ws st" "es_status (upd_server i f st) = es_status st"
  "es_rebind (upd_server i f st) = es_rebind st" "es_stopping (upd_server i f st) = es_stopping st"
  "es_watching (upd_server i f st) = es_watching st" "es_sampling (upd_server i f st) = es_sampling st"
  "es_drains (upd_server i f st) = es_drains st" "es_errs (upd_server i f st) = es_errs st"
  "es_cancelled (upd_server i f st) = es_cancelled st" "holders (upd_server i f st) = holders st"
  by (simp_all add: upd_server_def holders_def in_hand_def)

lemma upd_server_nth [simp]:
  "j < length (es_servers st) \<Longrightarrow>
     es_servers (upd_server i f st) ! j = (if i = j then f (es_servers st ! j) else es_servers st ! j)"
  by (simp add: upd_server_def)

lemma endpoints_okD:
  assumes "endpoints_ok st"
  shows "distinct (holders st)" "i \<in> set (holders st) \<Longrightarrow> i < length (es_servers st)"
    "i \<in> set (holders st) \<Longrightarrow> \<not> hs_retiring (es_servers st ! i)"
    "i \<in> set (holders st) \<Longrightarrow> es_stopping st = None \<Longrightarrow> \<not> hs_in_shutdown (es_servers st ! i)"
    "i < length (es_servers st) \<Longrightarrow> accepting st i \<Longrightarrow> i \<in> set (holders st) \<or> hs_retiring (es_servers st ! i)"
    "es_stopping st = Some (ws, sp) \<Longrightarrow> set (opt_list ws) \<union> set (opt_list sp) \<subseteq> {..<length (es_servers st)}"
  using assms unfolding endpoints_ok_def by blast+

text \<open>An operation on one server, by what it does to the flags.\<close>

lemma upd_server_ok:
  assumes ok: "endpoints_ok st" and i: "i < length (es_servers st)"
    and retire: "hs_retiring (f (es_servers st ! i)) \<Longrightarrow> i \<notin> set (holders st)"
    and shut: "hs_in_shutdown (f (es_servers st ! i)) \<Longrightarrow>
      hs_in_shutdown (es_servers st ! i) \<or> i \<notin> set (holders st) \<or> es_stopping st \<noteq> None"
    and keep: "hs_serving (f (es_servers st ! i)) \<Longrightarrow> \<not> hs_in_shutdown (f (es_servers st ! i)) \<Longrightarrow>
      accepting st i \<and> (hs_retiring (es_servers st ! i) \<longrightarrow> hs_retiring (f (es_servers st ! i)))"
  shows "endpoints_ok (upd_server i f st)"
  unfolding endpoints_ok_def upd_server_simps
proof (intro conjI ballI allI impI)
  fix j assume j: "j \<in> set (holders st)"
  then show "j < length (es_servers st)" using endpoints_okD(2) [OF ok] by simp
  then show "\<not> hs_retiring (es_servers (upd_server i f st) ! j)"
    using endpoints_okD(3) [OF ok j] retire j by (auto split: if_splits)
  show "\<not> hs_in_shutdown (es_servers (upd_server i f st) ! j)" if "es_stopping st = None"
    using endpoints_okD(2,4) [OF ok j] shut j that by (auto split: if_splits)
next
  fix j assume j: "j < length (es_servers st)" "accepting (upd_server i f st) j"
  then have "accepting st j" using keep by (auto simp: accepting_def split: if_splits)
  then show "j \<in> set (holders st) \<or> hs_retiring (es_servers (upd_server i f st) ! j)"
    using endpoints_okD(5) [OF ok j(1)] keep j by (auto simp: accepting_def split: if_splits)
qed (use endpoints_okD(1,6) [OF ok] in auto)

lemma retire_ok:
  assumes "endpoints_ok st" "es_rebind st = Some (Swapped prev)"
  shows "endpoints_ok (rebind_retire prev st)"
proof (cases prev)
  case None
  with assms show ?thesis
    by (simp add: endpoints_ok_def rebind_retire_def retireServer_def holders_def in_hand_def accepting_def)
next
  case (Some i)
  have h: "holders st = opt_list (es_ws st) @ opt_list (es_status st) @ [i]"
    using assms(2) Some by (simp add: holders_def in_hand_def)
  define st1 where "st1 = st\<lparr>es_rebind := None\<rparr>"
  have h1: "holders st1 = opt_list (es_ws st) @ opt_list (es_status st)"
    by (simp add: st1_def holders_def in_hand_def)
  have i: "i < length (es_servers st)" "i \<notin> set (holders st1)"
    using endpoints_okD(1,2) [OF assms(1)] h h1 by auto
  have "rebind_retire prev st = upd_server i (\<lambda>s. s\<lparr>hs_retiring := True\<rparr>) st1"
    by (simp add: rebind_retire_def retireServer_def Some st1_def upd_server_def)
  moreover have "endpoints_ok (upd_server i (\<lambda>s. s\<lparr>hs_retiring := True\<rparr>) st1)"
    unfolding endpoints_ok_def upd_server_simps
  proof (intro conjI ballI allI impI)
    show "distinct (holders st1)" using endpoints_okD(1) [OF assms(1)] h h1 by auto
    fix j assume j: "j \<in> set (holders st1)"
    then have j': "j \<in> set (holders st)" "j \<noteq> i" using h h1 i(2) by auto
    show "j < length (es_servers st1)" using endpoints_okD(2) [OF assms(1) j'(1)] by (simp add: st1_def)
    then show "\<not> hs_retiring (es_servers (upd_server i (\<lambda>s. s\<lparr>hs_retiring := True\<rparr>) st1) ! j)"
      using endpoints_okD(3) [OF assms(1) j'(1)] j'(2) by (simp add: st1_def)
    show "\<not> hs_in_shutdown (es_servers (upd_server i (\<lambda>s. s\<lparr>hs_retiring := True\<rparr>) st1) ! j)" if "es_stopping st1 = None"
      using endpoints_okD(2,4) [OF assms(1) j'(1)] that j'(2) by (simp add: st1_def)
  next
    fix j assume j: "j < length (es_servers st1)" "accepting (upd_server i (\<lambda>s. s\<lparr>hs_retiring := True\<rparr>) st1) j"
    then have "accepting st j" "j < length (es_servers st)" by (auto simp: accepting_def st1_def split: if_splits)
    then show "j \<in> set (holders st1) \<or> hs_retiring (es_servers (upd_server i (\<lambda>s. s\<lparr>hs_retiring := True\<rparr>) st1) ! j)"
      using endpoints_okD(5) [OF assms(1)] h h1 by (auto simp: st1_def)
  qed (use endpoints_okD(6) [OF assms(1)] in \<open>auto simp: st1_def\<close>)
  ultimately show ?thesis by simp
qed

lemma endpoints_ok_cong:
  assumes "endpoints_ok st" "es_servers u = es_servers st" "es_stopping u = es_stopping st"
    and "distinct (holders u)" "set (holders u) = set (holders st)"
  shows "endpoints_ok u"
  using assms by (simp add: endpoints_ok_def accepting_def)

lemma swap_ok:
  assumes "endpoints_ok st" "es_rebind st = Some (Claimed k fresh)"
  shows "endpoints_ok (rebind_swap k fresh st)"
proof (rule endpoints_ok_cong [OF assms(1)])
  show "distinct (holders (rebind_swap k fresh st))" "set (holders (rebind_swap k fresh st)) = set (holders st)"
    using endpoints_okD(1) [OF assms(1)] assms(2)
    by (cases k; auto simp: holders_def in_hand_def rebind_swap_def set_current_def es_current_def)+
qed (simp_all add: rebind_swap_def)

lemma claim_ok:
  assumes ok: "endpoints_ok st" and "es_rebind st = None"
  shows "endpoints_ok (rebind_claim k addr e st)"
proof -
  have h: "holders st = opt_list (es_ws st) @ opt_list (es_status st)"
    using assms(2) by (simp add: holders_def in_hand_def)
  show ?thesis
  proof (cases "k = StatusPage \<and> addr = '''' \<or> e \<noteq> None")
    case True
    then show ?thesis
      using ok h by (intro endpoints_ok_cong [OF ok])
        (auto simp: rebind_claim_def serve_def holders_def in_hand_def endpoints_ok_def assms(2) split: option.splits)
  next
    case False
    let ?n = "length (es_servers st)"
    let ?s = "\<lparr>hs_what = endpoint_name k, hs_addr = addr, hs_in_shutdown = False, hs_serving = True, hs_retiring = False\<rparr>"
    have u: "rebind_claim k addr e st =
        st\<lparr>es_servers := es_servers st @ [?s], es_rebind := Some (Claimed k (Some ?n))\<rparr>"
      using False by (auto simp: rebind_claim_def serve_def split: option.splits)
    have h': "holders (rebind_claim k addr e st) = holders st @ [?n]"
      by (simp add: u h holders_def in_hand_def assms(2))
    have nth: "es_servers (rebind_claim k addr e st) ! j = (if j = ?n then ?s else es_servers st ! j)"
      if "j \<le> ?n" for j
      using that by (simp add: u nth_append)
    have old: "j < ?n" if "j \<in> set (holders st)" for j using endpoints_okD(2) [OF ok that] .
    show ?thesis
      unfolding endpoints_ok_def h'
    proof (intro conjI ballI allI impI)
      show "distinct (holders st @ [?n])" using endpoints_okD(1) [OF ok] old by auto
      fix j assume j: "j \<in> set (holders st @ [?n])"
      then have le: "j \<le> ?n" using old by fastforce
      then show "j < length (es_servers (rebind_claim k addr e st))" by (simp add: u)
      show "\<not> hs_retiring (es_servers (rebind_claim k addr e st) ! j)"
        using j nth [OF le] endpoints_okD(3) [OF ok, of j] by auto
      show "\<not> hs_in_shutdown (es_servers (rebind_claim k addr e st) ! j)" if "es_stopping (rebind_claim k addr e st) = None"
        using j nth [OF le] endpoints_okD(4) [OF ok, of j] that by (auto simp: u)
    next
      fix j assume j: "j < length (es_servers (rebind_claim k addr e st))" "accepting (rebind_claim k addr e st) j"
      then have le: "j \<le> ?n" by (simp add: u)
      show "j \<in> set (holders st @ [?n]) \<or> hs_retiring (es_servers (rebind_claim k addr e st) ! j)"
        using j nth [OF le] le endpoints_okD(5) [OF ok, of j] by (auto simp: accepting_def)
    next
      fix ws sp assume "es_stopping (rebind_claim k addr e st) = Some (ws, sp)"
      then show "set (opt_list ws) \<union> set (opt_list sp) \<subseteq> {..<length (es_servers (rebind_claim k addr e st))}"
        using endpoints_okD(6) [OF ok, of ws sp] by (auto simp: u)
    qed
  qed
qed

lemma stop_ok:
  assumes ok: "endpoints_ok st" and "es_stopping st = Some srvs"
  shows "endpoints_ok (shutdown_stop srvs st)"
proof -
  have one: "endpoints_ok (http_Shutdown x u)"
    if "endpoints_ok u" "es_stopping u \<noteq> None" "set (opt_list x) \<subseteq> {..<length (es_servers u)}" for x u
    using that by (cases x) (auto simp: http_Shutdown_def accepting_def dest: endpoints_okD(3) intro!: upd_server_ok)
  obtain ws sp where s: "srvs = (ws, sp)" by (cases srvs)
  have sub: "set (opt_list ws) \<subseteq> {..<length (es_servers st)}" "set (opt_list sp) \<subseteq> {..<length (es_servers st)}"
    using endpoints_okD(6) [OF ok, of ws sp] assms(2) s by auto
  have "endpoints_ok (http_Shutdown ws st)" using one [OF ok _ sub(1)] assms(2) by simp
  moreover have "es_stopping (http_Shutdown ws st) \<noteq> None" "length (es_servers (http_Shutdown ws st)) = length (es_servers st)"
    using assms(2) by (cases ws; simp add: http_Shutdown_def)+
  ultimately have "endpoints_ok (http_Shutdown sp (http_Shutdown ws st))" using one sub(2) by metis
  moreover have "holders (u\<lparr>es_cancelled := True\<rparr>) = holders u" for u
    by (simp add: holders_def in_hand_def)
  ultimately show ?thesis
    unfolding shutdown_stop_def s by (intro endpoints_ok_cong [where u = "_\<lparr>es_cancelled := True\<rparr>"])
      (simp_all add: endpoints_okD(1))
qed

lemma read_ok: "endpoints_ok st \<Longrightarrow> endpoints_ok (shutdown_read st)"
  by (cases "es_ws st"; cases "es_status st")
    (auto simp: endpoints_ok_def shutdown_read_def holders_def in_hand_def accepting_def)

lemma returns_ok:
  assumes "endpoints_ok st" "i < length (es_servers st)"
  shows "endpoints_ok (serve_returns i e st)"
proof -
  have "endpoints_ok (upd_server i (\<lambda>s. s\<lparr>hs_serving := False\<rparr>) st)"
    using assms endpoints_okD(3) [OF assms(1)] by (intro upd_server_ok) auto
  moreover have "endpoints_ok (u\<lparr>es_errs := x\<rparr>) = endpoints_ok u" for u x
    by (simp add: endpoints_ok_def holders_def in_hand_def accepting_def)
  ultimately show ?thesis by (simp add: serve_returns_def Let_def)
qed

lemma step_ok: "endpoint_step st u \<Longrightarrow> endpoints_ok st \<Longrightarrow> endpoints_ok u"
proof (induction rule: endpoint_step.induct)
  case (shut i st)
  then show ?case
    by (auto simp: http_Shutdown_def accepting_def dest: endpoints_okD(3) intro!: upd_server_ok)
next
  case (retired i st)
  then show ?case
    by (auto simp: retire_done_def dest: endpoints_okD(3) intro!: upd_server_ok)
next
  case (watch_end st)
  then show ?case by (simp add: endpoints_ok_def holders_def in_hand_def accepting_def)
next
  case (sample_end st)
  then show ?case by (simp add: endpoints_ok_def holders_def in_hand_def accepting_def)
next
  case (drain st)
  then show ?case by (simp add: endpoints_ok_def holders_def in_hand_def accepting_def)
next
  case (drained st)
  then show ?case by (simp add: endpoints_ok_def holders_def in_hand_def accepting_def)
qed (auto simp: claim_ok swap_ok retire_ok returns_ok read_ok stop_ok)

lemma steps_ok: "endpoint_steps st u \<Longrightarrow> endpoints_ok st \<Longrightarrow> endpoints_ok u"
  by (induction rule: endpoint_steps.induct) (auto intro: step_ok)

lemma all_less_two: "(\<forall>i < Suc (Suc 0). P i) \<longleftrightarrow> P 0 \<and> P (Suc 0)"
  by (auto simp: less_Suc_eq)

lemma start_ok: "endpoints_ok (snd (Run_start bind cfg no_endpoints))"
  by (cases "bind (cfg_listen cfg)"; cases "bind (cfg_status_listen cfg)"; cases "cfg_status_listen cfg = ''''")
    (simp_all add: Run_start_def serve_def no_endpoints_def endpoints_ok_def holders_def in_hand_def accepting_def
      set_current_def nth_Cons' Let_def all_less_two)

lemma steps_trans: "endpoint_steps t u \<Longrightarrow> endpoint_steps st t \<Longrightarrow> endpoint_steps st u"
  by (induction rule: endpoint_steps.induct) (auto intro: endpoint_steps.more)

lemma step_steps: "endpoint_step st t \<Longrightarrow> endpoint_steps st t"
  by (rule endpoint_steps.more [OF endpoint_steps.here])

section \<open>The entry point stays\<close>

definition ws_kept :: "endpoints \<Rightarrow> bool" where
  "ws_kept st \<longleftrightarrow> es_ws st \<noteq> None \<and> es_rebind st \<noteq> Some (Claimed WsEntry None)"

lemma ws_kept_step: "endpoint_step st u \<Longrightarrow> ws_kept st \<Longrightarrow> ws_kept u"
proof (induction rule: endpoint_step.induct)
  case (claim st k addr e)
  then show ?case
    by (cases k; cases e) (auto simp: ws_kept_def rebind_claim_def serve_def)
next
  case (swap st k fresh)
  then show ?case by (cases k) (auto simp: ws_kept_def rebind_swap_def set_current_def)
next
  case (stop st srvs)
  then show ?case
    by (cases "fst srvs"; cases "snd srvs") (auto simp: ws_kept_def shutdown_stop_def http_Shutdown_def)
qed (auto simp: ws_kept_def rebind_retire_def retireServer_def http_Shutdown_def retire_done_def
    serve_returns_def Let_def shutdown_read_def split: option.splits)

lemma ws_kept_steps: "endpoint_steps st u \<Longrightarrow> ws_kept st \<Longrightarrow> ws_kept u"
  by (induction rule: endpoint_steps.induct) (auto intro: ws_kept_step)

lemma ws_kept_start: "fst (Run_start bind cfg no_endpoints) = None \<Longrightarrow> ws_kept (snd (Run_start bind cfg no_endpoints))"
  by (auto simp: Run_start_def serve_def no_endpoints_def ws_kept_def set_current_def Let_def split: option.splits if_splits)

section \<open>After the watcher\<close>

text \<open>Once the watcher has ended nothing is claimed any more.\<close>

definition quiet :: "endpoints \<Rightarrow> bool" where
  "quiet st \<longleftrightarrow> \<not> es_watching st \<and> es_rebind st = None"

lemma quiet_step: "endpoint_step st u \<Longrightarrow> quiet st \<Longrightarrow> quiet u \<and> length (es_servers u) = length (es_servers st)"
proof (induction rule: endpoint_step.induct)
  case (stop st srvs)
  then show ?case
    by (cases "fst srvs"; cases "snd srvs") (auto simp: quiet_def shutdown_stop_def http_Shutdown_def)
qed (auto simp: quiet_def http_Shutdown_def retire_done_def serve_returns_def Let_def shutdown_read_def)

section \<open>A shutdown that no rebind crosses\<close>

text \<open>Between its reading of the endpoints and its stopping of them, what it has read stays current; after
  that the base context is cancelled and whatever still accepts is being retired.\<close>

definition stop_list_current :: "endpoints \<Rightarrow> bool" where
  "stop_list_current st \<longleftrightarrow> es_rebind st = None \<and> es_stopping st = Some (es_ws st, es_status st)"

definition winding_down :: "endpoints \<Rightarrow> bool" where
  "winding_down st \<longleftrightarrow> es_cancelled st \<and> es_rebind st = None \<and>
     (\<forall>i < length (es_servers st). accepting st i \<longrightarrow> hs_retiring (es_servers st ! i))"

lemma http_Shutdown_simps [simp]:
  "length (es_servers (http_Shutdown x st)) = length (es_servers st)" "es_ws (http_Shutdown x st) = es_ws st"
  "es_status (http_Shutdown x st) = es_status st" "es_rebind (http_Shutdown x st) = es_rebind st"
  "es_stopping (http_Shutdown x st) = es_stopping st" "es_cancelled (http_Shutdown x st) = es_cancelled st"
  "es_errs (http_Shutdown x st) = es_errs st"
  by (cases x; simp add: http_Shutdown_def)+

lemma http_Shutdown_nth:
  "i < length (es_servers st) \<Longrightarrow> es_servers (http_Shutdown x st) ! i =
     (if x = Some i then (es_servers st ! i)\<lparr>hs_in_shutdown := True\<rparr> else es_servers st ! i)"
  by (cases x) (auto simp: http_Shutdown_def)

lemma failed_claim:
  "es_rebind st = None \<Longrightarrow> es_rebind (rebind_claim k addr e st) = None \<Longrightarrow> rebind_claim k addr e st = st"
  by (auto simp: rebind_claim_def serve_def split: if_splits option.splits)

lemma stop_list_step:
  "endpoint_step st u \<Longrightarrow> stop_list_current st \<Longrightarrow> es_rebind u = None \<Longrightarrow> stop_list_current u"
proof (induction rule: endpoint_step.induct)
  case (claim st k addr e)
  then show ?case by (simp add: failed_claim)
qed (auto simp: stop_list_current_def shutdown_stop_def retire_done_def serve_returns_def shutdown_read_def Let_def)

lemma stop_list_steps: "calm_steps st u \<Longrightarrow> stop_list_current st \<Longrightarrow> stop_list_current u"
  by (induction rule: calm_steps.induct) (auto intro: stop_list_step)

lemma calm_steps_steps: "calm_steps st u \<Longrightarrow> endpoint_steps st u"
  by (induction rule: calm_steps.induct) (auto intro: endpoint_steps.intros)

lemma calm_steps_trans: "calm_steps t u \<Longrightarrow> calm_steps st t \<Longrightarrow> calm_steps st u"
  by (induction rule: calm_steps.induct) (auto intro: calm_steps.intros)

lemma stop_winds_down:
  assumes ok: "endpoints_ok st" and cur: "stop_list_current st"
  shows "winding_down (shutdown_stop (es_ws st, es_status st) st)"
  using cur endpoints_okD(5) [OF ok]
  by (simp add: winding_down_def stop_list_current_def shutdown_stop_def accepting_def http_Shutdown_nth
      holders_def in_hand_def set_opt_list split: if_splits) metis

lemma winding_down_step:
  "endpoint_step st u \<Longrightarrow> winding_down st \<Longrightarrow> es_rebind u = None \<Longrightarrow> winding_down u"
proof (induction rule: endpoint_step.induct)
  case (claim st k addr e)
  then show ?case by (simp add: failed_claim)
qed (auto simp: winding_down_def accepting_def shutdown_stop_def http_Shutdown_nth retire_done_def serve_returns_def
    shutdown_read_def Let_def split: if_splits)

lemma winding_down_steps: "calm_steps st u \<Longrightarrow> winding_down st \<Longrightarrow> winding_down u"
  by (induction rule: calm_steps.induct) (auto intro: winding_down_step)

definition server_work :: "http_server \<Rightarrow> nat" where
  "server_work s = of_bool (hs_serving s) + of_bool (hs_retiring s) + of_bool (\<not> hs_in_shutdown s)"

definition work :: "endpoints \<Rightarrow> nat" where
  "work st = sum_list (map server_work (es_servers st)) + of_bool (es_watching st) + of_bool (es_sampling st) + es_drains st"

lemma work_decreases:
  assumes "i < length (es_servers st)" "server_work (f (es_servers st ! i)) < server_work (es_servers st ! i)"
  shows "work (upd_server i f st) < work st"
proof -
  have "sum_list (map g (xs[i := y])) + g (xs ! i) = sum_list (map g xs) + g y" if "i < length xs" for xs y and g :: "_ \<Rightarrow> nat"
    using that
  proof (induction xs arbitrary: i)
    case (Cons x xs)
    then show ?case by (cases i) (auto simp: algebra_simps)
  qed simp
  from this [OF assms(1), of server_work "f (es_servers st ! i)"] assms(2) show ?thesis
    by (simp add: work_def) (simp add: upd_server_def)
qed

text \<open>As long as a goroutine of the wait group runs, one of them has a step that brings the end nearer.\<close>

lemma server_goes_on:
  assumes w: "winding_down st" and i: "i < length (es_servers st)"
    "hs_serving (es_servers st ! i) \<or> hs_retiring (es_servers st ! i)"
  shows "\<exists>t. endpoint_step st t \<and> work t < work st \<and> es_rebind t = None \<and> es_errs t = es_errs st"
proof (cases "hs_retiring (es_servers st ! i)")
  case True
  then show ?thesis
    using w i(1) endpoint_step.shut [OF i(1) True] endpoint_step.retired [OF i(1) True]
      work_decreases [OF i(1), where f = "\<lambda>s. s\<lparr>hs_in_shutdown := True\<rparr>"]
      work_decreases [OF i(1), where f = "\<lambda>s. s\<lparr>hs_retiring := False\<rparr>"]
    by (cases "hs_in_shutdown (es_servers st ! i)")
      (auto simp: http_Shutdown_def retire_done_def server_work_def winding_down_def)
next
  case False
  then have s: "hs_serving (es_servers st ! i)" "hs_in_shutdown (es_servers st ! i)"
    using i w by (auto simp: winding_down_def accepting_def)
  then have "serve_returns i e st = upd_server i (\<lambda>s. s\<lparr>hs_serving := False\<rparr>) st" for e
    by (simp add: serve_returns_def Let_def)
  then show ?thesis
    using w endpoint_step.returns [OF i(1) s(1)] s
      work_decreases [OF i(1), where f = "\<lambda>s. s\<lparr>hs_serving := False\<rparr>"]
    by (auto simp: server_work_def winding_down_def)
qed

lemma winding_down_goes_on:
  assumes w: "winding_down st" and "\<not> all_done st"
  shows "\<exists>t. endpoint_step st t \<and> work t < work st \<and> es_rebind t = None \<and> es_errs t = es_errs st"
proof -
  note c = w [unfolded winding_down_def]
  consider "es_watching st" | "es_sampling st" | "0 < es_drains st"
    | i where "i < length (es_servers st)" "hs_serving (es_servers st ! i) \<or> hs_retiring (es_servers st ! i)"
    using assms(2) by (auto simp: all_done_def list_all_length)
  then show ?thesis
  proof cases
    case 1
    then show ?thesis
      using c endpoint_step.watch_end [of st] by (intro exI [of _ "st\<lparr>es_watching := False\<rparr>"]) (simp add: work_def)
  next
    case 2
    then show ?thesis
      using c endpoint_step.sample_end [of st] by (intro exI [of _ "st\<lparr>es_sampling := False\<rparr>"]) (simp add: work_def)
  next
    case 3
    then show ?thesis
      using c endpoint_step.drained [of st] by (intro exI [of _ "st\<lparr>es_drains := es_drains st - 1\<rparr>"]) (simp add: work_def)
  qed (rule server_goes_on [OF w])
qed

lemma winding_down_ends:
  "winding_down st \<Longrightarrow> \<exists>u. calm_steps st u \<and> all_done u \<and> es_errs u = es_errs st"
proof (induction "work st" arbitrary: st rule: less_induct)
  case less
  show ?case
  proof (cases "all_done st")
    case True
    then show ?thesis using calm_here by blast
  next
    case False
    then obtain t where t: "endpoint_step st t" "work t < work st" "es_rebind t = None" "es_errs t = es_errs st"
      using winding_down_goes_on [OF less.prems] by blast
    from less.hyps [OF t(2) winding_down_step [OF t(1) less.prems t(3)]] t(4)
      calm_more [OF calm_here t(1,3)] show ?thesis
      using calm_steps_trans by metis
  qed
qed

lemma count_list_distinct: "distinct xs \<Longrightarrow> count_list xs x = (if x \<in> set xs then 1 else 0)"
  by (induction xs) auto

lemma steps_start_ok: "endpoint_steps (snd (Run_start bind cfg no_endpoints)) st \<Longrightarrow> endpoints_ok st"
  using steps_ok start_ok by blast

text \<open>What is left of a server that is on no list of the shutdown and that nobody retires.\<close>

definition orphan :: "nat \<Rightarrow> endpoints \<Rightarrow> bool" where
  "orphan i st \<longleftrightarrow> quiet st \<and> i < length (es_servers st) \<and>
     \<not> hs_in_shutdown (es_servers st ! i) \<and> \<not> hs_retiring (es_servers st ! i) \<and>
     (\<exists>ws sp. es_stopping st = Some (ws, sp) \<and> ws \<noteq> Some i \<and> sp \<noteq> Some i)"

lemma orphan_step: "endpoint_step st u \<Longrightarrow> orphan i st \<Longrightarrow> orphan i u"
proof (induction rule: endpoint_step.induct)
  case (stop st srvs)
  then show ?case
    by (cases "fst srvs"; cases "snd srvs") (auto simp: orphan_def quiet_def shutdown_stop_def http_Shutdown_def)
qed (auto simp: orphan_def quiet_def http_Shutdown_def retire_done_def serve_returns_def Let_def)

lemma orphan_steps: "endpoint_steps st u \<Longrightarrow> orphan i st \<Longrightarrow> orphan i u"
  by (induction rule: endpoint_steps.induct) (auto intro: orphan_step)

section \<open>Properties\<close>

text \<open>C5: No reload leaks an endpoint and none leaves the server deaf. Whatever reloads, failed binds,
  retirements and errors interleave, a server that accepts is held exactly once: as the entry
  point, as the status page, in the hand of the watcher that is swapping it, or by the goroutine
  that retires it. There is always an entry point, it is never the one being retired, and nothing
  shuts it down before the process stops.\<close>

theorem endpoints_accounted:
  assumes "fst (Run_start bind cfg no_endpoints) = None"
    and "endpoint_steps (snd (Run_start bind cfg no_endpoints)) st"
  shows "(\<forall>i < length (es_servers st). accepting st i \<longrightarrow>
      count_list (holders st) i + (if hs_retiring (es_servers st ! i) then 1 else 0) = 1) \<and>
    (\<exists>ws < length (es_servers st). es_ws st = Some ws \<and> \<not> hs_retiring (es_servers st ! ws) \<and>
      (es_stopping st = None \<longrightarrow> \<not> hs_in_shutdown (es_servers st ! ws)))"
proof -
  have ok: "endpoints_ok st" using steps_start_ok assms(2) by blast
  obtain ws where ws: "es_ws st = Some ws"
    using ws_kept_steps [OF assms(2) ws_kept_start [OF assms(1)]] by (auto simp: ws_kept_def)
  then have "ws \<in> set (holders st)" by (simp add: holders_def)
  then show ?thesis
    using ws endpoints_okD [OF ok] by (auto simp: count_list_distinct)
qed

text \<open>C27: A shutdown that no rebind crosses completes. The endpoints are at rest when it reads them, and
  whatever the goroutines do between that and the stopping of the servers, and after it, short of a
  rebind: an endpoint that still accepts is then being retired, and they can go on until every
  endpoint is closed, the watcher, \<open>sampleRates\<close>, the retirements and the drains have ended, and with
  them the wait for the whole wait group, without any endpoint having to fail for it.\<close>

theorem shutdown_completes:
  assumes "endpoint_steps (snd (Run_start bind cfg no_endpoints)) st"
    and "es_stopping st = None" and "es_rebind st = None"
    and "calm_steps (shutdown_read st) t" and "es_stopping t = Some srvs"
    and "calm_steps (shutdown_stop srvs t) u"
  shows "(\<forall>i < length (es_servers u). accepting u i \<longrightarrow> hs_retiring (es_servers u ! i)) \<and>
    (\<exists>v. calm_steps u v \<and> all_done v \<and> es_errs v = es_errs u)"
proof -
  have "endpoints_ok t"
    using steps_start_ok [OF assms(1)] steps_ok [OF calm_steps_steps [OF assms(4)]] read_ok by blast
  moreover have cur: "stop_list_current t"
    using assms(3) by (intro stop_list_steps [OF assms(4)]) (simp add: stop_list_current_def shutdown_read_def)
  moreover have "srvs = (es_ws t, es_status t)" using cur assms(5) by (simp add: stop_list_current_def)
  ultimately have "winding_down u" using stop_winds_down winding_down_steps [OF assms(6)] by blast
  then show ?thesis using winding_down_ends unfolding winding_down_def by blast
qed

text \<open>C37: A rebind that crosses the shutdown makes it hang. If the watcher has claimed a new address when
  the shutdown reads the endpoints, and swaps them after, the new server is on nobody's list: the
  watcher retires the old one and ends, the shutdown stops the old one, and nothing ever shuts the
  new one down. It goes on accepting, and as long as it does the wait of \<open>shutdown\<close> does not end.\<close>

theorem rebind_outlives_shutdown:
  fixes st k i
  defines "st1 \<equiv> rebind_retire (es_current k st) (rebind_swap k (Some i) (shutdown_read st))"
  defines "st2 \<equiv> (shutdown_stop (es_ws st, es_status st) st1)\<lparr>es_watching := False\<rparr>"
  assumes "endpoint_steps (snd (Run_start bind cfg no_endpoints)) st"
    and "es_stopping st = None" and "es_rebind st = Some (Claimed k (Some i))"
    and "hs_serving (es_servers st ! i)"
  shows "endpoint_steps st st2 \<and> accepting st2 i \<and>
    (endpoint_steps st2 u \<longrightarrow> \<not> hs_in_shutdown (es_servers u ! i) \<and> (hs_serving (es_servers u ! i) \<longrightarrow> \<not> all_done u))"
proof -
  note ok = steps_start_ok [OF assms(3)]
  have i: "i < length (es_servers st)" "\<not> hs_retiring (es_servers st ! i)" "\<not> hs_in_shutdown (es_servers st ! i)"
    "es_ws st \<noteq> Some i" "es_status st \<noteq> Some i"
    using endpoints_okD(1) [OF ok] endpoints_okD(2-4) [OF ok, of i] assms(4,5) by (auto simp: holders_def in_hand_def)
  have cur: "es_current k (shutdown_read st) = es_current k st" "es_rebind (shutdown_read st) = es_rebind st"
    by (cases k; simp add: es_current_def shutdown_read_def)+
  have stop: "es_stopping st1 = Some (es_ws st, es_status st)"
    by (cases "es_current k st") (simp_all add: st1_def rebind_retire_def retireServer_def rebind_swap_def shutdown_read_def)
  have quiet: "es_rebind (shutdown_stop (es_ws st, es_status st) st1) = None"
    "es_cancelled (shutdown_stop (es_ws st, es_status st) st1)"
    by (cases "es_ws st"; cases "es_status st"; simp add: shutdown_stop_def http_Shutdown_def st1_def rebind_retire_def)+
  have "endpoint_steps st (shutdown_read st)" using endpoint_step.read [OF assms(4)] by (rule step_steps)
  moreover have "endpoint_step (shutdown_read st) (rebind_swap k (Some i) (shutdown_read st))"
    using assms(5) cur(2) by (intro endpoint_step.swap) simp
  moreover have "endpoint_step (rebind_swap k (Some i) (shutdown_read st)) st1"
    unfolding st1_def cur(1) [symmetric] by (rule endpoint_step.retire) (simp add: rebind_swap_def)
  moreover have "endpoint_step st1 (shutdown_stop (es_ws st, es_status st) st1)" using stop by (rule endpoint_step.stop)
  moreover have "endpoint_step (shutdown_stop (es_ws st, es_status st) st1) st2"
    unfolding st2_def using quiet(2,1) by (rule endpoint_step.watch_end)
  ultimately have run: "endpoint_steps st st2" by (meson endpoint_steps.more)
  have "es_current k st \<noteq> Some i" using i by (cases k) (simp_all add: es_current_def)
  then have orphan: "orphan i st2 \<and> hs_serving (es_servers st2 ! i)"
    using i quiet(1) stop assms(6)
    by (cases "es_ws st"; cases "es_status st"; cases "es_current k st")
      (auto simp: orphan_def quiet_def st2_def st1_def shutdown_stop_def http_Shutdown_def rebind_retire_def
        retireServer_def rebind_swap_def shutdown_read_def)
  then have "endpoint_steps st2 u \<Longrightarrow> orphan i u" using orphan_steps by blast
  then show ?thesis
    using run orphan by (auto simp: orphan_def accepting_def all_done_def list_all_length)
qed

text \<open>The witnesses: the entry point of the sample configuration is being moved.\<close>

definition moving :: endpoints where
  "moving = rebind_claim WsEntry '':82'' None (snd (Run_start (\<lambda>_. None) sample_config no_endpoints))"

lemma moving_reached: "endpoint_steps (snd (Run_start (\<lambda>_. None) sample_config no_endpoints)) moving"
  unfolding moving_def
  by (intro step_steps endpoint_step.claim)
    (simp_all add: Run_start_def sample_config_def serve_def no_endpoints_def Let_def)

lemma moving_state:
  "es_rebind moving = Some (Claimed WsEntry (Some 1))" "es_stopping moving = None"
  "length (es_servers moving) = 2" "hs_serving (es_servers moving ! 1)" "accepting moving 0"
  by code_simp+

theorem endpoints_accounted_witness:
  "fst (Run_start (\<lambda>_. None) sample_config no_endpoints) = None \<and> count_list (holders moving) 0 = 1"
proof -
  have "fst (Run_start (\<lambda>_. None) sample_config no_endpoints) = None" "\<not> hs_retiring (es_servers moving ! 0)"
    by code_simp+
  then show ?thesis using endpoints_accounted [OF _ moving_reached] moving_state by force
qed

lemma sample_errs: "es_errs (snd (Run_start (\<lambda>_. None) sample_config no_endpoints)) = []"
  by code_simp

theorem shutdown_completes_witness:
  "\<exists>v. calm_steps (shutdown_stop (Some 0, None) ((shutdown_read
      (snd (Run_start (\<lambda>_. None) sample_config no_endpoints)))\<lparr>es_drains := 1\<rparr>)) v \<and> all_done v \<and> es_errs v = []"
proof -
  let ?s = "snd (Run_start (\<lambda>_. None) sample_config no_endpoints)"
  have s: "es_stopping ?s = None" "es_rebind ?s = None" "es_ws ?s = Some 0" "es_status ?s = None"
    "es_drains ?s = 0" "es_watching ?s"
    by code_simp+
  have "endpoint_step (shutdown_read ?s) ((shutdown_read ?s)\<lparr>es_drains := 1\<rparr>)"
    using endpoint_step.drain [of "shutdown_read ?s"] s by (simp add: shutdown_read_def)
  then have "calm_steps (shutdown_read ?s) ((shutdown_read ?s)\<lparr>es_drains := 1\<rparr>)"
    using s by (intro calm_more [OF calm_here]) (simp_all add: shutdown_read_def)
  from shutdown_completes [OF endpoint_steps.here s(1,2) this _ calm_here, of "(Some 0, None)"] show ?thesis
    using s by (simp add: shutdown_stop_def shutdown_read_def sample_errs)
qed

theorem rebind_outlives_shutdown_witness:
  "accepting ((shutdown_stop (Some 0, None) (rebind_retire (Some 0) (rebind_swap WsEntry (Some 1)
      (shutdown_read moving))))\<lparr>es_watching := False\<rparr>) 1"
proof -
  have "es_ws moving = Some 0" "es_status moving = None" "es_current WsEntry moving = Some 0" by code_simp+
  then show ?thesis
    using rebind_outlives_shutdown [OF moving_reached moving_state(2,1,4)] by simp
qed

section \<open>The addresses\<close>

text \<open>Server_Control knows of an endpoint only its address. One rebind after the other, without
  interruption, does on the servers what \<open>rebindEndpoints\<close> does there on the addresses.\<close>

definition endpoint_addr :: "endpoint_kind \<Rightarrow> endpoints \<Rightarrow> string" where
  "endpoint_addr k st =
     (case es_current k st of None \<Rightarrow> '''' | Some i \<Rightarrow> hs_addr (es_servers st ! i))"

definition finish_rebind :: "endpoints \<Rightarrow> endpoints" where
  "finish_rebind st =
     (case es_rebind st of
        Some (Claimed k fresh) \<Rightarrow> rebind_retire (es_current k st) (rebind_swap k fresh st)
      | _ \<Rightarrow> st)"

definition rebind_one :: "(string \<Rightarrow> string option) \<Rightarrow> endpoint_kind \<Rightarrow> string \<Rightarrow> string \<Rightarrow> endpoints \<Rightarrow> endpoints" where
  "rebind_one bind k old new st =
     (if old = new then st else finish_rebind (rebind_claim k new (bind new) st))"

definition rebind_servers :: "(string \<Rightarrow> string option) \<Rightarrow> config \<Rightarrow> config \<Rightarrow> endpoints \<Rightarrow> endpoints" where
  "rebind_servers bind old new st =
     rebind_one bind StatusPage (cfg_status_listen old) (cfg_status_listen new)
       (rebind_one bind WsEntry (cfg_listen old) (cfg_listen new) st)"

definition same_addresses :: "endpoints \<Rightarrow> server \<Rightarrow> bool" where
  "same_addresses st sv \<longleftrightarrow>
     es_rebind st = None \<and> set (opt_list (es_ws st) @ opt_list (es_status st)) \<subseteq> {..<length (es_servers st)} \<and>
     endpoint_addr WsEntry st = sv_ws_addr sv \<and> endpoint_addr StatusPage st = sv_status_addr sv"

lemma rebind_ws_addresses:
  assumes "same_addresses st sv"
  shows "same_addresses (rebind_one bind WsEntry old new st)
    (if old \<noteq> new \<and> bind new = None then sv\<lparr>sv_ws_addr := new\<rparr> else sv)"
  using assms
  by (cases "es_ws st"; cases "es_status st"; cases "bind new")
    (auto simp: same_addresses_def rebind_one_def rebind_claim_def serve_def finish_rebind_def rebind_swap_def
      rebind_retire_def retireServer_def set_current_def es_current_def endpoint_addr_def upd_server_def nth_append
      nth_list_update)

lemma rebind_status_addresses:
  assumes "same_addresses st sv"
  shows "same_addresses (rebind_one bind StatusPage old new st)
    (if old = new \<or> new \<noteq> '''' \<and> bind new \<noteq> None then sv else sv\<lparr>sv_status_addr := new\<rparr>)"
  using assms
  by (cases "es_ws st"; cases "es_status st"; cases "bind new"; cases "new = ''''")
    (auto simp: same_addresses_def rebind_one_def rebind_claim_def serve_def finish_rebind_def rebind_swap_def
      rebind_retire_def retireServer_def set_current_def es_current_def endpoint_addr_def upd_server_def nth_append
      nth_list_update)

theorem rebind_refines_addresses:
  assumes "same_addresses st sv"
  shows "same_addresses (rebind_servers bind old new st) (rebindEndpoints (\<lambda>a. bind a = None) old new sv)"
proof -
  let ?sv1 = "if cfg_listen old \<noteq> cfg_listen new \<and> bind (cfg_listen new) = None
    then sv\<lparr>sv_ws_addr := cfg_listen new\<rparr> else sv"
  let ?so = "cfg_status_listen old" and ?sn = "cfg_status_listen new"
  have "rebindEndpoints (\<lambda>a. bind a = None) old new sv =
      (if ?so = ?sn \<or> ?sn \<noteq> '''' \<and> bind ?sn \<noteq> None then ?sv1 else ?sv1\<lparr>sv_status_addr := ?sn\<rparr>)"
    unfolding rebindEndpoints_def Let_def by presburger
  then show ?thesis
    unfolding rebind_servers_def
    by (elim ssubst) (rule rebind_status_addresses [OF rebind_ws_addresses [OF assms]])
qed

theorem Run_start_refines_addresses:
  "fst (Run_start bind cfg no_endpoints) = fst (run_binds bind (newServer cfg)) \<and>
   same_addresses (snd (Run_start bind cfg no_endpoints)) (snd (run_binds bind (newServer cfg)))"
  by (cases "bind (cfg_listen cfg)"; cases "bind (cfg_status_listen cfg)"; cases "cfg_status_listen cfg = ''''")
    (auto simp: Run_start_def run_binds_def newServer_def serve_def no_endpoints_def same_addresses_def
      set_current_def es_current_def endpoint_addr_def Let_def)

end
