(* ===== verification/Commands.thy ===== *)
theory Commands
  imports Command_Line Exposure Endpoints
begin

text \<open>
  The two programs, cmd/tunnel-client/main.go and cmd/tunnel-server/main.go, and the loop of
  \<open>Client.Run\<close> as the client's program sees it. What the process meets is an argument: its arguments
  and environment, what a bind returns and when, and the rounds of the loop. The result lists what is
  printed, the errors logged (when the level lets them through), the exit code and the client that ran;
  a process that is still running has no exit code.
\<close>

section \<open>The loop of the client\<close>

text \<open>A round of \<open>Run\<close>: whether the context is done at its start, what the session does to the client and
  returns, how long it lasted, and whether the context is done after it and during the wait.\<close>

record run_round =
  rr_done_before :: bool
  rr_session :: "client \<Rightarrow> string option \<times> client"
  rr_lasted :: duration
  rr_done_after :: bool
  rr_done_waiting :: bool

fun client_Run :: "duration \<Rightarrow> run_round list \<Rightarrow> client \<Rightarrow> string option option \<times> client" where
  "client_Run backoff [] c = (None, c)"
| "client_Run backoff (r # rs) c =
     (if rr_done_before r then (Some None, c)
      else (case rr_session r c of
              (err, c1) \<Rightarrow>
                if rr_done_after r then (Some None, c1)
                else if rr_done_waiting r then (Some None, session_ended err c1)
                else client_Run (snd (backoff_round (rr_lasted r) backoff)) rs (session_ended err c1)))"

section \<open>tunnel-client\<close>

record command_result =
  cm_stdout :: "string list"
  cm_log :: "string list"
  cm_usage :: bool
  cm_exit :: "nat option"
  cm_client :: "client option"

definition command_exit :: "nat \<Rightarrow> command_result" where
  "command_exit n = \<lparr>cm_stdout = [], cm_log = [], cm_usage = False, cm_exit = Some n, cm_client = None\<rparr>"

text \<open>\<open>newLogger\<close>: the level of the handler, info when the text is no level; a record of level error is 8.\<close>

definition newLogger :: "string \<Rightarrow> int" where
  "newLogger level = (case UnmarshalLevel level of None \<Rightarrow> 0 | Some lv \<Rightarrow> lv)"

definition log_error :: "int \<Rightarrow> string \<Rightarrow> string list" where
  "log_error lv msg = (if lv \<le> 8 then [msg] else [])"

definition client_flags :: "(string \<Rightarrow> string option) \<Rightarrow> flag_set" where
  "client_flags env =
     [(''url'', FString (Getenv env ''TUNNEL_URL'')), (''key'', FString (Getenv env ''TUNNEL_KEY'')),
      (''node'', FString (Getenv env ''TUNNEL_NODE'')),
      (''status-listen'', FString (Getenv env ''TUNNEL_STATUS_LISTEN'')),
      (''log-level'', FString ''info''), (''version'', FBool False)]"

text \<open>The status page of the client: when the bind returns and with what, when \<open>Serve\<close> returns after it,
  and which branch the select takes if both are ready at 200 ms.\<close>

record client_world =
  cw_listen :: "string \<Rightarrow> duration \<times> (string + net_addr)"
  cw_served :: "(duration \<times> http_end) option"
  cw_tie :: bool
  cw_rounds :: "run_round list"

definition status_returns :: "client_world \<Rightarrow> string \<Rightarrow> (duration \<times> string option) option" where
  "status_returns w addr =
     (case cw_listen w addr of
        (t, Inl e) \<Rightarrow> Some (t, snd (ServeStatus (Inl e) ServedNil))
      | (t, Inr a) \<Rightarrow> map_option (\<lambda>(t', h). (t + t', snd (ServeStatus (Inr a) h))) (cw_served w))"

definition status_grace :: duration where
  "status_grace = 200000000"

definition status_failure :: "client_world \<Rightarrow> string \<Rightarrow> string option" where
  "status_failure w addr =
     (case status_returns w addr of
        None \<Rightarrow> None
      | Some (t, err) \<Rightarrow> if t < status_grace \<or> t = status_grace \<and> cw_tie w then err else None)"

text \<open>The body of main once the flags are read, and the goroutine that waits for a signal: \<open>Shutdown\<close>,
  then the context is cancelled.\<close>

definition client_body ::
  "client_world \<Rightarrow> string \<Rightarrow> string \<Rightarrow> string \<Rightarrow> string \<Rightarrow> string \<Rightarrow> command_result" where
  "client_body w url key node status_at level =
     (let lv = newLogger level
      in if TrimSpace url = '''' \<or> TrimSpace key = ''''
         then (command_exit 2)\<lparr>cm_log := log_error lv
                 ''both --url and --key are required (or TUNNEL_URL / TUNNEL_KEY)'', cm_usage := True\<rparr>
         else (let c = new_client url key node; addr = TrimSpace status_at
               in if addr \<noteq> '''' \<and> status_failure w addr \<noteq> None
                  then (command_exit 1)\<lparr>cm_log := log_error lv ''client status endpoint failed''\<rparr>
                  else (case client_Run minBackoff (cw_rounds w) c of
                          (None, c') \<Rightarrow> (command_exit 0)\<lparr>cm_exit := None, cm_client := Some c'\<rparr>
                        | (Some None, c') \<Rightarrow> (command_exit 0)\<lparr>cm_client := Some c'\<rparr>
                        | (Some (Some e), c') \<Rightarrow>
                            (command_exit 1)\<lparr>cm_log := log_error lv ''client stopped with an error'',
                              cm_client := Some c'\<rparr>)))"

definition on_signal :: "time \<Rightarrow> (int \<times> time) list \<Rightarrow> client \<Rightarrow> client \<times> (nat \<times> message) list \<times> bool" where
  "on_signal deadline looks c =
     (let c' = shutdown_begin c
      in if shutdown_wait deadline looks then (c', shutdown_bye c', True) else (c', [], False))"

definition client_main ::
  "string \<Rightarrow> (string \<Rightarrow> string option) \<Rightarrow> client_world \<Rightarrow> string list \<Rightarrow> command_result" where
  "client_main version env w args =
     (case flag_parse (client_flags env) args of
        Inl e \<Rightarrow> (command_exit (flag_exit e))\<lparr>cm_usage := True\<rparr>
      | Inr (fs, _) \<Rightarrow>
          if flag_bool fs ''version'' then (command_exit 0)\<lparr>cm_stdout := [''tunnel-client '' @ version]\<rparr>
          else client_body w (flag_string fs ''url'') (flag_string fs ''key'') (flag_string fs ''node'')
                 (flag_string fs ''status-listen'') (flag_string fs ''log-level''))"

section \<open>tunnel-server\<close>

definition server_flags :: flag_set where
  "server_flags =
     [(''config'', FString ''config.yaml''), (''log-level'', FString ''info''), (''version'', FBool False)]"

text \<open>\<open>Run\<close> of the server as its program sees it: the binds, and what the last select returns, if it does.\<close>

record server_world =
  sw_new :: "string \<Rightarrow> string + config"
  sw_bind :: "string \<Rightarrow> string option"
  sw_woken :: "string option option"

definition server_Run :: "server_world \<Rightarrow> config \<Rightarrow> string option option" where
  "server_Run w cfg =
     (case fst (Run_start (sw_bind w) cfg no_endpoints) of
        Some e \<Rightarrow> Some (Some e)
      | None \<Rightarrow> sw_woken w)"

definition server_main :: "string \<Rightarrow> server_world \<Rightarrow> string list \<Rightarrow> command_result" where
  "server_main version w args =
     (case flag_parse server_flags args of
        Inl e \<Rightarrow> (command_exit (flag_exit e))\<lparr>cm_usage := True\<rparr>
      | Inr (fs, _) \<Rightarrow>
          if flag_bool fs ''version'' then (command_exit 0)\<lparr>cm_stdout := [''tunnel-server '' @ version]\<rparr>
          else (let lv = newLogger (flag_string fs ''log-level'')
                in case sw_new w (flag_string fs ''config'') of
                     Inl e \<Rightarrow> (command_exit 1)\<lparr>cm_log := log_error lv ''cannot start''\<rparr>
                   | Inr cfg \<Rightarrow>
                       (case server_Run w cfg of
                          None \<Rightarrow> (command_exit 0)\<lparr>cm_exit := None\<rparr>
                        | Some None \<Rightarrow> command_exit 0
                        | Some (Some e) \<Rightarrow>
                            (command_exit 1)\<lparr>cm_log := log_error lv ''server stopped with an error''\<rparr>)))"

section \<open>The command line of the client\<close>

datatype client_option = UrlOption | KeyOption | NodeOption | StatusOption | LevelOption

definition option_name :: "client_option \<Rightarrow> string" where
  "option_name opt =
     (case opt of UrlOption \<Rightarrow> ''url'' | KeyOption \<Rightarrow> ''key'' | NodeOption \<Rightarrow> ''node''
      | StatusOption \<Rightarrow> ''status-listen'' | LevelOption \<Rightarrow> ''log-level'')"

definition option_default :: "(string \<Rightarrow> string option) \<Rightarrow> client_option \<Rightarrow> string" where
  "option_default env opt =
     (case opt of UrlOption \<Rightarrow> Getenv env ''TUNNEL_URL'' | KeyOption \<Rightarrow> Getenv env ''TUNNEL_KEY''
      | NodeOption \<Rightarrow> Getenv env ''TUNNEL_NODE'' | StatusOption \<Rightarrow> Getenv env ''TUNNEL_STATUS_LISTEN''
      | LevelOption \<Rightarrow> ''info'')"

type_synonym given_option = "flag_style \<times> client_option \<times> string"

definition option_args :: "given_option list \<Rightarrow> string list" where
  "option_args given = concat (map (\<lambda>(st, opt, v). flag_args st (option_name opt) v) given)"

text \<open>The last value given for an option, else its default.\<close>

definition setting :: "(string \<Rightarrow> string option) \<Rightarrow> given_option list \<Rightarrow> client_option \<Rightarrow> string" where
  "setting env given opt =
     (case map_of (rev (map snd given)) opt of Some v \<Rightarrow> v | None \<Rightarrow> option_default env opt)"

lemma option_name_simps [simp]:
  "option_name a = option_name b \<longleftrightarrow> a = b" "plain_name (option_name a)" "option_name a \<noteq> ''version''"
  by (cases a; cases b; simp add: option_name_def plain_name_def)+

lemma client_flags_option: "map_of (client_flags env) (option_name opt) = Some (FString (option_default env opt))"
  by (cases opt) (simp_all add: client_flags_def option_name_def option_default_def)

lemma map_of_option_names:
  "map_of (map (\<lambda>(opt, v). (option_name opt, v)) ovs) (option_name opt) = map_of ovs opt"
  "map_of (map (\<lambda>(opt, v). (option_name opt, v)) ovs) ''version'' = None"
  by (induction ovs) (auto simp: option_name_simps(3) [symmetric])

lemma client_flags_parsed:
  assumes "rest = [] \<or> \<not> flag_like (hd rest)"
  shows "flag_parse (client_flags env) (option_args given @ rest) =
    Inr (set_strings (map (\<lambda>(opt, v). (option_name opt, v)) (map snd given)) (client_flags env), rest)"
proof -
  let ?opts = "map (\<lambda>(st, opt, v). (st, option_name opt, v)) given"
  have "concat (map (\<lambda>(st, n, v). flag_args st n v) ?opts) = option_args given"
    by (simp add: option_args_def comp_def split_def)
  moreover have "map snd ?opts = map (\<lambda>(opt, v). (option_name opt, v)) (map snd given)"
    by (simp add: split_def)
  moreover have "plain_name n \<and> (\<exists>u. map_of (client_flags env) n = Some (FString u))"
    if "(st, n, v) \<in> set ?opts" for st n v
    using that client_flags_option by force
  from flag_parse_plain [OF this assms]
  have "flag_parse (client_flags env) (concat (map (\<lambda>(st, n, v). flag_args st n v) ?opts) @ rest) =
      Inr (set_strings (map snd ?opts) (client_flags env), rest)" .
  ultimately show ?thesis by (simp only:)
qed

lemma flag_string_setting:
  "flag_string (set_strings (map (\<lambda>(opt, v). (option_name opt, v)) (map snd given)) (client_flags env))
     (option_name opt) = setting env given opt"
  unfolding flag_string_def map_of_set_strings rev_map map_of_option_names(1)
  by (simp add: setting_def client_flags_option rev_map split: option.splits)

text \<open>C33: The client takes for each option the last value on its command line, in whatever of the four
  ways it is written, and the environment's where the command line gives none; what follows the options is
  ignored.\<close>

theorem client_command_line:
  assumes "rest = [] \<or> \<not> flag_like (hd rest)"
  shows "client_main version env w (option_args given @ rest) =
    client_body w (setting env given UrlOption) (setting env given KeyOption) (setting env given NodeOption)
      (setting env given StatusOption) (setting env given LevelOption)"
proof -
  let ?fs = "set_strings (map (\<lambda>(opt, v). (option_name opt, v)) (map snd given)) (client_flags env)"
  have "\<not> flag_bool ?fs ''version''"
    unfolding flag_bool_def map_of_set_strings rev_map map_of_option_names(2)
    by (simp add: client_flags_def)
  moreover have "flag_string ?fs (option_name opt) = setting env given opt" for opt
    by (rule flag_string_setting)
  from this [of UrlOption] this [of KeyOption] this [of NodeOption] this [of StatusOption] this [of LevelOption]
  have "flag_string ?fs ''url'' = setting env given UrlOption"
    "flag_string ?fs ''key'' = setting env given KeyOption"
    "flag_string ?fs ''node'' = setting env given NodeOption"
    "flag_string ?fs ''status-listen'' = setting env given StatusOption"
    "flag_string ?fs ''log-level'' = setting env given LevelOption"
    by (simp_all add: option_name_def)
  ultimately show ?thesis by (simp add: client_main_def client_flags_parsed [OF assms])
qed

definition idle_world :: client_world where
  "idle_world = \<lparr>cw_listen = (\<lambda>_. (0, Inr OtherAddr)), cw_served = None, cw_tie = False,
     cw_rounds = [\<lparr>rr_done_before = True, rr_session = Pair None, rr_lasted = 0, rr_done_after = False,
                   rr_done_waiting = False\<rparr>]\<rparr>"

theorem client_command_line_witness:
  "client_main ''dev'' (map_of [(''TUNNEL_URL'', ''ws://a/ws''), (''TUNNEL_KEY'', ''k1'')]) idle_world
     [''--key=k2'', ''-node'', ''n1'', ''extra''] =
   client_body idle_world ''ws://a/ws'' ''k2'' ''n1'' '''' ''info''"
  using client_command_line [of "[''extra'']" "''dev''"
      "map_of [(''TUNNEL_URL'', ''ws://a/ws''), (''TUNNEL_KEY'', ''k1'')]" idle_world
      "[(\<lparr>two_dashes = True, with_equals = True\<rparr>, KeyOption, ''k2''),
        (\<lparr>two_dashes = False, with_equals = False\<rparr>, NodeOption, ''n1'')]"]
  by (simp add: option_args_def flag_args_def option_name_def setting_def option_default_def Getenv_def
      flag_like_def)

section \<open>Exit codes\<close>

text \<open>\<open>Run\<close> of the client returns nil or not at all: no failed session ends the process.\<close>

lemma client_Run_nil: "fst (client_Run b rs c) = None \<or> fst (client_Run b rs c) = Some None"
  by (induction rs arbitrary: b c) (auto simp: Let_def split: prod.splits)

lemma client_body_run:
  assumes "TrimSpace url \<noteq> ''''" "TrimSpace key \<noteq> ''''"
    and "TrimSpace status_at = '''' \<or> status_failure w (TrimSpace status_at) = None"
  shows "client_body w url key node status_at level =
    (command_exit 0)\<lparr>cm_exit := map_option (\<lambda>_. 0) (fst (client_Run minBackoff (cw_rounds w) (new_client url key node))),
      cm_client := Some (snd (client_Run minBackoff (cw_rounds w) (new_client url key node)))\<rparr>"
  using assms client_Run_nil [of minBackoff "cw_rounds w" "new_client url key node"]
  by (cases "client_Run minBackoff (cw_rounds w) (new_client url key node)")
    (auto simp: client_body_def Let_def command_exit_def)

text \<open>A status page that cannot be bound ends the client with exit code 1 exactly when the bind fails
  within 200 ms; a bind that fails later, as after a slow lookup of the host, goes unnoticed: nothing is logged
  and the client runs without the page that was asked for.\<close>

theorem late_status_failure:
  assumes "TrimSpace url \<noteq> ''''" "TrimSpace key \<noteq> ''''" "TrimSpace status_at \<noteq> ''''"
    and "cw_listen w (TrimSpace status_at) = (t, Inl e)"
  shows "(cm_exit (client_body w url key node status_at level) = Some 1 \<longleftrightarrow>
      t < status_grace \<or> t = status_grace \<and> cw_tie w) \<and>
    (status_grace < t \<longrightarrow>
      cm_log (client_body w url key node status_at level) = [] \<and>
      cm_client (client_body w url key node status_at level) \<noteq> None)"
proof -
  let ?in_time = "t < status_grace \<or> t = status_grace \<and> cw_tie w"
  have f: "status_failure w (TrimSpace status_at) \<noteq> None \<longleftrightarrow> ?in_time"
    using assms(4) by (simp add: status_failure_def status_returns_def ServeStatus_def)
  have early: "cm_exit (client_body w url key node status_at level) = Some 1" if ?in_time
    using that assms(1,2,3) f by (simp add: client_body_def Let_def command_exit_def)
  have late: "cm_exit (client_body w url key node status_at level) \<noteq> Some 1 \<and>
      cm_log (client_body w url key node status_at level) = [] \<and>
      cm_client (client_body w url key node status_at level) \<noteq> None" if "\<not> ?in_time"
    using client_body_run [of url key status_at w node level] that assms(1,2) f
    by (auto simp: command_exit_def)
  show ?thesis using early late by auto
qed

theorem late_status_failure_witness:
  "cm_exit (client_body (idle_world\<lparr>cw_listen := (\<lambda>_. (second, Inl ''no such host''))\<rparr>)
      ''ws://a/ws'' ''k1'' '''' ''status.lan:9101'' ''info'') \<noteq> Some 1 \<and>
   cm_client (client_body (idle_world\<lparr>cw_listen := (\<lambda>_. (second, Inl ''no such host''))\<rparr>)
      ''ws://a/ws'' ''k1'' '''' ''status.lan:9101'' ''info'') \<noteq> None"
proof -
  have t: "TrimSpace ''ws://a/ws'' \<noteq> ''''" "TrimSpace ''k1'' \<noteq> ''''" "TrimSpace ''status.lan:9101'' \<noteq> ''''"
    by (simp_all add: TrimSpace_visible in_range_def)
  let ?w = "idle_world\<lparr>cw_listen := (\<lambda>_. (second, Inl ''no such host''))\<rparr>"
  have l: "cw_listen ?w (TrimSpace ''status.lan:9101'') = (second, Inl ''no such host'')" by simp
  show ?thesis
    using late_status_failure [OF t l, of "''''" "''info''"] by (simp add: status_grace_def second_def)
qed

end
