(* ===== verification/Json_Indent.thy ===== *)
theory Json_Indent
  imports Json_Parse
begin

text \<open>
  The text that a \<open>json.Encoder\<close> with \<open>SetIndent("", "  ")\<close> writes: each member and each element on
  a line of its own, a space behind a colon, nothing inside an empty object or array, and a newline
  at the end. It reads back as the same document.
\<close>

definition newline :: "nat \<Rightarrow> string" where
  "newline depth = CHR 0x0A # replicate (2 * depth) (CHR 0x20)"

text \<open>\<open>appendIndent\<close>: whether a bracket was just opened, and the depth.\<close>

fun indent_tokens :: "bool \<Rightarrow> nat \<Rightarrow> token list \<Rightarrow> string" where
  "indent_tokens opened depth [] = []"
| "indent_tokens opened depth (t # ts) =
     (if t = RBrace \<or> t = RBracket
      then (if opened then token_text t @ indent_tokens False depth ts
            else newline (depth - 1) @ token_text t @ indent_tokens False (depth - 1) ts)
      else (let d = (if opened then depth + 1 else depth)
            in (if opened then newline d else []) @ token_text t @
               (if t = LBrace \<or> t = LBracket then indent_tokens True d ts
                else if t = Comma then newline d @ indent_tokens False d ts
                else if t = Colon then CHR 0x20 # indent_tokens False d ts
                else indent_tokens False d ts)))"

definition json_indented :: "json \<Rightarrow> string" where
  "json_indented j = indent_tokens False 0 (json_tokens j) @ [CHR 0x0A]"

lemma lex_space [simp]: "json_space c \<Longrightarrow> lex (c # s) = lex s"
  by (subst lex.simps) simp

lemma lex_newline [simp]: "lex (newline d @ s) = lex s"
proof -
  have "lex (replicate n (CHR 0x20) @ s) = lex s" for n
    by (induction n) (simp_all add: json_space_def)
  then show ?thesis by (simp add: newline_def json_space_def)
qed

lemma indent_ends_number:
  "closed ts \<Longrightarrow> ends_number (indent_tokens False d ts @ [CHR 0x0A])"
  by (cases ts) (auto simp: closed_def closer_def ends_number_def newline_def json_space_def)

lemma lex_indent_tokens:
  "list_all token_ok ts \<Longrightarrow> separated ts \<Longrightarrow> lex (indent_tokens opened d ts @ [CHR 0x0A]) = Some ts"
proof (induction ts arbitrary: opened d)
  case Nil
  then show ?case by (simp add: json_space_def)
next
  case (Cons t ts)
  have IH: "lex (indent_tokens p k ts @ [CHR 0x0A]) = Some ts" for p k
    using Cons by (simp add: separated_Cons)
  have first: "lex (token_text t @ r) = map_option (\<lambda>us. t # us) (lex r)"
    if "number_token t \<Longrightarrow> ends_number r" for r
    using lex_token_first lex_token_text [of t r] Cons.prems(1) that by (auto simp: number_token_def)
  have num: "number_token t \<Longrightarrow> ends_number (indent_tokens False k ts @ [CHR 0x0A])" for k
    using Cons.prems(2) by (intro indent_ends_number) (simp add: separated_Cons)
  show ?case
  proof (cases "number_token t")
    case True
    then have "t \<notin> {RBrace, RBracket, LBrace, LBracket, Comma, Colon}" by (auto simp: number_token_def)
    then show ?thesis using first [OF num] IH by (auto simp: Let_def)
  next
    case False
    then show ?thesis using first IH by (auto simp: Let_def json_space_def simp del: token_text.simps)
  qed
qed

lemma json_document_indented:
  assumes "json_ok j" "json_depth j \<le> max_nesting"
  shows "json_document (json_indented j) = Some j"
proof -
  have "separated (json_tokens j)" using separated_json(1) [of "[]" j] by (simp add: closed_def)
  then have "lex (json_indented j) = Some (json_tokens j)"
    using tokens_ok(1) [OF assms(1)] by (simp add: json_indented_def lex_indent_tokens)
  moreover have "json_run (json_tokens j) (WantValue [] False) = Some (GotValue j [])"
    using json_run_tokens(1) [of "[]" j "[]" False] assms(2) by simp
  ultimately show ?thesis by (simp add: json_document_def)
qed

end
