(* ===== verification/Status_Json.thy ===== *)
theory Status_Json
  imports Json_Indent Ws_Wire Server_Status Client_Status
begin

text \<open>
  The texts of the two status pages: the struct tags of internal/server/status.go, listener.go and
  internal/client/status.go under the rules of encoding/json, and \<open>handleStatus\<close>. A nil pointer is
  dropped under \<open>omitempty\<close> and \<open>null\<close> otherwise. Encoding fails, and the body is empty, if the text of
  a time does (\<open>wire_lib\<close>); everything else has one.
\<close>

definition nullable :: "('a \<Rightarrow> json) \<Rightarrow> 'a option \<Rightarrow> json" where
  "nullable enc p = (case p of None \<Rightarrow> JNull | Some x \<Rightarrow> enc x)"

definition time_json :: "wire_lib \<Rightarrow> time \<Rightarrow> json" where
  "time_json lib t = JStr (case time_marshal lib t of None \<Rightarrow> '''' | Some s \<Rightarrow> s)"

section \<open>The page of the server\<close>

definition controlStatus_json :: "wire_lib \<Rightarrow> controlStatus \<Rightarrow> json" where
  "controlStatus_json lib c =
     JObj [(''connected'', JBool (cts_connected c)), (''last_seen'', time_json lib (cts_last_seen c)),
           (''rtt_ms'', int_json (cts_rtt_ms c))]"

definition channelStatus_json :: "channelStatus \<Rightarrow> json" where
  "channelStatus_json c =
     JObj [(''configured'', int_json (chs_configured c)), (''online'', int_json (int (chs_online c)))]"

definition streamStatus_json :: "streamStatus \<Rightarrow> json" where
  "streamStatus_json s =
     JObj [(''active'', int_json (sts_active s)), (''opened_total'', int_json (sts_opened_total s)),
           (''queue_depth'', int_json (sts_queue_depth s))]"

definition capacityStatus_json :: "capacityStatus \<Rightarrow> json" where
  "capacityStatus_json c =
     JObj [(''max_streams_per_conn'', int_json (cps_max_streams_per_conn c)),
           (''max_concurrent'', int_json (cps_max_concurrent c)), (''peak_demand'', int_json (cps_peak_demand c)),
           (''channels_needed_at_peak'', int_json (cps_channels_needed_at_peak c)),
           (''saturated_total'', int_json (cps_saturated_total c))]"

definition trafficStatus_json :: "trafficStatus \<Rightarrow> json" where
  "trafficStatus_json t =
     JObj [(''bytes_in'', int_json (tfs_bytes_in t)), (''bytes_out'', int_json (tfs_bytes_out t)),
           (''rate_in_bps'', int_json (tfs_rate_in_bps t)), (''rate_out_bps'', int_json (tfs_rate_out_bps t))]"

definition PortStatus_json :: "PortStatus \<Rightarrow> json" where
  "PortStatus_json p =
     JObj [(''port'', int_json (pst_port p)), (''remote'', JStr (pst_remote p)),
           (''listening'', JBool (pst_listening p)), (''active_conns'', int_json (pst_active_conns p)),
           (''bind_errors'', int_json (pst_bind_errors p)), (''error'', nullable JStr (pst_error p))]"

definition nodeStatus_members :: "wire_lib \<Rightarrow> nodeStatus \<Rightarrow> (string \<times> json) list" where
  "nodeStatus_members lib n =
     [(''node'', JStr (nst_node n)), (''up'', JBool (nst_up n)),
      (''connected_at'', nullable (time_json lib) (nst_connected_at n)),
      (''disconnected_at'', nullable (time_json lib) (nst_disconnected_at n))] @
     ptr_member ''control'' (controlStatus_json lib) (nst_control n) @
     ptr_member ''channels'' channelStatus_json (nst_channels n) @
     ptr_member ''streams'' streamStatus_json (nst_streams n) @
     ptr_member ''capacity'' capacityStatus_json (nst_capacity n) @
     ptr_member ''traffic'' trafficStatus_json (nst_traffic n) @
     [(''ports'', JArr (map PortStatus_json (nst_ports n))), (''last_error'', nullable JStr (nst_last_error n))]"

definition statusDoc_json :: "wire_lib \<Rightarrow> statusDoc \<Rightarrow> json" where
  "statusDoc_json lib doc =
     JObj [(''nodes'', JArr (map (\<lambda>n. JObj (nodeStatus_members lib n)) (doc_nodes doc))),
           (''offline_nodes'', JArr (map (\<lambda>n. JObj (nodeStatus_members lib n)) (doc_offline doc)))]"

definition node_times :: "nodeStatus \<Rightarrow> time set" where
  "node_times n = set_option (nst_connected_at n) \<union> set_option (nst_disconnected_at n) \<union>
     cts_last_seen ` set_option (nst_control n)"

definition status_Marshal :: "wire_lib \<Rightarrow> statusDoc \<Rightarrow> json option" where
  "status_Marshal lib doc =
     (if \<forall>n \<in> set (doc_nodes doc @ doc_offline doc). \<forall>t \<in> node_times n. time_marshal lib t \<noteq> None
      then Some (statusDoc_json lib doc) else None)"

definition json_page :: "json option \<Rightarrow> string \<times> string" where
  "json_page j = (''application/json; charset=utf-8'', case j of None \<Rightarrow> '''' | Some v \<Rightarrow> json_indented v)"

definition handleStatus ::
  "wire_lib \<Rightarrow> (int \<Rightarrow> int \<Rightarrow> int) \<Rightarrow> string \<Rightarrow> server \<Rightarrow> (string \<times> string) \<times> server" where
  "handleStatus lib ceil_quotient filter_by sv =
     (case buildStatus ceil_quotient filter_by sv of
        (doc, sv') \<Rightarrow> (json_page (status_Marshal lib doc), sv'))"

section \<open>The page of the client\<close>

definition portView_json :: "portView \<Rightarrow> json" where
  "portView_json p = JObj [(''port'', JStr (pv_port p)), (''remote'', JStr (pv_remote p))]"

definition ClientStatus_json :: "ClientStatus \<Rightarrow> json" where
  "ClientStatus_json st =
     JObj [(''node'', JStr (cst_node st)), (''url'', JStr (cst_url st)), (''session'', JStr (cst_session st)),
           (''connected'', JBool (cst_connected st)), (''draining'', JBool (cst_draining st)),
           (''channels'', JObj [(''configured'', int_json (cst_configured st)), (''online'', int_json (cst_online st))]),
           (''streams'', JObj [(''active'', int_json (cst_active st))]),
           (''traffic'', JObj [(''bytes_in'', int_json (cst_bytes_in st)), (''bytes_out'', int_json (cst_bytes_out st)),
              (''local_dial_errors'', int_json (cst_dial_errors st))]),
           (''ports'', JArr (map portView_json (cst_ports st))), (''last_error'', nullable JStr (cst_last_error st))]"

definition client_status_page :: "client \<Rightarrow> string \<times> string" where
  "client_status_page c = json_page (Some (ClientStatus_json (Status c)))"

section \<open>The text determines the document\<close>

lemma itoa_eq_iff [simp]: "itoa a = itoa b \<longleftrightarrow> a = b"
proof
  assume eq: "itoa a = itoa b"
  have dig: "digits_of m = digits_of n \<Longrightarrow> m = n" for m n
    by (metis parse_digits_of option.inject)
  have sign: "CHR ''-'' # s \<noteq> digits_of n" for s n
  proof
    assume "CHR ''-'' # s = digits_of n"
    then have "CHR ''-'' \<in> set (digits_of n)" by (metis list.set_intros(1))
    moreover have "char_digit (CHR ''-'') = None" by (simp add: char_digit_def)
    ultimately show False using digits_of_digits [of n] by (auto simp: list_all_iff)
  qed
  consider "a < 0" "b < 0" | "a < 0" "0 \<le> b" | "0 \<le> a" "b < 0" | "0 \<le> a" "0 \<le> b" by linarith
  then show "a = b"
  proof cases
    case 1
    with eq dig [of "nat (- a)" "nat (- b)"] show ?thesis by (simp add: itoa_def)
  next
    case 2
    with eq sign [of _ "nat b"] show ?thesis by (simp add: itoa_def)
  next
    case 3
    with eq sign [of _ "nat a"] show ?thesis by (simp add: itoa_def) (metis)
  next
    case 4
    with eq dig [of "nat a" "nat b"] show ?thesis by (simp add: itoa_def)
  qed
qed simp

lemma int_json_inject [simp]: "int_json a = int_json b \<longleftrightarrow> a = b"
  by (simp add: int_json_def)

lemma nullable_inject:
  "(\<And>x y. x \<in> set_option p \<Longrightarrow> y \<in> set_option q \<Longrightarrow> enc x = enc y \<Longrightarrow> x = y) \<Longrightarrow>
   (\<And>x. enc x \<noteq> JNull) \<Longrightarrow> nullable enc p = nullable enc q \<Longrightarrow> p = q"
  by (cases p; cases q) (auto simp: nullable_def dest: sym)

lemma time_json_inject:
  "time_text_exact lib \<Longrightarrow> time_marshal lib s \<noteq> None \<Longrightarrow> time_marshal lib t \<noteq> None \<Longrightarrow>
     time_json lib s = time_json lib t \<Longrightarrow> s = t"
  unfolding time_text_exact_def time_json_def by (auto, metis option.inject)

lemma map_of_ptr_member [simp]:
  "map_of (ptr_member n enc p) k = (if k = n then map_option enc p else None)"
  by (cases p) (simp_all add: ptr_member_def)

lemma record_inject [simp]:
  "channelStatus_json c = channelStatus_json c' \<longleftrightarrow> c = c'"
  "streamStatus_json s = streamStatus_json s' \<longleftrightarrow> s = s'"
  "capacityStatus_json a = capacityStatus_json a' \<longleftrightarrow> a = a'"
  "trafficStatus_json t = trafficStatus_json t' \<longleftrightarrow> t = t'"
  by (auto simp: channelStatus_json_def streamStatus_json_def capacityStatus_json_def trafficStatus_json_def)

lemma PortStatus_json_inject: "PortStatus_json p = PortStatus_json q \<Longrightarrow> p = q"
  using nullable_inject [of "pst_error p" "pst_error q" JStr] by (simp add: PortStatus_json_def)

lemma node_lookup:
  "map_of (nodeStatus_members lib n) ''node'' = Some (JStr (nst_node n))"
  "map_of (nodeStatus_members lib n) ''up'' = Some (JBool (nst_up n))"
  "map_of (nodeStatus_members lib n) ''connected_at'' = Some (nullable (time_json lib) (nst_connected_at n))"
  "map_of (nodeStatus_members lib n) ''disconnected_at'' = Some (nullable (time_json lib) (nst_disconnected_at n))"
  "map_of (nodeStatus_members lib n) ''control'' = map_option (controlStatus_json lib) (nst_control n)"
  "map_of (nodeStatus_members lib n) ''channels'' = map_option channelStatus_json (nst_channels n)"
  "map_of (nodeStatus_members lib n) ''streams'' = map_option streamStatus_json (nst_streams n)"
  "map_of (nodeStatus_members lib n) ''capacity'' = map_option capacityStatus_json (nst_capacity n)"
  "map_of (nodeStatus_members lib n) ''traffic'' = map_option trafficStatus_json (nst_traffic n)"
  "map_of (nodeStatus_members lib n) ''ports'' = Some (JArr (map PortStatus_json (nst_ports n)))"
  "map_of (nodeStatus_members lib n) ''last_error'' = Some (nullable JStr (nst_last_error n))"
  by (simp_all add: nodeStatus_members_def map_add_def split: option.split)

lemma controlStatus_json_inject:
  assumes "time_text_exact lib" "time_marshal lib (cts_last_seen c) \<noteq> None" "time_marshal lib (cts_last_seen d) \<noteq> None"
    and "controlStatus_json lib c = controlStatus_json lib d"
  shows "c = d"
  using assms(4) time_json_inject [OF assms(1-3)] by (simp add: controlStatus_json_def)

definition times_ok :: "wire_lib \<Rightarrow> nodeStatus \<Rightarrow> bool" where
  "times_ok lib n \<longleftrightarrow> (\<forall>t \<in> node_times n. time_marshal lib t \<noteq> None)"

lemma nullable_time_inject:
  assumes "time_text_exact lib" "\<forall>t \<in> set_option p \<union> set_option q. time_marshal lib t \<noteq> None"
    and "nullable (time_json lib) p = nullable (time_json lib) q"
  shows "p = q"
proof (rule nullable_inject [OF _ _ assms(3)])
  show "x = y" if "x \<in> set_option p" "y \<in> set_option q" "time_json lib x = time_json lib y" for x y
    using that assms(2) by (intro time_json_inject [OF assms(1)]) auto
qed (simp add: time_json_def)

lemma nodeStatus_inject:
  assumes lib: "time_text_exact lib" and t: "times_ok lib n" "times_ok lib m"
    and eq: "nodeStatus_members lib n = nodeStatus_members lib m"
  shows "n = m"
proof -
  have look: "map_of (nodeStatus_members lib n) k = map_of (nodeStatus_members lib m) k" for k by (simp add: eq)
  note at = look [of "''node''"] look [of "''up''"] look [of "''connected_at''"] look [of "''disconnected_at''"]
    look [of "''control''"] look [of "''channels''"] look [of "''streams''"] look [of "''capacity''"]
    look [of "''traffic''"] look [of "''ports''"] look [of "''last_error''"]
  note at = at [unfolded node_lookup]
  have "nst_connected_at n = nst_connected_at m" "nst_disconnected_at n = nst_disconnected_at m"
    using at(3,4) t by (auto simp: times_ok_def node_times_def intro!: nullable_time_inject [OF lib])
  moreover have "nst_control n = nst_control m"
    using at(5) t controlStatus_json_inject [OF lib]
    by (cases "nst_control n"; cases "nst_control m") (auto simp: times_ok_def node_times_def)
  moreover have "nst_channels n = nst_channels m" "nst_streams n = nst_streams m" "nst_capacity n = nst_capacity m"
    "nst_traffic n = nst_traffic m"
    using at(6-9) by (auto dest!: option.inj_map_strong [rotated])
  moreover have "nst_ports n = nst_ports m"
    using at(10) list.inj_map_strong [where f = PortStatus_json and fa = PortStatus_json] PortStatus_json_inject
    by simp
  moreover have "nst_last_error n = nst_last_error m"
    using at(11) nullable_inject [of "nst_last_error n" "nst_last_error m" JStr] by simp
  ultimately show ?thesis using at(1,2) by simp
qed

lemma status_Marshal_inject:
  assumes lib: "time_text_exact lib" and "status_Marshal lib d = Some j" "status_Marshal lib e = Some j"
  shows "d = e"
proof -
  have ok: "\<forall>n \<in> set (doc_nodes d @ doc_offline d) \<union> set (doc_nodes e @ doc_offline e). times_ok lib n"
    and eq: "statusDoc_json lib d = statusDoc_json lib e"
    using assms(2,3) by (auto simp: status_Marshal_def times_ok_def split: if_splits)
  have list: "xs = ys" if "map (\<lambda>n. JObj (nodeStatus_members lib n)) xs = map (\<lambda>n. JObj (nodeStatus_members lib n)) ys"
    "\<forall>n \<in> set xs \<union> set ys. times_ok lib n" for xs ys
    by (rule list.inj_map_strong [OF _ that(1)]) (use that(2) nodeStatus_inject [OF lib] in auto)
  show ?thesis
    using eq ok by (intro statusDoc.equality list) (auto simp: statusDoc_json_def)
qed

section \<open>The text reads back\<close>

lemma status_depth: "json_depth (statusDoc_json lib doc) \<le> max_nesting"
proof -
  have node: "json_depth (JObj (nodeStatus_members lib n)) \<le> 4" for n
    unfolding nodeStatus_members_def
    by (cases "nst_control n"; cases "nst_channels n"; cases "nst_streams n"; cases "nst_capacity n"; cases "nst_traffic n")
      (auto simp: fold_max_le ptr_member_def nullable_def time_json_def controlStatus_json_def channelStatus_json_def
        streamStatus_json_def capacityStatus_json_def trafficStatus_json_def PortStatus_json_def int_json_def
        split: option.split)
  then have list: "Suc 0 + json_depth (JArr (map (\<lambda>n. JObj (nodeStatus_members lib n)) xs)) \<le> 6" for xs
    unfolding depth_bound by (auto simp del: json_depth.simps)
  have "0 + json_depth (statusDoc_json lib doc) \<le> 6"
    unfolding statusDoc_json_def depth_bound(2) using list by (auto simp del: json_depth.simps)
  then show ?thesis by (simp add: max_nesting_def)
qed

text \<open>C31: What /status sends reads back as exactly the document it was built from, and no other document has
  that text: nothing that the page shows is lost or run together by the encoding, its dropped and null
  members and its indentation.\<close>

theorem status_page_faithful:
  assumes "time_text_exact lib" and "status_Marshal lib (fst (buildStatus cq filter_by sv)) = Some j" and "json_ok j"
  shows "json_document (snd (fst (handleStatus lib cq filter_by sv))) = Some j \<and>
    (\<forall>doc. status_Marshal lib doc = Some j \<longrightarrow> doc = fst (buildStatus cq filter_by sv))"
proof -
  have "j = statusDoc_json lib (fst (buildStatus cq filter_by sv))"
    using assms(2) by (auto simp: status_Marshal_def split: if_splits)
  then have "json_document (json_indented j) = Some j"
    using json_document_indented [OF assms(3)] status_depth by simp
  then have "json_document (snd (fst (handleStatus lib cq filter_by sv))) = Some j"
    using assms(2) by (simp add: handleStatus_def json_page_def split_beta)
  moreover have "doc = fst (buildStatus cq filter_by sv)" if "status_Marshal lib doc = Some j" for doc
    using status_Marshal_inject [OF assms(1) that assms(2)] .
  ultimately show ?thesis by blast
qed

definition sample_page :: statusDoc where
  "sample_page =
     (let entry = (\<lambda>name port remote.
        \<lparr>nst_node = name, nst_up = False, nst_connected_at = None, nst_disconnected_at = None, nst_control = None,
         nst_channels = None, nst_streams = None, nst_capacity = None,
         nst_traffic = Some \<lparr>tfs_bytes_in = 0, tfs_bytes_out = 0, tfs_rate_in_bps = 0, tfs_rate_out_bps = 0\<rparr>,
         nst_ports = [\<lparr>pst_port = port, pst_remote = remote, pst_listening = False, pst_active_conns = 0,
           pst_bind_errors = 0, pst_error = Some ''node offline''\<rparr>],
         nst_last_error = None\<rparr>)
      in \<lparr>doc_nodes = [], doc_offline = [entry ''a'' 80 ''h:1'', entry ''c'' 84 ''h:3'']\<rparr>)"

lemma sample_page: "fst (buildStatus (\<lambda>_ _. 0) '''' (newServer sample_config)) = sample_page"
proof -
  have "sort (cfg_node_order (sv_cfg (newServer sample_config))) = [''a'', ''c'']" by code_simp
  then show ?thesis
    by (simp add: buildStatus_def status_node_def node_base_def Let_def newServer_def newRegistry_def Get_def
        sample_config_def Stats_def stats_of_def Times_def Rates_def Snapshot_def PortsOf_def port_status_def
        owned_by_def List.map_filter_simps BindErrors_def newListenerManager_def owned_items_def zero_stats_def
        sample_page_def)
qed

lemma sample_page_marshal: "status_Marshal lib sample_page = Some (statusDoc_json lib sample_page)"
  by (simp add: status_Marshal_def sample_page_def node_times_def)

lemma sample_page_ok: "json_ok (statusDoc_json lib sample_page)"
  by (simp add: statusDoc_json_def sample_page_def nodeStatus_members_def ptr_member_def nullable_def
      trafficStatus_json_def PortStatus_json_def ascii_valid int64_range_def)

theorem status_page_faithful_witness:
  "json_document (snd (fst (handleStatus sample_wire_lib (\<lambda>_ _. 0) '''' (newServer sample_config)))) =
    Some (statusDoc_json sample_wire_lib sample_page)"
  using status_page_faithful [of sample_wire_lib "\<lambda>_ _. 0" "''''" "newServer sample_config"]
    sample_wire_lib_ok(2) sample_page_marshal sample_page_ok by (simp add: sample_page)

text \<open>The page of the client needs no time.\<close>

lemma client_page_reads_back:
  assumes "json_ok (ClientStatus_json (Status c))"
  shows "json_document (snd (client_status_page c)) = Some (ClientStatus_json (Status c))"
proof -
  have list: "Suc 0 + json_depth (JArr (map portView_json xs)) \<le> 6" for xs
    unfolding depth_bound by (auto simp: portView_json_def)
  have "0 + json_depth (ClientStatus_json (Status c)) \<le> 6"
    unfolding ClientStatus_json_def depth_bound(2) using list [of "cst_ports (Status c)"]
    by (auto simp: nullable_def int_json_def split: option.split simp del: json_depth.simps(1))
  with json_document_indented [OF assms] show ?thesis
    by (simp add: client_status_page_def json_page_def max_nesting_def)
qed

end
