(* ===== verification/Listener_Account.thy ===== *)
theory Listener_Account
  imports Listener_Laws
begin

text \<open>
  The manager of internal/server/listener.go, lock hold by lock hold. \<open>StartPort\<close>, \<open>StopPort\<close>,
  \<open>StopNode\<close> and \<open>StopAll\<close> each release \<open>m.mu\<close> before they have finished: a stop takes its victims out of
  the map and stops them afterwards, and a start that finds the port with another node lets go of
  the lock, stops that listener and installs its own without looking again. The goroutines that
  stand between two lock holds are the \<open>threads\<close>; any of them may go on at any time
  (\<open>manager_step\<close>). Run without interruption, the operations are those of Port_Listeners.
\<close>

section \<open>The lock holds\<close>

definition port_refs :: "int \<Rightarrow> listeners \<Rightarrow> plref list" where
  "port_refs port lm = (case map_of (items lm) port of None \<Rightarrow> [] | Some r \<Rightarrow> [r])"

definition port_victims :: "int \<Rightarrow> listeners \<Rightarrow> plref list \<times> listeners" where
  "port_victims port lm = (port_refs port lm, lm\<lparr>items := AList.delete port (items lm)\<rparr>)"

definition node_victims :: "string \<Rightarrow> listeners \<Rightarrow> plref list \<times> listeners" where
  "node_victims node lm =
     (map snd (owned_items node lm), lm\<lparr>items := filter (\<lambda>(p, r). pl_node (lm_heap lm r) \<noteq> node) (items lm)\<rparr>)"

definition all_victims :: "listeners \<Rightarrow> plref list \<times> listeners" where
  "all_victims lm = (map snd (items lm), lm\<lparr>items := []\<rparr>)"

text \<open>What a goroutine has still to do: \<open>StopPort\<close> for a start that found a conflict, the stop of its
  victim, the second lock hold of the start; or the stop of a victim for one of the other operations.\<close>

datatype thread = TakeOver PortSpec | StopFirst plref PortSpec | Install PortSpec | StopIt plref bool

record manager_state =
  mg_lm :: listeners
  mg_threads :: "thread list"

definition idle_manager :: manager_state where
  "idle_manager = \<lparr>mg_lm = newListenerManager, mg_threads = []\<rparr>"

fun thread_step :: "thread \<Rightarrow> listeners \<Rightarrow> listeners \<times> thread list" where
  "thread_step (TakeOver spec) lm =
     (case port_victims (ps_port spec) lm of
        ([], lm') \<Rightarrow> (lm', [Install spec])
      | (r # _, lm') \<Rightarrow> (lm', [StopFirst r spec]))"
| "thread_step (StopFirst r spec) lm = (stop_ref False r lm, [Install spec])"
| "thread_step (Install spec) lm = (start_install spec lm, [])"
| "thread_step (StopIt r graceful) lm = (stop_ref graceful r lm, [])"

datatype manager_event =
    CallStartPort PortSpec bool | CallStopPort int bool | CallStopNode string bool | CallStopAll bool
  | GoOn thread | LoopStep plref run_event

definition take_out :: "bool \<Rightarrow> plref list \<times> listeners \<Rightarrow> manager_state \<Rightarrow> manager_state" where
  "take_out graceful v m =
     \<lparr>mg_lm = snd v, mg_threads = mg_threads m @ map (\<lambda>r. StopIt r graceful) (fst v)\<rparr>"

fun manager_step :: "manager_event \<Rightarrow> manager_state \<Rightarrow> manager_state" where
  "manager_step (CallStartPort spec online) m =
     (case start_lookup spec online (mg_lm m) of
        (conflict, lm) \<Rightarrow>
          m\<lparr>mg_lm := lm, mg_threads := mg_threads m @ (if conflict then [TakeOver spec] else [])\<rparr>)"
| "manager_step (CallStopPort port graceful) m = take_out graceful (port_victims port (mg_lm m)) m"
| "manager_step (CallStopNode node graceful) m = take_out graceful (node_victims node (mg_lm m)) m"
| "manager_step (CallStopAll graceful) m = take_out graceful (all_victims (mg_lm m)) m"
| "manager_step (GoOn t) m =
     (if t \<in> set (mg_threads m)
      then (case thread_step t (mg_lm m) of
              (lm, ts) \<Rightarrow> \<lparr>mg_lm = lm, mg_threads = remove1 t (mg_threads m) @ ts\<rparr>)
      else m)"
| "manager_step (LoopStep r e) m = m\<lparr>mg_lm := lm_run r e (mg_lm m)\<rparr>"

text \<open>The listeners that some goroutine is about to stop; and those that a second lock hold of
  \<open>StartPort\<close> has overwritten, because the port was not free any more.\<close>

fun thread_refs :: "thread \<Rightarrow> plref list" where
  "thread_refs (StopFirst r spec) = [r]"
| "thread_refs (StopIt r graceful) = [r]"
| "thread_refs _ = []"

definition stopping :: "manager_state \<Rightarrow> plref list" where
  "stopping m = concat (map thread_refs (mg_threads m))"

fun overwritten :: "manager_event \<Rightarrow> manager_state \<Rightarrow> plref list" where
  "overwritten (GoOn (Install spec)) m =
     (if Install spec \<in> set (mg_threads m) then port_refs (ps_port spec) (mg_lm m) else [])"
| "overwritten _ m = []"

fun lost_in :: "manager_event list \<Rightarrow> manager_state \<Rightarrow> plref list" where
  "lost_in [] m = []"
| "lost_in (e # es) m = overwritten e m @ lost_in es (manager_step e m)"

section \<open>The account\<close>

text \<open>The listeners of the map and those of \<open>out\<close> are distinct, and they are the ones that have been
  created and not told to stop.\<close>

definition account :: "plref list \<Rightarrow> listeners \<Rightarrow> bool" where
  "account out lm \<longleftrightarrow>
     distinct (keys (items lm)) \<and> distinct (map snd (items lm) @ out) \<and>
     (\<forall>(p, r) \<in> set (items lm). pl_port (lm_heap lm r) = p) \<and>
     (\<forall>r. r \<in> set (map snd (items lm) @ out) \<longleftrightarrow> r < lm_next lm \<and> \<not> pl_cancelled (lm_heap lm r)) \<and>
     (\<forall>r. pl_inv (lm_heap lm r))"

lemma account_new: "account [] newListenerManager"
  by (simp add: account_def newListenerManager_def pl_inv_new)

lemma accountD:
  assumes "account out lm"
  shows "distinct (keys (items lm))" "distinct (map snd (items lm) @ out)"
    "(p, r) \<in> set (items lm) \<Longrightarrow> pl_port (lm_heap lm r) = p"
    "r \<in> set (map snd (items lm) @ out) \<longleftrightarrow> r < lm_next lm \<and> \<not> pl_cancelled (lm_heap lm r)"
    "pl_inv (lm_heap lm r)"
  using assms unfolding account_def by blast+

lemma accountI:
  assumes "distinct (keys (items lm))" "distinct (map snd (items lm) @ out)"
    "\<And>p r. (p, r) \<in> set (items lm) \<Longrightarrow> pl_port (lm_heap lm r) = p"
    "\<And>r. r \<in> set (map snd (items lm) @ out) \<longleftrightarrow> r < lm_next lm \<and> \<not> pl_cancelled (lm_heap lm r)"
    "\<And>r. pl_inv (lm_heap lm r)"
  shows "account out lm"
  using assms unfolding account_def by blast

text \<open>It does not depend on the order, nor on which of the two lists a listener is in.\<close>

lemma account_perm:
  assumes ok: "account out lm" and "distinct (keys (items lm'))" "set (items lm') \<subseteq> set (items lm)"
    and m: "mset (map snd (items lm') @ out') = mset (map snd (items lm) @ out)"
    and "lm_heap lm' = lm_heap lm" "lm_next lm' = lm_next lm"
  shows "account out' lm'"
proof (rule accountI)
  show "distinct (map snd (items lm') @ out')"
    using accountD(2) [OF ok] mset_eq_imp_distinct_iff [OF m] by blast
  show "r \<in> set (map snd (items lm') @ out') \<longleftrightarrow> r < lm_next lm' \<and> \<not> pl_cancelled (lm_heap lm' r)" for r
    unfolding mset_eq_setD [OF m] assms(5,6) by (rule accountD(4) [OF ok])
qed (use assms accountD(3,5) [OF ok] in auto)

lemma mset_split: "mset (map f (filter P xs)) + mset (map f (filter (\<lambda>i. \<not> P i) xs)) = mset (map f xs)"
  by (induction xs) simp_all

lemma account_take:
  assumes "account out lm"
  shows "account (map snd (filter (\<lambda>i. \<not> P i) (items lm)) @ out) (lm\<lparr>items := filter P (items lm)\<rparr>)"
  using assms
proof (rule account_perm)
  show "distinct (keys (items (lm\<lparr>items := filter P (items lm)\<rparr>)))"
    using accountD(1) [OF assms] by (simp add: distinct_map_filter)
  show "mset (map snd (items (lm\<lparr>items := filter P (items lm)\<rparr>)) @ map snd (filter (\<lambda>i. \<not> P i) (items lm)) @ out) =
      mset (map snd (items lm) @ out)"
    unfolding mset_append mset_split [symmetric, of snd "items lm" P] by simp
qed auto

lemma account_stop:
  assumes "account (r # out) lm"
  shows "account out (stop_ref g r lm)"
  using accountD(1-3) [OF assms] accountD(4) [OF assms] accountD(5) [OF assms]
  by (intro accountI) (auto simp: pl_inv_stop_ref)

lemma account_run: "account out lm \<Longrightarrow> account out (lm_run r e lm)"
  by (simp add: account_def) (simp add: lm_run_def pl_inv_run)

lemma mset_update_old: "distinct (keys m) \<Longrightarrow> k \<in> set (keys m) \<Longrightarrow>
    mset (AList.update k v m) = add_mset (k, v) (mset (filter (\<lambda>i. fst i \<noteq> k) m))"
proof (induction m)
  case (Cons i m)
  obtain k' v' where i: "i = (k', v')" by (cases i)
  show ?case
  proof (cases "k' = k")
    case True
    then have "filter (\<lambda>i. fst i \<noteq> k) m = m" using Cons.prems(1) i by (auto simp: filter_id_conv)
    with True i show ?thesis by simp
  qed (use Cons i in auto)
qed simp

lemma mset_update:
  assumes "distinct (keys m)"
  shows "mset (AList.update k v m) = add_mset (k, v) (mset (filter (\<lambda>i. fst i \<noteq> k) m))"
proof (cases "k \<in> set (keys m)")
  case False
  then have "filter (\<lambda>i. fst i \<noteq> k) m = m" by (auto simp: filter_id_conv)
  with False show ?thesis by (simp add: update_fresh)
qed (rule mset_update_old [OF assms])

lemma port_refs_filter:
  "distinct (keys (items lm)) \<Longrightarrow> map snd (filter (\<lambda>i. fst i = p) (items lm)) = port_refs p lm"
proof (cases "map_of (items lm) p")
  case None
  then have "filter (\<lambda>i. fst i = p) (items lm) = []" by (auto simp: filter_empty_conv map_of_eq_None_iff)
  with None show ?thesis by (simp add: port_refs_def)
qed (simp add: port_refs_def filter_key)

lemma account_install:
  assumes "account out lm"
  shows "account (port_refs (ps_port spec) lm @ out) (start_install spec lm)"
proof -
  let ?p = "ps_port spec" and ?out = "port_refs (ps_port spec) lm @ out"
  let ?lm1 = "lm\<lparr>items := filter (\<lambda>i. fst i \<noteq> ?p) (items lm)\<rparr>"
  have d: "distinct (keys (items lm))" by (rule accountD(1) [OF assms])
  have t: "account ?out ?lm1"
    using account_take [OF assms, of "\<lambda>i. fst i \<noteq> ?p"] by (simp add: port_refs_filter [OF d])
  let ?lm2 = "(start_install spec lm)\<lparr>items := (?p, lm_next lm) # items ?lm1\<rparr>"
  have fresh: "lm_next lm \<notin> set (map snd (items ?lm1) @ ?out)"
    using accountD(4) [OF t, of "lm_next lm"] by simp
  then have old: "(q, r) \<in> set (items ?lm1) \<Longrightarrow> r \<noteq> lm_next lm" for q r by force
  have "account ?out ?lm2"
  proof (rule accountI)
    show "distinct (keys (items ?lm2))" using accountD(1) [OF t] by auto
    show "distinct (map snd (items ?lm2) @ ?out)" using accountD(2) [OF t] fresh by simp
    show "pl_port (lm_heap ?lm2 r) = q" if "(q, r) \<in> set (items ?lm2)" for q r
      using that old [of q r] accountD(3) [OF t, of q r] by (auto simp: start_install_def new_listener_def)
    show "r \<in> set (map snd (items ?lm2) @ ?out) \<longleftrightarrow> r < lm_next ?lm2 \<and> \<not> pl_cancelled (lm_heap ?lm2 r)" for r
      using accountD(4) [OF t, of r] fresh
      by (cases "r = lm_next lm") (simp_all add: start_install_def new_listener_def less_Suc_eq)
    show "pl_inv (lm_heap ?lm2 r)" for r
      using accountD(5) [OF t, of r] by (simp add: start_install_def pl_inv_new)
  qed
  then show ?thesis
  proof (rule account_perm)
    have u: "mset (items (start_install spec lm)) = mset (items ?lm2)"
      by (simp add: start_install_def mset_update [OF d])
    show "distinct (keys (items (start_install spec lm)))"
      using d by (simp add: start_install_def distinct_update)
    show "set (items (start_install spec lm)) \<subseteq> set (items ?lm2)" using mset_eq_setD [OF u] by simp
    show "mset (map snd (items (start_install spec lm)) @ ?out) = mset (map snd (items ?lm2) @ ?out)"
      unfolding mset_append mset_map u ..
  qed (simp_all add: start_install_def)
qed

section \<open>Every step keeps the account\<close>

lemma account_out: "account out lm \<Longrightarrow> mset out' = mset out \<Longrightarrow> account out' lm"
  by (rule account_perm) (auto dest: accountD(1))

lemma account_victims:
  assumes "account out lm" and "v \<in> {port_victims p lm, node_victims n lm, all_victims lm}"
  shows "account (fst v @ out) (snd v)"
proof -
  note d = accountD(1) [OF assms(1)]
  have port: "port_victims p lm = (map snd (filter (\<lambda>i. \<not> fst i \<noteq> p) (items lm)), lm\<lparr>items := filter (\<lambda>i. fst i \<noteq> p) (items lm)\<rparr>)"
    using port_refs_filter [OF d, of p]
    by (simp add: port_victims_def AList.delete_eq case_prod_unfold eq_commute [of p])
  have node: "node_victims n lm = (map snd (filter (\<lambda>i. \<not> (\<lambda>(p, r). pl_node (lm_heap lm r) \<noteq> n) i) (items lm)),
      lm\<lparr>items := filter (\<lambda>(p, r). pl_node (lm_heap lm r) \<noteq> n) (items lm)\<rparr>)"
    by (simp add: node_victims_def owned_items_def case_prod_unfold)
  have all: "all_victims lm = (map snd (filter (\<lambda>i. \<not> (\<lambda>_. False) i) (items lm)), lm\<lparr>items := filter (\<lambda>_. False) (items lm)\<rparr>)"
    by (simp add: all_victims_def)
  show ?thesis
    using assms(2) account_take [OF assms(1), of "\<lambda>i. fst i \<noteq> p"]
      account_take [OF assms(1), of "\<lambda>(p, r). pl_node (lm_heap lm r) \<noteq> n"] account_take [OF assms(1), of "\<lambda>_. False"]
    unfolding port node all by auto
qed

lemma stopping_take_out: "mset (stopping (take_out g v m)) = mset (fst v @ stopping m)"
  by (simp add: stopping_def take_out_def comp_def)

lemma account_take_out:
  assumes "account (stopping m @ lost) (mg_lm m)"
    and "v \<in> {port_victims p (mg_lm m), node_victims n (mg_lm m), all_victims (mg_lm m)}"
  shows "account (stopping (take_out g v m) @ lost) (mg_lm (take_out g v m))"
proof -
  have "mset (stopping (take_out g v m) @ lost) = mset (fst v @ stopping m @ lost)"
    unfolding mset_append stopping_take_out by simp
  with account_victims [OF assms] have "account (stopping (take_out g v m) @ lost) (snd v)" by (rule account_out)
  then show ?thesis by (simp add: take_out_def)
qed

text \<open>What a goroutine holds before its next lock hold, it holds, hands on, or has stopped after it.\<close>

lemma account_thread:
  assumes "account (thread_refs t @ out) lm"
  shows "account (concat (map thread_refs (snd (thread_step t lm))) @
      (case t of Install spec \<Rightarrow> port_refs (ps_port spec) lm | _ \<Rightarrow> []) @ out) (fst (thread_step t lm))"
proof (cases t)
  case (TakeOver spec)
  have "account (port_refs (ps_port spec) lm @ out) (snd (port_victims (ps_port spec) lm))"
    using account_victims [of out lm "port_victims (ps_port spec) lm" "ps_port spec"] assms TakeOver
    by (simp add: port_victims_def)
  then show ?thesis
    using TakeOver by (cases "map_of (items lm) (ps_port spec)") (simp_all add: port_victims_def port_refs_def)
qed (use assms in \<open>auto intro: account_stop account_install\<close>)

lemma threads_split:
  "t \<in> set ts \<Longrightarrow> mset (concat (map thread_refs ts)) = mset (thread_refs t @ concat (map thread_refs (remove1 t ts)))"
  by (induction ts) (auto simp: ac_simps)

lemma account_step:
  assumes ok: "account (stopping m @ lost) (mg_lm m)"
  shows "account (stopping (manager_step e m) @ lost @ overwritten e m) (mg_lm (manager_step e m))"
proof (cases e)
  case (CallStartPort spec online)
  then show ?thesis
    using ok account_install [OF ok, of spec]
    by (auto simp: start_lookup_def stopping_def port_refs_def split: option.split)
next
  case (GoOn t)
  show ?thesis
  proof (cases "t \<in> set (mg_threads m)")
    case True
    let ?rest = "concat (map thread_refs (remove1 t (mg_threads m)))"
    have "mset (thread_refs t @ ?rest @ lost) = mset (stopping m @ lost)"
      using threads_split [OF True] by (simp add: stopping_def)
    with ok have "account (thread_refs t @ ?rest @ lost) (mg_lm m)" by (rule account_out)
    note account_thread [OF this]
    moreover have "overwritten e m = (case t of Install spec \<Rightarrow> port_refs (ps_port spec) (mg_lm m) | _ \<Rightarrow> [])"
      by (cases t) (use True GoOn in simp_all)
    ultimately show ?thesis
      using True GoOn by (auto simp: stopping_def split_beta intro: account_out)
  next
    case False
    then have "overwritten e m = []" unfolding GoOn by (cases t) simp_all
    with ok GoOn False show ?thesis by simp
  qed
next
  case (LoopStep r x)
  then show ?thesis using account_run [OF ok] by (simp add: stopping_def)
next
  case (CallStopPort p g)
  then show ?thesis using account_take_out [OF ok, of "port_victims p (mg_lm m)" p] by simp
next
  case (CallStopNode n g)
  then show ?thesis using account_take_out [OF ok, of "node_victims n (mg_lm m)" _ n] by simp
next
  case (CallStopAll g)
  then show ?thesis using account_take_out [OF ok, of "all_victims (mg_lm m)"] by simp
qed

lemma account_steps:
  "account (stopping m @ lost) (mg_lm m) \<Longrightarrow>
     account (stopping (fold manager_step es m) @ lost @ lost_in es m) (mg_lm (fold manager_step es m))"
proof (induction es arbitrary: m lost)
  case (Cons e es)
  from Cons.IH [OF account_step [OF Cons.prems, of e]] show ?case by simp
qed simp

section \<open>Without interruption\<close>

lemma stops_uninterrupted:
  "fold manager_step (map (\<lambda>r. GoOn (StopIt r g)) rs) \<lparr>mg_lm = lm, mg_threads = map (\<lambda>r. StopIt r g) rs\<rparr> =
     \<lparr>mg_lm = fold (stop_ref g) rs lm, mg_threads = []\<rparr>"
  by (induction rs arbitrary: lm) simp_all

lemma StopPort_victims:
  "StopPort p g lm = fold (stop_ref g) (port_refs p lm) (lm\<lparr>items := AList.delete p (items lm)\<rparr>)"
proof (cases "map_of (items lm) p")
  case None
  then have "AList.delete p (items lm) = items lm" by (simp add: map_of_eq_None_iff)
  with None show ?thesis by (simp add: StopPort_def port_refs_def)
qed (simp add: StopPort_def port_refs_def)

text \<open>A goroutine that is not interrupted does what the operations of Port_Listeners do.\<close>

theorem uninterrupted_operations:
  fixes lm
  defines "alone \<equiv> \<lparr>mg_lm = lm, mg_threads = []\<rparr>"
  shows "fold manager_step (CallStartPort spec online # concat (map (\<lambda>r.
        [GoOn (TakeOver spec), GoOn (StopFirst r spec), GoOn (Install spec)]) (port_refs (ps_port spec) lm))) alone =
      \<lparr>mg_lm = StartPort spec online lm, mg_threads = []\<rparr> \<and>
    fold manager_step (CallStopPort p g # map (\<lambda>r. GoOn (StopIt r g)) (port_refs p lm)) alone =
      \<lparr>mg_lm = StopPort p g lm, mg_threads = []\<rparr> \<and>
    fold manager_step (CallStopNode n g # map (\<lambda>r. GoOn (StopIt r g)) (map snd (owned_items n lm))) alone =
      \<lparr>mg_lm = StopNode n g lm, mg_threads = []\<rparr> \<and>
    fold manager_step (CallStopAll g # map (\<lambda>r. GoOn (StopIt r g)) (map snd (items lm))) alone =
      \<lparr>mg_lm = StopAll g lm, mg_threads = []\<rparr>"
proof (intro conjI)
  show "fold manager_step (CallStartPort spec online # concat (map (\<lambda>r.
        [GoOn (TakeOver spec), GoOn (StopFirst r spec), GoOn (Install spec)]) (port_refs (ps_port spec) lm))) alone =
      \<lparr>mg_lm = StartPort spec online lm, mg_threads = []\<rparr>"
    by (cases "map_of (items lm) (ps_port spec)")
      (auto simp: alone_def StartPort_def start_lookup_def port_refs_def port_victims_def StopPort_def)
  show "fold manager_step (CallStopPort p g # map (\<lambda>r. GoOn (StopIt r g)) (port_refs p lm)) alone =
      \<lparr>mg_lm = StopPort p g lm, mg_threads = []\<rparr>"
    by (simp add: alone_def take_out_def port_victims_def stops_uninterrupted StopPort_victims)
qed (simp_all add: alone_def take_out_def node_victims_def all_victims_def StopNode_def StopAll_def
    stops_uninterrupted del: map_map)

section \<open>Properties\<close>

text \<open>C16: the account of the listeners. Let goroutines start and stop ports, nodes and everything,
  interleaved in any way between their lock holds and with the steps of the accept loops. Each port
  then has at most one listener in the map, and it is running for its port. Every listener ever
  created is in the map, or some goroutine is about to stop it, or the second lock hold of a
  \<open>StartPort\<close> has overwritten it, or it has been told to stop, and exactly one of the four holds: one
  that has been overwritten is never told to stop. Each listener's connection counter is the number of
  its connections, and the delay before a bind is retried is always 1, 2, 4, 8, 16 or 32 seconds.\<close>

theorem listeners_account:
  assumes "m = fold manager_step es idle_manager"
  shows "distinct (map fst (items (mg_lm m))) \<and>
    list_all (\<lambda>(p, r). r < lm_next (mg_lm m) \<and> pl_port (lm_heap (mg_lm m) r) = p \<and>
      \<not> pl_cancelled (lm_heap (mg_lm m) r)) (items (mg_lm m)) \<and>
    distinct (map snd (items (mg_lm m)) @ stopping m @ lost_in es idle_manager) \<and>
    (r < lm_next (mg_lm m) \<longrightarrow> (pl_cancelled (lm_heap (mg_lm m) r) \<longleftrightarrow>
       r \<notin> set (map snd (items (mg_lm m))) \<and> r \<notin> set (stopping m) \<and> r \<notin> set (lost_in es idle_manager))) \<and>
    pl_active_conns (lm_heap (mg_lm m) r) = int (length (pl_conns (lm_heap (mg_lm m) r))) \<and>
    pl_backoff (lm_heap (mg_lm m) r) \<in> {1 * second, 2 * second, 4 * second, 8 * second, 16 * second, 32 * second}"
proof -
  have "account (stopping m @ lost_in es idle_manager) (mg_lm m)"
    using account_steps [of idle_manager "[]" es] account_new assms by (simp add: idle_manager_def stopping_def)
  note ok = accountD [OF this]
  have "list_all (\<lambda>(p, r). r < lm_next (mg_lm m) \<and> pl_port (lm_heap (mg_lm m) r) = p \<and>
      \<not> pl_cancelled (lm_heap (mg_lm m) r)) (items (mg_lm m))"
    using ok(3) ok(4) by (force simp: list_all_iff)
  then show ?thesis
    using ok(1,2) ok(4,5) [of r] by (auto simp: pl_inv_def conn_inv_def wait_inv_def)
qed

text \<open>Port 80 moves from one node to another; between the two lock holds of that start a third node
  starts the port, and its listener is lost.\<close>

definition crossed_starts :: "manager_event list" where
  "crossed_starts =
     (let b = spec_80\<lparr>ps_node := ''b''\<rparr>
      in [CallStartPort spec_80 True, CallStartPort b True, GoOn (TakeOver b), GoOn (StopFirst 0 b),
          CallStartPort (spec_80\<lparr>ps_node := ''c''\<rparr>) True, GoOn (Install b)])"

theorem listeners_account_witness:
  "pl_cancelled (lm_heap (mg_lm (fold manager_step crossed_starts idle_manager)) 0) \<and>
   \<not> pl_cancelled (lm_heap (mg_lm (fold manager_step crossed_starts idle_manager)) 1) \<and>
   1 \<notin> set (map snd (items (mg_lm (fold manager_step crossed_starts idle_manager))))"
proof -
  let ?m = "fold manager_step crossed_starts idle_manager"
  have e: "lost_in crossed_starts idle_manager = [1]" "map snd (items (mg_lm ?m)) = [2]" "stopping ?m = []"
    "lm_next (mg_lm ?m) = 3"
    by code_simp+
  show ?thesis
    using listeners_account [OF refl, of crossed_starts 0] listeners_account [OF refl, of crossed_starts 1]
    unfolding e by simp
qed

end
