(* ===== verification/Spec2Isabelle.thy ===== *)
theory Spec2Isabelle
  imports Client_Status Forwarding Server_Races Config_Agreement Config_Watch Status_Properties
    Pool_Properties Wire_Sessions Commands Status_Json Listener_Account
begin

text \<open>
  ws-tunnel: reverse TCP ports of a server, carried over WebSocket to clients behind a firewall.

  \<^bold>\<open>The program.\<close> A configuration gives each node (a client) a key, a number of data channels and a
  set of ports. A client opens one control channel, on which JSON messages travel, and a pool of
  data channels, each a multiplexed session. While the control channel is up, the server listens
  on the node's ports; an accepted connection takes a slot of the least-loaded data channel, opens
  a stream on it, sends a header with the port, waits for a one-byte ack and copies in both
  directions. The client checks the port against its allow-list and dials the local service. A
  reload of the configuration is applied by its difference to the old one.

  \<^bold>\<open>The theories, in the order of the layers.\<close>

  \<^item> Tunnel_Prelude: base types, decimal numbers, association lists, the contracts \<open>codec\<close> and
    \<open>invariant_system\<close> that the components instantiate.

  \<^item> Byte_Stream, Stream_Header, Payload_Frames: internal/protocol/stream.go and frame.go. A reader is
    its bytes in the pieces they arrive in and the error that ends them; \<open>ReadStreamHeader\<close>,
    \<open>ReadAck\<close>, \<open>fr_read\<close> (\<open>FrameReader.Read\<close>) and \<open>fw_write\<close> run on it. Round trips hold for any
    chunking; the copy loop equals a reference decoder; broken and truncated streams are values.

  \<^item> Control_Messages: the records of internal/protocol/message.go and \<open>NodeConfig.Equal\<close>.

  \<^item> Duration_Text, Json_Text, Json_Parse: the texts of durations and JSON documents as the Go standard
    library writes and reads them, with the escapes, the grammar of tokens and the limit of the nesting.

  \<^item> Message_Codec, Ws_Wire: the struct tags and the \<open>Duration\<close> methods of message.go, and
    internal/wsutil. A message that is written is read as the same message; a frame is accepted exactly
    when it is a text frame of a well-typed document; a longer one than the read limit never arrives.

  \<^item> Host_Port, Config_Load, Config_Laws, Config_Diff: internal/config. \<open>Load\<close> is the two loops over the
    document with every warning; \<open>config_wf\<close> is its invariant. \<open>DiffConfig\<close> is shown to be the exact
    difference of the owner and key maps.

  \<^item> Node_Stats, Session_Pool, Open_Stream, Pool_Properties: \<open>NodeStats\<close> and \<open>NodeSession\<close> of
    internal/server/registry.go. Every definition of Session_Pool is one lock hold; Open_Stream runs
    any number of \<open>OpenStream\<close> calls, interleaved at their atomic actions with channels, reloads and
    the end of the session. The account of the slots, the order of the queue and the impossibility
    to lose a handed slot are invariants of every run.

  \<^item> Registry: \<open>Registry\<close> of registry.go, against the contract \<open>session_table\<close>.

  \<^item> Port_Listeners, Listener_Laws, Listener_Refinement: internal/server/listener.go. Listeners are
    objects in a heap, each with its accept loop at the points where others can act. The operations of
    the manager run without interruption there and refine a map from ports to nodes.

  \<^item> Listener_Account: the same operations lock hold by lock hold, with any number of goroutines between
    two lock holds, and the account of every listener ever created: in the map, about to be stopped,
    stopped, or overwritten by a start that did not look again. Uninterrupted, they are the
    operations of Port_Listeners.

  \<^item> Client_Stream, Client_Session, Client_Status: internal/client. A stream from header to close, the
    handshakes, the control loop, the supervisor of the channels, the reconnect loops, shutdown.

  \<^item> Forwarding: \<open>forward\<close> of listener.go, and server and client put together end to end.

  \<^item> Server_Control, Server_Laws, Server_Steps: internal/server/server.go. The state \<open>server\<close> holds the
    configuration, the registry, the listeners, the sessions by reference and the messages sent.
    Each definition is what one goroutine does between two points where others can act, and each
    handler composes them. \<open>server_ok\<close> is the consistency of the whole: registry, listeners, sessions
    and configuration agree. Every handler, run without interruption, keeps it, but for the end of a
    drain whose node has come back in the meantime: that stops the listeners of the new session, and
    \<open>server_ok_but\<close> spares the nodes it has happened to (\<open>late_drained\<close>).

  \<^item> Reload_Frame, Server_Properties, Server_Liveness, Server_Races: what a reload touches and spares, who
    is served, the handshakes on every branch, heartbeat, drain, shutdown; then the interleavings
    of handlers that break the consistency.

  \<^item> Config_Agreement: server and client together. The messages of a session, read by the client's
    handshake and control loop, make it agree with the configuration in force, so that each port is
    dialled where the configuration says.

  \<^item> Wire_Sessions: handshakes and pushes as frames on the wire. Both ends decide on what they read as
    they decide on the messages themselves, up to the read limit; what is lost past it.

  \<^item> Endpoints: the HTTP servers of server.go, \<open>serve\<close>, \<open>retireServer\<close>, \<open>rebindEndpoints\<close> and the end of
    \<open>shutdown\<close>, with all goroutines of the wait group interleaved. Who holds which server is an invariant of every run, and
    the simple addresses of Server_Control are refined by it.

  \<^item> Net_Address, Exposure: IP literals; the warnings of \<open>warnIfExposed\<close> and \<open>ServeStatus\<close>.

  \<^item> Text_Runes, Command_Line, Commands: cmd/tunnel-client and cmd/tunnel-server on top of package flag,
    from the arguments and the environment to the exit code.

  \<^item> Config_Watch: \<open>watchConfig\<close> of server.go, when a change of the file becomes a reload.

  \<^item> Server_Status, Status_Properties: internal/server/status.go, the status page and the metrics.

  \<^item> Json_Indent, Status_Json: the texts of the two status pages; they read back as the documents.

  \<^bold>\<open>Correspondence.\<close> Definitions keep the names of the Go functions where HOL allows it; a part of a
  function has a name of its own and a text that says which. A map whose order or length matters
  is an association list, and the order is arbitrary wherever Go leaves it so. Errors are the left
  of a sum. A deadline reaches its parser with its JSON escapes resolved, not raw. Time is an argument, in nanoseconds. Counters and durations are unbounded integers:
  the 64-bit bounds of Go are not reached by counters, and configuration values are read within
  them (\<open>int64_range\<close>). Varints are computed on \<open>64 word\<close>.

  \<^bold>\<open>Loops and bounds.\<close> Loops over data are structural. \<open>frame_copy\<close> is partial in its definition and
  proved to end on every stream; \<open>handoffLocked\<close> ends because each round shortens the queue. The loops
  that wait for the network or the clock (\<open>controlReadLoop\<close>, \<open>pingLoop\<close>, \<open>waitDrained\<close>, \<open>run\<close>, the
  reconnect loops) run over the list of events they get, which may be any list; that a drain ends by
  its 151st look and a silent peer is cut by the fourth ping are theorems about such lists.

  \<^bold>\<open>Parameters.\<close> The YAML parser, the file system and \<open>time.ParseDuration\<close> as Load uses it (\<open>config_lib\<close>);
  the text of a \<open>time.Time\<close> and the floating-point product in a fractional duration (\<open>wire_lib\<close>, with the
  round trip of the first and the exactness of the second as named hypotheses); the WebSocket transport
  (\<open>transport\<close>, whose contract \<open>transport_ok\<close> is the documented read limit); the outcomes of smux, of dials,
  binds and writes, the clock, random ids, the floating-point quotients of rates and capacities, what a host
  name resolves to, and the choice a Go map makes when it is ranged over.

  \<^bold>\<open>Not modelled.\<close> \<open>wsutil.NetConn\<close> (one call of the WebSocket
  library), the set-up of signals and file notifications, the texts of log records and usage messages, and
  the accessors that return one field. Memory visibility is taken to be that of Go programs without data
  races: a lock hold and an atomic access are atomic steps.
\<close>

end
